(* ===== verification/Prelude.thy ===== *)
theory Prelude
  imports Main "HOL-Library.Word"
begin

text \<open>
  Shared ground of the kernel model: the machine's integer types, outcomes of C code that may
  hang or step outside an object, fixed-size C objects as lists, C strings inside them, byte
  memory, and the lemma collections the component theories rely on.
\<close>

unbundle bit_operations_syntax

section \<open>Lemma collections\<close>

named_theorems frame_simps \<open>fields an operation leaves alone\<close>
named_theorems outcome_simps \<open>running a sequence of fallible steps\<close>
named_theorems addr_simps \<open>byte addresses as natural numbers\<close>

section \<open>Integer types (types.h)\<close>

type_synonym u8 = "8 word"
type_synonym u16 = "16 word"
type_synonym u32 = "32 word"

section \<open>Outcomes\<close>

text \<open>
  A C function of the kernel returns (\<open>Ret\<close>), prints a message and spins in \<open>while(1)\<close>
  (\<open>Hang\<close>, with the message), or leaves what C defines: a read or write outside the object it
  was given, a null dereference, a division by zero (\<open>Undef\<close>).
\<close>

datatype 'a outcome = Ret 'a | Hang string | Undef

fun obind :: "'a outcome \<Rightarrow> ('a \<Rightarrow> 'b outcome) \<Rightarrow> 'b outcome" where
  "obind (Ret x) f = f x"
| "obind (Hang m) f = Hang m"
| "obind Undef f = Undef"

lemma obind_eq_Ret [outcome_simps]:
  "obind m f = Ret y \<longleftrightarrow> (\<exists>x. m = Ret x \<and> f x = Ret y)"
  by (cases m) auto

lemma obind_eq_Undef [outcome_simps]:
  "obind m f = Undef \<longleftrightarrow> m = Undef \<or> (\<exists>x. m = Ret x \<and> f x = Undef)"
  by (cases m) auto

lemma obind_assoc: "obind (obind m f) g = obind m (\<lambda>x. obind (f x) g)"
  by (cases m) auto

lemma obind_Ret_right [simp]: "obind m Ret = m"
  by (cases m) auto

lemma obind_cong [fundef_cong]:
  "m = m' \<Longrightarrow> (\<And>x. m' = Ret x \<Longrightarrow> f x = g x) \<Longrightarrow> obind m f = obind m' g"
  by (cases m') auto

section \<open>Signed division\<close>

text \<open>C's \<open>/\<close> and \<open>%\<close> on signed integers truncate towards zero.\<close>

definition cdiv :: "int \<Rightarrow> int \<Rightarrow> int" where
  "cdiv a b = sgn a * sgn b * (\<bar>a\<bar> div \<bar>b\<bar>)"

definition cmod :: "int \<Rightarrow> int \<Rightarrow> int" where
  "cmod a b = sgn a * (\<bar>a\<bar> mod \<bar>b\<bar>)"

lemma cdiv_nonneg: "0 \<le> a \<Longrightarrow> 0 < b \<Longrightarrow> cdiv a b = a div b"
  by (cases "a = 0") (auto simp: cdiv_def)

lemma cmod_nonneg: "0 \<le> a \<Longrightarrow> 0 < b \<Longrightarrow> cmod a b = a mod b"
  by (cases "a = 0") (auto simp: cmod_def)

section \<open>Fixed-size objects\<close>

text \<open>
  A C array is a list of its declared length; every access names its index and a step outside
  the list is \<open>Undef\<close>.
\<close>

definition buf_get :: "'a list \<Rightarrow> nat \<Rightarrow> 'a outcome" where
  "buf_get b i = (if i < length b then Ret (b ! i) else Undef)"

definition buf_set :: "'a list \<Rightarrow> nat \<Rightarrow> 'a \<Rightarrow> 'a list outcome" where
  "buf_set b i x = (if i < length b then Ret (b[i := x]) else Undef)"

lemma buf_get_in [simp]: "i < length b \<Longrightarrow> buf_get b i = Ret (b ! i)"
  by (simp add: buf_get_def)

lemma buf_set_in [simp]: "i < length b \<Longrightarrow> buf_set b i x = Ret (b[i := x])"
  by (simp add: buf_set_def)

lemma buf_get_out [simp]: "length b \<le> i \<Longrightarrow> buf_get b i = Undef"
  by (simp add: buf_get_def)

lemma buf_set_out [simp]: "length b \<le> i \<Longrightarrow> buf_set b i x = Undef"
  by (simp add: buf_set_def)

text \<open>Bytes stored one after the other from index \<open>i\<close> on.\<close>

fun buf_store :: "'a list \<Rightarrow> nat \<Rightarrow> 'a list \<Rightarrow> 'a list outcome" where
  "buf_store b i [] = Ret b"
| "buf_store b i (x # xs) = obind (buf_set b i x) (\<lambda>b'. buf_store b' (Suc i) xs)"

lemma take_Suc_update: "i < length b \<Longrightarrow> take (Suc i) (b[i := x]) = take i b @ [x]"
  by (simp add: take_Suc_conv_app_nth)

lemma buf_store_fits:
  "i + length xs \<le> length b \<Longrightarrow>
     buf_store b i xs = Ret (take i b @ xs @ drop (i + length xs) b)"
proof (induction xs arbitrary: b i)
  case Nil
  then show ?case by simp
next
  case (Cons x xs)
  then have i: "i < length b" by simp
  have "buf_store (b[i := x]) (Suc i) xs =
      Ret (take (Suc i) (b[i := x]) @ xs @ drop (Suc i + length xs) (b[i := x]))"
    using Cons.prems by (intro Cons.IH) simp
  with i show ?case by (simp add: take_Suc_update)
qed

lemma buf_store_overflow:
  "length b < i + length xs \<Longrightarrow> i \<le> length b \<Longrightarrow> buf_store b i xs = Undef"
proof (induction xs arbitrary: b i)
  case Nil
  then show ?case by simp
next
  case (Cons x xs)
  show ?case
  proof (cases "i < length b")
    case True
    with Cons.prems have "buf_store (b[i := x]) (Suc i) xs = Undef"
      by (intro Cons.IH) auto
    with True show ?thesis by simp
  next
    case False
    then show ?thesis by simp
  qed
qed

section \<open>C strings\<close>

text \<open>
  The string held by an object: its bytes before the first NUL. An object is \<open>terminated\<close> when
  it has one.
\<close>

definition cstr :: "u8 list \<Rightarrow> u8 list" where
  "cstr b = takeWhile (\<lambda>c. c \<noteq> 0) b"

definition terminated :: "u8 list \<Rightarrow> bool" where
  "terminated b \<longleftrightarrow> 0 \<in> set b"

text \<open>A string literal of the source, with its terminating NUL.\<close>

definition lit :: "string \<Rightarrow> u8 list" where
  "lit s = map of_char s @ [0]"

lemma cstr_split: "0 \<notin> set s \<Longrightarrow> cstr (s @ 0 # t) = s"
  by (induction s) (auto simp: cstr_def)

lemma terminated_split: "terminated (s @ 0 # t)"
  by (simp add: terminated_def)

lemma cstr_no_NUL: "0 \<notin> set (cstr b)"
  by (auto simp: cstr_def dest: set_takeWhileD)

lemma length_cstr_le: "length (cstr b) \<le> length b"
  by (simp add: cstr_def length_takeWhile_le)

lemma length_cstr_less: "terminated b \<Longrightarrow> length (cstr b) < length b"
proof -
  assume "terminated b"
  then have "cstr b \<noteq> b" using cstr_no_NUL by (metis terminated_def)
  then show ?thesis
    using takeWhile_eq_take[of "\<lambda>c. c \<noteq> 0" b] length_cstr_le[of b]
    by (metis cstr_def le_neq_implies_less length_takeWhile_le take_all_iff takeWhile_eq_take order_refl)
qed

lemma nth_cstr: "i < length (cstr b) \<Longrightarrow> cstr b ! i = b ! i"
  by (simp add: cstr_def takeWhile_nth)

lemma nth_cstr_nonzero: "i < length (cstr b) \<Longrightarrow> b ! i \<noteq> 0"
  using cstr_no_NUL nth_cstr nth_mem by metis

lemma nth_length_cstr: "length (cstr b) < length b \<Longrightarrow> b ! length (cstr b) = 0"
  unfolding cstr_def using nth_length_takeWhile by blast

lemma not_terminated_cstr: "\<not> terminated b \<Longrightarrow> cstr b = b"
  by (auto simp: cstr_def terminated_def takeWhile_eq_all_conv)

lemma terminated_decomp:
  assumes "terminated b"
  obtains t where "b = cstr b @ 0 # t"
proof
  have "length (cstr b) < length b" using assms by (rule length_cstr_less)
  then show "b = cstr b @ 0 # drop (Suc (length (cstr b))) b"
    by (metis append_take_drop_id cstr_def Cons_nth_drop_Suc nth_length_cstr takeWhile_eq_take)
qed

section \<open>Byte memory\<close>

text \<open>The 32-bit address space as bytes; address arithmetic wraps.\<close>

type_synonym memory = "u32 \<Rightarrow> u8"

definition mem_bytes :: "memory \<Rightarrow> u32 \<Rightarrow> nat \<Rightarrow> u8 list" where
  "mem_bytes m a n = map (\<lambda>i. m (a + of_nat i)) [0..<n]"

lemma length_mem_bytes [simp]: "length (mem_bytes m a n) = n"
  by (simp add: mem_bytes_def)

lemma nth_mem_bytes [simp]: "i < n \<Longrightarrow> mem_bytes m a n ! i = m (a + of_nat i)"
  by (simp add: mem_bytes_def)

lemma unat_lt32: "unat (x :: u32) < 2 ^ 32"
  using unsigned_less[of x, where ?'a = nat] by simp

lemma unat_of_nat32 [addr_simps]: "n < 2 ^ 32 \<Longrightarrow> unat (of_nat n :: u32) = n"
  by (simp add: unsigned_of_nat take_bit_nat_eq_self)

lemma of_nat_eq32 [addr_simps]:
  "m < 2 ^ 32 \<Longrightarrow> n < 2 ^ 32 \<Longrightarrow> (of_nat m :: u32) = of_nat n \<longleftrightarrow> m = n"
  by (metis unat_of_nat32)

text \<open>\<open>x\<close> is one of the \<open>n\<close> addresses from \<open>a\<close> on (wrapping round at the top).\<close>

definition in_range :: "u32 \<Rightarrow> nat \<Rightarrow> u32 \<Rightarrow> bool" where
  "in_range a n x \<longleftrightarrow> unat (x - a) < n"

lemma in_range_iff:
  "n \<le> 2 ^ 32 \<Longrightarrow> in_range a n x \<longleftrightarrow> (\<exists>i<n. x = a + of_nat i)"
proof
  assume "n \<le> 2 ^ 32" and "in_range a n x"
  then show "\<exists>i<n. x = a + of_nat i"
    by (intro exI[of _ "unat (x - a)"]) (simp add: in_range_def)
next
  assume n: "n \<le> 2 ^ 32" and "\<exists>i<n. x = a + of_nat i"
  then obtain i where "i < n" and "x = a + of_nat i" by blast
  with n show "in_range a n x" by (simp add: in_range_def unat_of_nat32)
qed

section \<open>The machine\<close>

text \<open>
  What the C code and its inline assembly share: the byte memory and the log of port accesses
  and interrupt-flag changes, newest first. A device is a function \<open>dev\<close> that answers a port
  read from the log so far; it is an argument of the definitions that read a port.
\<close>

datatype io_event = Out u16 u8 | In u16 | Cli | Sti

type_synonym device = "io_event list \<Rightarrow> u16 \<Rightarrow> u8"

record machine =
  mem :: memory
  io :: "io_event list"

definition outb :: "u8 \<Rightarrow> u16 \<Rightarrow> 'a machine_scheme \<Rightarrow> 'a machine_scheme" where
  "outb d p s = s\<lparr>io := Out p d # io s\<rparr>"

definition inb :: "device \<Rightarrow> u16 \<Rightarrow> 'a machine_scheme \<Rightarrow> u8 \<times> 'a machine_scheme" where
  "inb dev p s = (dev (io s) p, s\<lparr>io := In p # io s\<rparr>)"

definition cli :: "'a machine_scheme \<Rightarrow> 'a machine_scheme" where
  "cli s = s\<lparr>io := Cli # io s\<rparr>"

definition sti :: "'a machine_scheme \<Rightarrow> 'a machine_scheme" where
  "sti s = s\<lparr>io := Sti # io s\<rparr>"

definition poke :: "u32 \<Rightarrow> u8 \<Rightarrow> 'a machine_scheme \<Rightarrow> 'a machine_scheme" where
  "poke a b s = s\<lparr>mem := (mem s)(a := b)\<rparr>"

lemmas port_defs = outb_def inb_def cli_def sti_def

lemma mem_outb [frame_simps, simp]: "mem (outb d p s) = mem s"
  by (simp add: outb_def)

lemma io_outb [frame_simps, simp]: "io (outb d p s) = Out p d # io s"
  by (simp add: outb_def)

lemma mem_poke [simp]: "mem (poke a b s) = (mem s)(a := b)"
  by (simp add: poke_def)

lemma io_poke [frame_simps, simp]: "io (poke a b s) = io s"
  by (simp add: poke_def)

section \<open>Lines and words\<close>

text \<open>The parts of a text between separators; the last one is what follows the last separator.\<close>

fun split_on :: "'a \<Rightarrow> 'a list \<Rightarrow> 'a list list" where
  "split_on sep [] = [[]]"
| "split_on sep (x # t) =
     (if x = sep then [] # split_on sep t else (case split_on sep t of [] \<Rightarrow> [[x]] | l # ls \<Rightarrow> (x # l) # ls))"

lemma split_on_nonempty [simp]: "split_on sep t \<noteq> []"
  by (induction t) (auto split: list.splits)

lemma split_on_append: "split_on sep (a @ sep # b) = split_on sep a @ split_on sep b"
  by (induction a) (auto split: list.splits)

lemma split_on_one: "sep \<notin> set l \<Longrightarrow> split_on sep l = [l]"
  by (induction l) auto

lemma split_on_chars: "l \<in> set (split_on sep t) \<Longrightarrow> sep \<notin> set l \<and> set l \<subseteq> set t"
  by (induction t arbitrary: l) (fastforce split: if_splits list.splits)+

text \<open>The lines of a text without the newlines, and its words.\<close>

abbreviation text_lines :: "u8 list \<Rightarrow> u8 list list" where
  "text_lines \<equiv> split_on 10"

definition words_in :: "u8 list \<Rightarrow> u8 list list" where
  "words_in t = filter (\<lambda>w. w \<noteq> []) (split_on 32 t)"

lemma words_in_blanks [simp]: "words_in (replicate i 32) = []" "words_in (replicate i 32 @ t) = words_in t"
  by (induction i) (simp_all add: words_in_def)

lemma words_in_word: "w \<noteq> [] \<Longrightarrow> 32 \<notin> set w \<Longrightarrow> words_in (w @ 32 # t) = w # words_in t" "w \<noteq> [] \<Longrightarrow> 32 \<notin> set w \<Longrightarrow> words_in w = [w]"
  by (simp_all add: words_in_def split_on_append split_on_one)

text \<open>Words put together with single blanks.\<close>

fun unwords :: "u8 list list \<Rightarrow> u8 list" where
  "unwords [] = []"
| "unwords [w] = w"
| "unwords (w # ws) = w @ 32 # unwords ws"

lemma words_in_unwords: "\<forall>w\<in>set ws. w \<noteq> [] \<and> 32 \<notin> set w \<Longrightarrow> words_in (unwords ws) = ws"
proof (induction ws rule: unwords.induct)
  case 1
  show ?case using words_in_blanks(1)[of 0] by simp
qed (simp_all add: words_in_word)

end
