(* ===== verification/Lib_String.thy ===== *)
theory Lib_String
  imports Prelude
begin

text \<open>
  The string routines of \<open>lib.c\<close>: \<open>strlen\<close>, \<open>strcpy\<close>, \<open>strncpy\<close>, \<open>strncmp\<close>, \<open>strrev\<close> and
  \<open>itoa\<close>. A pointer argument is the object it points into, from the pointed-to byte to the
  object's end; walking off that object is \<open>Undef\<close>. Each loop is a recursive function on the
  loop's index; the lemmas give its result in terms of \<^const>\<open>cstr\<close>.
\<close>

section \<open>Definitions\<close>

function strlen_loop :: "u8 list \<Rightarrow> nat \<Rightarrow> nat outcome" where
  "strlen_loop s len =
     (if len < length s
      then (if s ! len \<noteq> 0 then strlen_loop s (Suc len) else Ret len)
      else Undef)"
  by pat_completeness auto
termination
  by (relation "measure (\<lambda>(s, len). length s - len)") auto

definition strlen :: "u8 list \<Rightarrow> nat outcome" where
  "strlen s = strlen_loop s 0"

function strcpy_loop :: "u8 list \<Rightarrow> u8 list \<Rightarrow> nat \<Rightarrow> u8 list outcome" where
  "strcpy_loop dest src i =
     (if i < length src
      then (if src ! i \<noteq> 0
            then (if i < length dest then strcpy_loop (dest[i := src ! i]) src (Suc i) else Undef)
            else buf_set dest i 0)
      else Undef)"
  by pat_completeness auto
termination
  by (relation "measure (\<lambda>(dest, src, i). length src - i)") auto

definition strcpy :: "u8 list \<Rightarrow> u8 list \<Rightarrow> u8 list outcome" where
  "strcpy dest src = strcpy_loop dest src 0"

text \<open>
  \<open>strncpy\<close>: the copying loop tests \<open>src[i]\<close> before \<open>i < n\<close>, so it may read \<open>src[n]\<close>; then the
  rest of the \<open>n\<close> bytes is filled with NULs.
\<close>

function strncpy_pad :: "u8 list \<Rightarrow> nat \<Rightarrow> nat \<Rightarrow> u8 list outcome" where
  "strncpy_pad dest i n =
     (if i < n
      then (if i < length dest then strncpy_pad (dest[i := 0]) (Suc i) n else Undef)
      else Ret dest)"
  by pat_completeness auto
termination
  by (relation "measure (\<lambda>(dest, i, n). n - i)") auto

function strncpy_loop :: "u8 list \<Rightarrow> u8 list \<Rightarrow> nat \<Rightarrow> nat \<Rightarrow> u8 list outcome" where
  "strncpy_loop dest src i n =
     (if i < length src
      then (if src ! i \<noteq> 0 \<and> i < n
            then (if i < length dest then strncpy_loop (dest[i := src ! i]) src (Suc i) n else Undef)
            else strncpy_pad dest i n)
      else Undef)"
  by pat_completeness auto
termination
  by (relation "measure (\<lambda>(dest, src, i, n). length src - i)") auto

definition strncpy :: "u8 list \<Rightarrow> u8 list \<Rightarrow> nat \<Rightarrow> u8 list outcome" where
  "strncpy dest src n = strncpy_loop dest src 0 n"

text \<open>\<open>strncmp\<close> subtracts the two differing bytes as signed \<open>char\<close>s.\<close>

function strncmp_loop :: "u8 list \<Rightarrow> u8 list \<Rightarrow> nat \<Rightarrow> nat \<Rightarrow> int outcome" where
  "strncmp_loop s1 s2 i n =
     (if i < n
      then (if i < length s1 \<and> i < length s2
            then (if s1 ! i \<noteq> s2 ! i \<or> s1 ! i = 0 then Ret (sint (s1 ! i) - sint (s2 ! i))
                  else strncmp_loop s1 s2 (Suc i) n)
            else Undef)
      else Ret 0)"
  by pat_completeness auto
termination
  by (relation "measure (\<lambda>(s1, s2, i, n). n - i)") auto

definition strncmp :: "u8 list \<Rightarrow> u8 list \<Rightarrow> nat \<Rightarrow> int outcome" where
  "strncmp s1 s2 n = strncmp_loop s1 s2 0 n"

function strrev_loop :: "u8 list \<Rightarrow> int \<Rightarrow> int \<Rightarrow> u8 list outcome" where
  "strrev_loop s beg en =
     (if beg < en
      then (if 0 \<le> beg \<and> nat en < length s
            then strrev_loop (s[nat en := s ! nat beg, nat beg := s ! nat en]) (beg + 1) (en - 1)
            else Undef)
      else Ret s)"
  by pat_completeness auto
termination
  by (relation "measure (\<lambda>(s, beg, en). nat (en - beg))") auto

definition strrev :: "u8 list \<Rightarrow> u8 list outcome" where
  "strrev s = obind (strlen s) (\<lambda>n. strrev_loop s 0 (int n - 1))"

definition lookup :: "u8 list" where
  "lookup = lit ''0123456789ABCDEFGHIJKLMNOPQRSTUVWXYZ''"

function itoa_loop :: "u32 \<Rightarrow> u8 list \<Rightarrow> nat \<Rightarrow> u32 \<Rightarrow> u8 list outcome" where
  "itoa_loop newval buf pos radix =
     (if newval > 0
      then (if radix \<noteq> 0 \<and> unat (newval mod radix) < length lookup \<and> pos < length buf
            then itoa_loop (newval div radix) (buf[pos := lookup ! unat (newval mod radix)])
                   (Suc pos) radix
            else Undef)
      else buf_set buf pos 0)"
  by pat_completeness auto
termination
  by (relation "measure (\<lambda>(newval, buf, pos, radix). length buf - pos)") auto

definition itoa :: "u32 \<Rightarrow> u8 list \<Rightarrow> u32 \<Rightarrow> u8 list outcome" where
  "itoa value buf radix =
     (if value = 0
      then obind (buf_set buf 0 (of_char CHR ''0'')) (\<lambda>b. buf_set b 1 0)
      else obind (itoa_loop value buf 0 radix) strrev)"

declare strlen_loop.simps [simp del] strcpy_loop.simps [simp del] strncpy_pad.simps [simp del]
  strncpy_loop.simps [simp del] strncmp_loop.simps [simp del] strrev_loop.simps [simp del]
  itoa_loop.simps [simp del]

section \<open>strlen\<close>

lemma strlen_loop_run:
  "len \<le> length (cstr s) \<Longrightarrow>
     strlen_loop s len = (if terminated s then Ret (length (cstr s)) else Undef)"
proof (induction s len rule: strlen_loop.induct)
  case (1 s len)
  show ?case
  proof (cases "len < length (cstr s)")
    case True
    then have "len < length s" and "s ! len \<noteq> 0"
      using length_cstr_le[of s] nth_cstr_nonzero by (auto intro: less_le_trans)
    with "1.IH" True show ?thesis by (subst strlen_loop.simps) simp
  next
    case False
    with "1.prems" have len: "len = length (cstr s)" by simp
    show ?thesis
    proof (cases "terminated s")
      case True
      then have "len < length s" using len length_cstr_less by simp
      with True len show ?thesis by (subst strlen_loop.simps) (simp add: nth_length_cstr)
    next
      case False
      then show ?thesis using len by (subst strlen_loop.simps) (simp add: not_terminated_cstr)
    qed
  qed
qed

lemma strlen_eq: "strlen s = (if terminated s then Ret (length (cstr s)) else Undef)"
  by (simp add: strlen_def strlen_loop_run)

section \<open>strcpy and strncpy\<close>

lemma strcpy_loop_run:
  assumes "terminated src" and "length (cstr src) < length dest" and "i \<le> length (cstr src)"
  shows "strcpy_loop dest src i =
    Ret (take i dest @ drop i (cstr src) @ 0 # drop (Suc (length (cstr src))) dest)"
  using assms
proof (induction dest src i rule: strcpy_loop.induct)
  case (1 dest src i)
  let ?n = "length (cstr src)"
  have n: "?n < length src" using "1.prems"(1) by (rule length_cstr_less)
  show ?case
  proof (cases "i < ?n")
    case True
    then have i: "i < length src" "src ! i \<noteq> 0" "i < length dest"
      using n "1.prems"(2) nth_cstr_nonzero by auto
    have "strcpy_loop (dest[i := src ! i]) src (Suc i) =
      Ret (take (Suc i) (dest[i := src ! i]) @ drop (Suc i) (cstr src)
           @ 0 # drop (Suc ?n) (dest[i := src ! i]))"
      using i True "1.prems" by (intro "1.IH") auto
    moreover have "drop i (cstr src) = src ! i # drop (Suc i) (cstr src)"
      using True by (metis Cons_nth_drop_Suc nth_cstr)
    ultimately show ?thesis
      using i True by (subst strcpy_loop.simps) (simp add: take_Suc_update)
  next
    case False
    with "1.prems" have i: "i = ?n" by simp
    with n "1.prems"(2) show ?thesis
      by (subst strcpy_loop.simps)
        (simp add: nth_length_cstr upd_conv_take_nth_drop)
  qed
qed

text \<open>Copying a string that fits stores its bytes and a NUL and leaves the rest of the object.\<close>

lemma strcpy_fits:
  "terminated src \<Longrightarrow> length (cstr src) < length dest \<Longrightarrow>
     strcpy dest src = Ret (cstr src @ 0 # drop (Suc (length (cstr src))) dest)"
  by (simp add: strcpy_def strcpy_loop_run)

lemma strcpy_loop_overflow:
  assumes "terminated src" and "length dest \<le> length (cstr src)" and "i \<le> length dest"
  shows "strcpy_loop dest src i = Undef"
  using assms
proof (induction dest src i rule: strcpy_loop.induct)
  case (1 dest src i)
  have n: "length (cstr src) < length src" using "1.prems"(1) by (rule length_cstr_less)
  show ?case
  proof (cases "i < length dest")
    case True
    then have i: "i < length (cstr src)" using "1.prems" by simp
    then have "i < length src" "src ! i \<noteq> 0" using n nth_cstr_nonzero by auto
    with True "1.IH" "1.prems" show ?thesis by (subst strcpy_loop.simps) simp
  next
    case False
    with "1.prems" show ?thesis by (subst strcpy_loop.simps) simp
  qed
qed

lemma strcpy_overflow:
  "terminated src \<Longrightarrow> length dest \<le> length (cstr src) \<Longrightarrow> strcpy dest src = Undef"
  by (simp add: strcpy_def strcpy_loop_overflow)

lemma strcpy_terminated: "strcpy dest src = Ret d \<Longrightarrow> terminated d"
proof -
  have "strcpy_loop dest src i = Ret d \<Longrightarrow> 0 \<in> set d" for i
  proof (induction dest src i rule: strcpy_loop.induct)
    case (1 dest src i)
    then show ?case by (subst (asm) (2) strcpy_loop.simps) (auto split: if_splits simp: buf_set_def set_update_memI)
  qed
  then show "strcpy dest src = Ret d \<Longrightarrow> terminated d" by (auto simp: strcpy_def terminated_def)
qed

lemma strcpy_length: "strcpy dest src = Ret d \<Longrightarrow> length d = length dest"
proof -
  have "strcpy_loop dest src i = Ret d \<Longrightarrow> length d = length dest" for i
  proof (induction dest src i rule: strcpy_loop.induct)
    case (1 dest src i)
    then show ?case
      by (subst (asm) strcpy_loop.simps) (auto simp: buf_set_def split: if_splits)
  qed
  then show "strcpy dest src = Ret d \<Longrightarrow> length d = length dest"
    by (auto simp: strcpy_def)
qed

lemma strncpy_pad_run:
  "i \<le> n \<Longrightarrow> n \<le> length dest \<Longrightarrow>
     strncpy_pad dest i n = Ret (take i dest @ replicate (n - i) 0 @ drop n dest)"
proof (induction dest i n rule: strncpy_pad.induct)
  case (1 dest i n)
  show ?case
  proof (cases "i < n")
    case True
    with "1.prems" have "i < length dest" by simp
    moreover have "replicate (n - i) (0::u8) = 0 # replicate (n - Suc i) 0"
      using True by (metis Suc_diff_Suc replicate_Suc)
    ultimately show ?thesis
      using True "1.prems" "1.IH" by (subst strncpy_pad.simps) (simp add: take_Suc_update)
  next
    case False
    with "1.prems" show ?thesis by (subst strncpy_pad.simps) simp
  qed
qed

lemma strncpy_loop_run:
  assumes "length (cstr src) < length src \<or> n < length src" and "n \<le> length dest"
    and "i \<le> min n (length (cstr src))"
  shows "strncpy_loop dest src i n =
    Ret (take i dest @ drop i (take n (cstr src)) @ replicate (n - length (cstr src)) 0 @ drop n dest)"
  using assms
proof (induction dest src i n rule: strncpy_loop.induct)
  case (1 dest src i n)
  let ?l = "length (cstr src)"
  have i: "i < length src" using "1.prems" length_cstr_le[of src] by auto
  show ?case
  proof (cases "i < n \<and> i < ?l")
    case True
    then have si: "src ! i \<noteq> 0" "i < length dest" using "1.prems"(2) nth_cstr_nonzero by auto
    have "drop i (take n (cstr src)) = src ! i # drop (Suc i) (take n (cstr src))"
      using True by (metis Cons_nth_drop_Suc length_take min_less_iff_conj nth_cstr nth_take)
    with True si i "1.prems" "1.IH" show ?thesis
      by (subst strncpy_loop.simps) (simp add: take_Suc_update)
  next
    case False
    have stop: "\<not> (src ! i \<noteq> 0 \<and> i < n)"
    proof
      assume nz: "src ! i \<noteq> 0 \<and> i < n"
      with False "1.prems" have "i = ?l" by auto
      with nz i show False by (simp add: nth_length_cstr)
    qed
    have "drop i (take n (cstr src)) = []" using False "1.prems"(3) by auto
    moreover have "n - i = n - ?l" using False "1.prems"(3) by auto
    ultimately show ?thesis
      using stop i "1.prems" by (subst strncpy_loop.simps) (auto simp: strncpy_pad_run)
  qed
qed

section \<open>strncmp\<close>

text \<open>
  Two objects agree as strings on their first \<open>n\<close> bytes: equal bytes up to and including a
  common NUL, or \<open>n\<close> equal bytes.
\<close>

definition same_prefix :: "u8 list \<Rightarrow> u8 list \<Rightarrow> nat \<Rightarrow> bool" where
  "same_prefix s1 s2 n \<longleftrightarrow> take n (cstr s1) = take n (cstr s2)"

lemma take_cstr_Cons:
  "i < length s \<Longrightarrow> i < n \<Longrightarrow>
     take (n - i) (cstr (drop i s)) =
       (if s ! i = 0 then [] else s ! i # take (n - Suc i) (cstr (drop (Suc i) s)))"
proof -
  assume a: "i < length s" "i < n"
  then have "drop i s = s ! i # drop (Suc i) s" by (simp add: Cons_nth_drop_Suc)
  then show ?thesis
    using a Suc_diff_Suc[of i n] by (auto simp: cstr_def simp flip: Suc_diff_Suc)
qed

lemma strncmp_loop_run:
  assumes "n \<le> length s1" and "n \<le> length s2" and "i \<le> n"
  shows "\<exists>r. strncmp_loop s1 s2 i n = Ret r \<and>
    (r = 0 \<longleftrightarrow> take (n - i) (cstr (drop i s1)) = take (n - i) (cstr (drop i s2)))"
  using assms
proof (induction s1 s2 i n rule: strncmp_loop.induct)
  case (1 s1 s2 i n)
  show ?case
  proof (cases "i < n")
    case False
    with "1.prems" show ?thesis by (subst strncmp_loop.simps) simp
  next
    case True
    then have l: "i < length s1" "i < length s2" using "1.prems" by auto
    note split = take_cstr_Cons[OF l(1) True] take_cstr_Cons[OF l(2) True]
    show ?thesis
    proof (cases "s1 ! i \<noteq> s2 ! i \<or> s1 ! i = 0")
      case stop: True
      have "sint (s1 ! i) - sint (s2 ! i) = 0 \<longleftrightarrow> s1 ! i = s2 ! i"
        using signed_word_eqI by fastforce
      with stop True l split show ?thesis by (subst strncmp_loop.simps) auto
    next
      case go: False
      with "1.IH" True l "1.prems" split show ?thesis by (subst strncmp_loop.simps) simp
    qed
  qed
qed

lemma strncmp_zero_iff:
  assumes "n \<le> length s1" and "n \<le> length s2"
  shows "\<exists>r. strncmp s1 s2 n = Ret r \<and> (r = 0 \<longleftrightarrow> same_prefix s1 s2 n)"
  using strncmp_loop_run[OF assms, of 0] by (simp add: strncmp_def same_prefix_def)

section \<open>strrev\<close>

lemma strrev_loop_run:
  assumes "int (length s) \<ge> n" and "beg + en = n - 1" and "0 \<le> beg"
  shows "\<exists>r. strrev_loop s beg en = Ret r \<and> length r = length s \<and>
    (\<forall>i < length s. r ! i =
       (if beg \<le> int i \<and> int i \<le> en then s ! nat (n - 1 - int i) else s ! i))"
  using assms
proof (induction s beg en rule: strrev_loop.induct)
  case (1 s beg en)
  let ?s = "s[nat en := s ! nat beg, nat beg := s ! nat en]"
  show ?case
  proof (cases "beg < en")
    case False
    with "1.prems" show ?thesis
      by (subst strrev_loop.simps) (auto intro!: arg_cong[where f = "(!) s"])
  next
    case True
    with "1.prems" have c: "0 \<le> beg \<and> nat en < length s" by linarith
    from "1.IH"[OF True c] "1.prems" obtain r where
      r: "strrev_loop ?s (beg + 1) (en - 1) = Ret r" "length r = length s"
      and nth: "\<And>i. i < length s \<Longrightarrow> r ! i =
        (if beg + 1 \<le> int i \<and> int i \<le> en - 1 then ?s ! nat (n - 1 - int i) else ?s ! i)"
      by auto
    have "r ! i = (if beg \<le> int i \<and> int i \<le> en then s ! nat (n - 1 - int i) else s ! i)"
      if "i < length s" for i
    proof -
      consider "int i = beg" | "int i = en" | "beg < int i" "int i < en" | "int i < beg" | "en < int i"
        by linarith
      then show ?thesis
        using nth[OF that] c True that "1.prems"(1,3)
        by cases (auto simp: nth_list_update "1.prems"(2)[symmetric])
    qed
    with r c True show ?thesis by (subst strrev_loop.simps) auto
  qed
qed

lemma strrev_eq:
  assumes "terminated s"
  shows "strrev s = Ret (rev (cstr s) @ drop (length (cstr s)) s)"
proof -
  let ?n = "length (cstr s)"
  have n: "?n < length s" using assms by (rule length_cstr_less)
  obtain r where r: "strrev_loop s 0 (int ?n - 1) = Ret r" "length r = length s"
    and nth: "\<And>i. i < length s \<Longrightarrow> r ! i =
      (if 0 \<le> int i \<and> int i \<le> int ?n - 1 then s ! nat (int ?n - 1 - int i) else s ! i)"
    using strrev_loop_run[of "int ?n" s 0 "int ?n - 1"] n by auto
  have "r = rev (cstr s) @ drop ?n s"
  proof (rule nth_equalityI)
    show "length r = length (rev (cstr s) @ drop ?n s)" using r(2) n by simp
  next
    fix i assume "i < length r"
    then have i: "i < length s" using r(2) by simp
    show "r ! i = (rev (cstr s) @ drop ?n s) ! i"
    proof (cases "i < ?n")
      case True
      then have "nat (int ?n - 1 - int i) = ?n - Suc i" by linarith
      with True show ?thesis
        using nth[OF i] by (simp add: nth_append rev_nth nth_cstr)
    next
      case False
      with n show ?thesis using nth[OF i] by (simp add: nth_append)
    qed
  qed
  with r assms show ?thesis by (simp add: strrev_def strlen_eq)
qed

section \<open>itoa\<close>

text \<open>The digits of a number, least significant first, as the loop produces them.\<close>

fun digits :: "nat \<Rightarrow> nat \<Rightarrow> nat list" where
  "digits r n = (if n = 0 \<or> r < 2 then [] else n mod r # digits r (n div r))"

declare digits.simps [simp del]

text \<open>The number a digit sequence denotes, most significant digit first.\<close>

definition denote :: "nat \<Rightarrow> nat list \<Rightarrow> nat" where
  "denote r ds = foldl (\<lambda>a d. a * r + d) 0 ds"

lemma denote_snoc [simp]: "denote r (ds @ [d]) = denote r ds * r + d"
  by (simp add: denote_def)

lemma denote_digits: "2 \<le> r \<Longrightarrow> denote r (rev (digits r n)) = n"
proof (induction r n rule: digits.induct)
  case (1 r n)
  then show ?case
    by (subst digits.simps) (auto simp: denote_def div_mult_mod_eq)
qed

lemma digits_range: "d \<in> set (digits r n) \<Longrightarrow> d < r"
proof (induction r n rule: digits.induct)
  case (1 r n)
  then show ?case by (subst (asm) digits.simps) (auto split: if_splits)
qed

lemma digits_bound: "2 \<le> r \<Longrightarrow> n < r ^ k \<Longrightarrow> length (digits r n) \<le> k"
proof (induction k arbitrary: n)
  case 0
  then show ?case by (subst digits.simps) simp
next
  case (Suc k)
  then have "n div r < r ^ k" by (simp add: less_mult_imp_div_less mult.commute)
  with Suc show ?case by (subst digits.simps) auto
qed

lemma digits_last: "2 \<le> r \<Longrightarrow> 0 < n \<Longrightarrow> digits r n \<noteq> [] \<and> last (digits r n) \<noteq> 0"
proof (induction r n rule: digits.induct)
  case (1 r n)
  show ?case
  proof (cases "n div r = 0")
    case True
    then have "n mod r = n" using "1.prems" by (simp add: div_eq_0_iff)
    with True "1.prems" show ?thesis by (subst (1 2) digits.simps) (simp add: digits.simps[of r 0])
  next
    case False
    with "1.IH" "1.prems" show ?thesis by (subst (1 2) digits.simps) auto
  qed
qed

lemma length_lookup [simp]: "length lookup = 37"
  by (simp add: lookup_def lit_def)

lemma lookup_nonzero: "d < 36 \<Longrightarrow> lookup ! d \<noteq> 0"
proof -
  have "\<forall>d \<in> set [0..<36]. lookup ! d \<noteq> 0"
    by (simp add: lookup_def lit_def upt_rec)
  then show "d < 36 \<Longrightarrow> lookup ! d \<noteq> 0" by simp
qed

lemma itoa_loop_run:
  assumes "2 \<le> unat radix" and "unat radix \<le> 36"
    and "pos + length (digits (unat radix) (unat v)) < length buf"
  shows "itoa_loop v buf pos radix =
    Ret (take pos buf @ map ((!) lookup) (digits (unat radix) (unat v)) @
         0 # drop (Suc (pos + length (digits (unat radix) (unat v)))) buf)"
  using assms
proof (induction v buf pos radix rule: itoa_loop.induct)
  case (1 v buf pos radix)
  let ?r = "unat radix"
  show ?case
  proof (cases "v > 0")
    case False
    then have "v = 0" by (simp add: word_gt_0)
    then show ?thesis using "1.prems"
      by (subst itoa_loop.simps)
        (simp add: digits.simps[of "?r" 0] upd_conv_take_nth_drop)
  next
    case True
    then have v: "unat v \<noteq> 0" by (simp add: word_gt_0 unat_eq_zero)
    have d: "digits ?r (unat v) = unat v mod ?r # digits ?r (unat v div ?r)"
      using v "1.prems" by (subst digits.simps) simp
    have m: "unat (v mod radix) = unat v mod ?r" "unat (v div radix) = unat v div ?r"
      by (simp_all add: unat_mod unat_div)
    have "unat v mod ?r < ?r" using "1.prems"(1) by simp
    then have m37: "unat (v mod radix) < 37" using m "1.prems"(2) by linarith
    have r0: "radix \<noteq> 0" using "1.prems"(1) by auto
    have pos: "pos < length buf" using "1.prems" by simp
    from "1.IH" True r0 m37 pos "1.prems" d m show ?thesis
      by (subst itoa_loop.simps) (simp add: take_Suc_update)
  qed
qed

text \<open>
  The written string, for any radix up to 36 and any value: its characters are table entries for
  digits below the radix, the digits denote the value, and there is no leading zero except in
  \<open>0\<close> itself.
\<close>

definition denotes :: "nat \<Rightarrow> u8 list \<Rightarrow> nat \<Rightarrow> bool" where
  "denotes r s v \<longleftrightarrow> (\<exists>ds. s = map ((!) lookup) ds \<and> ds \<noteq> [] \<and> (\<forall>d \<in> set ds. d < r) \<and>
     denote r ds = v \<and> (v \<noteq> 0 \<longrightarrow> hd ds \<noteq> 0))"

lemma itoa_correct:
  assumes r: "2 \<le> unat radix" "unat radix \<le> 36"
    and k: "unat v < unat radix ^ k" "0 < k" and buf: "k < length buf"
  shows "\<exists>b. itoa v buf radix = Ret b \<and> length b = length buf \<and> terminated b \<and>
    length (cstr b) \<le> k \<and> denotes (unat radix) (cstr b) (unat v)"
proof (cases "v = 0")
  case True
  obtain x y t where buf': "buf = x # y # t"
    using buf k(2) by (cases buf; cases "tl buf") auto
  have l0: "lookup ! 0 = of_char CHR ''0''" by (simp add: lookup_def lit_def)
  have b: "itoa v buf radix = Ret ([of_char CHR ''0''] @ 0 # t)"
    using True buf' by (simp add: itoa_def)
  have c: "cstr ([of_char CHR ''0''] @ 0 # t) = [of_char CHR ''0'']"
    by (rule cstr_split) simp
  have "denotes (unat radix) [of_char CHR ''0''] 0"
    unfolding denotes_def by (rule exI[of _ "[0]"]) (use r l0 in \<open>simp add: denote_def\<close>)
  with b c True buf' k(2) show ?thesis by (simp add: terminated_def)
next
  case False
  let ?r = "unat radix" and ?v = "unat v"
  let ?ds = "digits ?r ?v"
  have v: "0 < ?v" using False by (simp add: unat_gt_0)
  have len: "length ?ds \<le> k" using digits_bound r(1) k(1) by blast
  define t where "t = drop (Suc (length ?ds)) buf"
  have loop: "itoa_loop v buf 0 radix = Ret (map ((!) lookup) ?ds @ 0 # t)"
    using itoa_loop_run[of radix 0 v buf] r len buf by (simp add: t_def)
  have nz: "0 \<notin> set (map ((!) lookup) ?ds)"
    using digits_range lookup_nonzero r(2) by (auto dest!: digits_range)
  note c1 = cstr_split[OF nz, of t]
  have res: "itoa v buf radix = Ret (map ((!) lookup) (rev ?ds) @ 0 # t)"
    using False strrev_eq[OF terminated_split, of "map ((!) lookup) ?ds" t] loop c1
    by (simp add: itoa_def rev_map)
  have c2: "cstr (map ((!) lookup) (rev ?ds) @ 0 # t) = map ((!) lookup) (rev ?ds)"
    using nz by (intro cstr_split) auto
  have "denotes ?r (map ((!) lookup) (rev ?ds)) ?v"
    unfolding denotes_def
    by (rule exI[of _ "rev ?ds"])
      (use r v digits_last[of ?r ?v] digits_range in \<open>auto simp: denote_digits hd_rev\<close>)
  with res c2 len buf show ?thesis by (simp add: terminated_def t_def)
qed

lemma denote_leading_zeros: "denote r (replicate n 0 @ ds) = denote r ds"
  by (induction n) (simp_all add: denote_def)

section \<open>Properties\<close>

text \<open>
  with a buffer of 34 bytes \<open>itoa\<close> is safe for every number and every radix from 2 to 36, and the
  string it leaves in the buffer denotes the number, most significant digit first.
\<close>

lemma itoa_denotes:
  assumes "2 \<le> unat radix" "unat radix \<le> 36" "34 \<le> length buf"
  shows "\<exists>b. itoa v buf radix = Ret b \<and> length b = length buf \<and> terminated b \<and>
    denotes (unat radix) (cstr b) (unat v)"
proof -
  have "unat v < 2 ^ 32" using unsigned_less[of v, where 'a = nat] by simp
  also have "(2 :: nat) ^ 32 \<le> unat radix ^ 32" using assms(1) by (rule power_mono) simp
  finally show ?thesis using itoa_correct[of radix v 32 buf] assms by auto
qed

lemma itoa_denotes_witness:
  "\<exists>b. itoa 48879 (replicate 34 0) 16 = Ret b \<and> length b = 34 \<and> terminated b \<and> denotes 16 (cstr b) 48879"
  using itoa_denotes[of 16 "replicate 34 0" 48879] by simp

text \<open>
  \<open>strcpy\<close> copies the source with its NUL and keeps the rest of the destination when the
  destination has room for it, and writes past the destination exactly when it has not.
\<close>

lemma strcpy_copies:
  assumes "terminated src"
  shows "strcpy dest src =
    (if length (cstr src) < length dest then Ret (cstr src @ 0 # drop (Suc (length (cstr src))) dest) else Undef)"
  using strcpy_fits strcpy_overflow assms by simp

end
