(* ===== verification/Lib_Mem.thy ===== *)
theory Lib_Mem
  imports Prelude
begin

text \<open>
  The block routines of \<open>lib.c\<close>, which are inline assembly: \<open>memset\<close>, \<open>memset_word\<close>,
  \<open>memset_dword\<close>, \<open>memcpy\<close> and \<open>memmove\<close>. The loops are written instruction group by instruction
  group over \<open>EDI\<close>, \<open>ESI\<close> and \<open>ECX\<close>; \<open>ECX\<close>, which only counts down to zero, is read as a natural
  number. The lemmas show that each routine is one block fill or block copy.
\<close>

section \<open>Stores wider than a byte\<close>

text \<open>Little-endian stores of the low 16 and all 32 bits of a register.\<close>

definition store16 :: "memory \<Rightarrow> u32 \<Rightarrow> u32 \<Rightarrow> memory" where
  "store16 m a w = m(a := ucast w, a + 1 := ucast (drop_bit 8 w))"

definition store32 :: "memory \<Rightarrow> u32 \<Rightarrow> u32 \<Rightarrow> memory" where
  "store32 m a w = m(a := ucast w, a + 1 := ucast (drop_bit 8 w),
     a + 2 := ucast (drop_bit 16 w), a + 3 := ucast (drop_bit 24 w))"

section \<open>memset\<close>

fun memset_top :: "memory \<Rightarrow> u8 \<Rightarrow> u32 \<Rightarrow> nat \<Rightarrow> memory \<times> u32 \<times> nat" where
  "memset_top m al edi 0 = (m, edi, 0)"
| "memset_top m al edi (Suc ecx) =
     (if edi AND 3 = 0 then (m, edi, Suc ecx)
      else memset_top (m(edi := al)) al (edi + 1) ecx)"

fun rep_stosl :: "memory \<Rightarrow> u32 \<Rightarrow> u32 \<Rightarrow> nat \<Rightarrow> memory \<times> u32" where
  "rep_stosl m eax edi 0 = (m, edi)"
| "rep_stosl m eax edi (Suc ecx) = rep_stosl (store32 m edi eax) eax (edi + 4) ecx"

fun rep_stosw :: "memory \<Rightarrow> u32 \<Rightarrow> u32 \<Rightarrow> nat \<Rightarrow> memory \<times> u32" where
  "rep_stosw m eax edi 0 = (m, edi)"
| "rep_stosw m eax edi (Suc ecx) = rep_stosw (store16 m edi eax) eax (edi + 2) ecx"

fun memset_bottom :: "memory \<Rightarrow> u8 \<Rightarrow> u32 \<Rightarrow> nat \<Rightarrow> memory" where
  "memset_bottom m al edi 0 = m"
| "memset_bottom m al edi (Suc edx) = memset_bottom (m(edi := al)) al (edi + 1) edx"

definition memset :: "memory \<Rightarrow> u32 \<Rightarrow> u32 \<Rightarrow> u32 \<Rightarrow> memory" where
  "memset m s c n =
     (let c = c AND 0xFF;
          eax = push_bit 24 c OR push_bit 16 c OR push_bit 8 c OR c;
          al = ucast eax;
          (m1, edi, ecx) = memset_top m al s (unat n)
      in if ecx = 0 then m1
         else let edx = ecx mod 4; (m2, edi2) = rep_stosl m1 eax edi (ecx div 4)
              in memset_bottom m2 al edi2 edx)"

definition memset_word :: "memory \<Rightarrow> u32 \<Rightarrow> u32 \<Rightarrow> u32 \<Rightarrow> memory" where
  "memset_word m s c n = fst (rep_stosw m c s (unat n))"

definition memset_dword :: "memory \<Rightarrow> u32 \<Rightarrow> u32 \<Rightarrow> u32 \<Rightarrow> memory" where
  "memset_dword m s c n = fst (rep_stosl m c s (unat n))"

section \<open>memcpy and memmove\<close>

fun memcpy_top :: "memory \<Rightarrow> u32 \<Rightarrow> u32 \<Rightarrow> nat \<Rightarrow> memory \<times> u32 \<times> u32 \<times> nat" where
  "memcpy_top m edi esi 0 = (m, edi, esi, 0)"
| "memcpy_top m edi esi (Suc ecx) =
     (if edi AND 3 = 0 then (m, edi, esi, Suc ecx)
      else memcpy_top (m(edi := m esi)) (edi + 1) (esi + 1) ecx)"

text \<open>\<open>movsl\<close> reads four bytes and then writes them.\<close>

definition movsl :: "memory \<Rightarrow> u32 \<Rightarrow> u32 \<Rightarrow> memory" where
  "movsl m edi esi = m(edi := m esi, edi + 1 := m (esi + 1),
     edi + 2 := m (esi + 2), edi + 3 := m (esi + 3))"

fun rep_movsl :: "memory \<Rightarrow> u32 \<Rightarrow> u32 \<Rightarrow> nat \<Rightarrow> memory \<times> u32 \<times> u32" where
  "rep_movsl m edi esi 0 = (m, edi, esi)"
| "rep_movsl m edi esi (Suc ecx) = rep_movsl (movsl m edi esi) (edi + 4) (esi + 4) ecx"

fun memcpy_bottom :: "memory \<Rightarrow> u32 \<Rightarrow> u32 \<Rightarrow> nat \<Rightarrow> memory" where
  "memcpy_bottom m edi esi 0 = m"
| "memcpy_bottom m edi esi (Suc edx) = memcpy_bottom (m(edi := m esi)) (edi + 1) (esi + 1) edx"

definition memcpy :: "memory \<Rightarrow> u32 \<Rightarrow> u32 \<Rightarrow> u32 \<Rightarrow> memory" where
  "memcpy m dest src n =
     (let (m1, edi, esi, ecx) = memcpy_top m dest src (unat n)
      in if ecx = 0 then m1
         else let edx = ecx mod 4; (m2, edi2, esi2) = rep_movsl m1 edi esi (ecx div 4)
              in memcpy_bottom m2 edi2 esi2 edx)"

text \<open>
  \<open>rep movsb\<close> moves up or, with the direction flag set, down. \<open>memmove\<close> returns with the flag as
  its branch left it (no \<open>cld\<close> follows the \<open>std\<close>); the flag is the second component.
\<close>

fun rep_movsb :: "bool \<Rightarrow> memory \<Rightarrow> u32 \<Rightarrow> u32 \<Rightarrow> nat \<Rightarrow> memory" where
  "rep_movsb df m edi esi 0 = m"
| "rep_movsb df m edi esi (Suc ecx) =
     (if df then rep_movsb df (m(edi := m esi)) (edi - 1) (esi - 1) ecx
      else rep_movsb df (m(edi := m esi)) (edi + 1) (esi + 1) ecx)"

definition memmove :: "memory \<Rightarrow> u32 \<Rightarrow> u32 \<Rightarrow> u32 \<Rightarrow> memory \<times> bool" where
  "memmove m dest src n =
     (if src \<ge> dest then (rep_movsb False m dest src (unat n), False)
      else (rep_movsb True m (dest + n - 1) (src + n - 1) (unat n), True))"

section \<open>Address ranges\<close>

lemma in_range_0 [simp]: "\<not> in_range a 0 x"
  by (simp add: in_range_def)

lemma in_range_add:
  assumes "k + n \<le> 2 ^ 32"
  shows "in_range a (k + n) x \<longleftrightarrow> in_range a k x \<or> in_range (a + of_nat k) n x"
proof (cases "n = 0 \<or> k = 2 ^ 32")
  case True
  then show ?thesis using assms by auto
next
  case False
  then have k: "k < 2 ^ 32" using assms by auto
  then have uk: "unat (of_nat k :: u32) = k" by (rule unat_of_nat32)
  have "unat (x - (a + of_nat k)) = unat ((x - a) - of_nat k)"
    by (simp add: algebra_simps)
  also have "\<dots> = (if k \<le> unat (x - a) then unat (x - a) - k else unat (x - a) + 2 ^ 32 - k)"
    by (simp add: unat_sub_if' uk)
  finally show ?thesis
    using assms unat_lt32[of "x - a"] by (auto simp: in_range_def split: if_splits)
qed

lemma in_range_1 [simp]: "in_range a (Suc 0) x \<longleftrightarrow> x = a"
  by (auto simp: in_range_def unat_eq_zero)

lemma in_range_Suc:
  "Suc n \<le> 2 ^ 32 \<Longrightarrow> in_range a (Suc n) x \<longleftrightarrow> x = a \<or> in_range (a + 1) n x"
  using in_range_add[of 1 n a x] by simp

lemma in_range_last:
  "Suc n \<le> 2 ^ 32 \<Longrightarrow> in_range a (Suc n) x \<longleftrightarrow> in_range a n x \<or> x = a + of_nat n"
  using in_range_add[of n 1 a x] by simp

lemma in_range_4: "in_range a 4 x \<longleftrightarrow> x = a \<or> x = a + 1 \<or> x = a + 2 \<or> x = a + 3"
proof -
  have "in_range a 4 x \<longleftrightarrow> in_range a (Suc (Suc (Suc (Suc 0)))) x" by (simp add: numeral_eq_Suc)
  then show ?thesis by (simp add: in_range_Suc add.assoc)
qed

section \<open>Block fill\<close>

definition fill :: "memory \<Rightarrow> u32 \<Rightarrow> nat \<Rightarrow> u8 \<Rightarrow> memory" where
  "fill m a n b = (\<lambda>x. if in_range a n x then b else m x)"

lemma fill_0 [simp]: "fill m a 0 b = m"
  by (simp add: fill_def)

lemma fill_append:
  "k + n \<le> 2 ^ 32 \<Longrightarrow> fill (fill m a k b) (a + of_nat k) n b = fill m a (k + n) b"
  by (rule ext) (auto simp: fill_def in_range_add)

lemma fill_one: "m(a := b) = fill m a 1 b"
  by (rule ext) (simp add: fill_def)

lemma memset_bottom_eq: "n \<le> 2 ^ 32 \<Longrightarrow> memset_bottom m b a n = fill m a n b"
proof (induction n arbitrary: m a)
  case 0
  then show ?case by simp
next
  case (Suc n)
  then show ?case using fill_append[of 1 n m a b] by (simp add: fill_one)
qed

lemma memset_top_eq:
  assumes "n \<le> 2 ^ 32"
  obtains k where "k \<le> n" "memset_top m b a n = (fill m a k b, a + of_nat k, n - k)"
proof -
  have "\<exists>k\<le>n. memset_top m b a n = (fill m a k b, a + of_nat k, n - k)"
    using assms
  proof (induction n arbitrary: m a)
    case 0
    then show ?case by simp
  next
    case (Suc n)
    show ?case
    proof (cases "a AND 3 = 0")
      case True
      then show ?thesis by (intro exI[of _ 0]) simp
    next
      case False
      from Suc.IH[of "fill m a 1 b" "a + 1"] Suc.prems obtain k where
        "k \<le> n" "memset_top (fill m a 1 b) b (a + 1) n =
          (fill (fill m a 1 b) (a + 1) k b, a + 1 + of_nat k, n - k)" by auto
      with False Suc.prems show ?thesis
        using fill_append[of 1 k m a b]
        by (intro exI[of _ "Suc k"]) (simp add: fill_one add.assoc)
    qed
  qed
  with that show ?thesis by blast
qed

lemma store32_fill:
  assumes "ucast w = b" "ucast (drop_bit 8 w) = b" "ucast (drop_bit 16 w) = b"
    "ucast (drop_bit 24 w) = b"
  shows "store32 m a w = fill m a 4 b"
  using assms by (intro ext) (auto simp: store32_def fill_def in_range_4)

lemma rep_stosl_fill:
  assumes "ucast w = b" "ucast (drop_bit 8 w) = b" "ucast (drop_bit 16 w) = b"
    "ucast (drop_bit 24 w) = b" and "4 * n \<le> 2 ^ 32"
  shows "rep_stosl m w a n = (fill m a (4 * n) b, a + of_nat (4 * n))"
  using assms(5)
proof (induction n arbitrary: m a)
  case 0
  then show ?case by simp
next
  case (Suc n)
  then show ?case
    using fill_append[of 4 "4 * n" m a b]
    by (simp add: store32_fill[OF assms(1-4)] algebra_simps)
qed

lemma ucast_drop_bit_iff:
  "ucast (drop_bit k w) = (b :: u8) \<longleftrightarrow> (\<forall>i<8. bit (w :: u32) (k + i) = bit b i)"
  by (auto simp: bit_eq_iff bit_ucast_iff bit_drop_bit_eq dest: bit_imp_le_length)

lemma bit_low_byte: "bit (c AND 0xFF :: u32) i \<longleftrightarrow> i < 8 \<and> bit c i"
proof -
  have "(0xFF :: u32) = mask 8" by (simp add: mask_eq_exp_minus_1)
  then have "c AND 0xFF = take_bit 8 c" by (simp only: take_bit_eq_mask)
  then show ?thesis by (simp only: bit_take_bit_iff)
qed

lemma spread_bits:
  fixes l :: u32
  assumes l: "\<And>i. bit l i \<longleftrightarrow> i < 8 \<and> bit c i" and i: "i < 8" and k: "k < 4"
  shows "bit (push_bit 24 l OR push_bit 16 l OR push_bit 8 l OR l) (8 * k + i) \<longleftrightarrow> bit c i"
proof -
  consider "k = 0" | "k = 1" | "k = 2" | "k = 3" using k by linarith
  then show ?thesis
    using i by cases (auto simp: bit_or_iff bit_push_bit_iff l)
qed

lemma byte_spread:
  fixes c :: u32
  defines "w \<equiv> push_bit 24 (c AND 0xFF) OR push_bit 16 (c AND 0xFF) OR push_bit 8 (c AND 0xFF) OR (c AND 0xFF)"
  shows "ucast w = (ucast c :: u8)" "ucast (drop_bit 8 w) = (ucast c :: u8)"
    "ucast (drop_bit 16 w) = (ucast c :: u8)" "ucast (drop_bit 24 w) = (ucast c :: u8)"
proof -
  have w: "bit w (8 * k + i) \<longleftrightarrow> bit c i" if "i < 8" "k < 4" for i k
    unfolding w_def by (rule spread_bits[OF bit_low_byte that])
  have b: "bit (ucast c :: u8) i \<longleftrightarrow> bit c i" if "i < 8" for i
    using that by (simp add: bit_ucast_iff)
  show "ucast w = (ucast c :: u8)"
    using ucast_drop_bit_iff[of 0 w "ucast c"] w[of _ 0] b by simp
  show "ucast (drop_bit 8 w) = (ucast c :: u8)"
    using ucast_drop_bit_iff[of 8 w "ucast c"] w[of _ 1] b by simp
  show "ucast (drop_bit 16 w) = (ucast c :: u8)"
    using ucast_drop_bit_iff[of 16 w "ucast c"] w[of _ 2] b by simp
  show "ucast (drop_bit 24 w) = (ucast c :: u8)"
    using ucast_drop_bit_iff[of 24 w "ucast c"] w[of _ 3] b by simp
qed

lemma memset_eq_fill: "memset m s c n = fill m s (unat n) (ucast c)"
proof -
  let ?w = "push_bit 24 (c AND 0xFF) OR push_bit 16 (c AND 0xFF) OR push_bit 8 (c AND 0xFF) OR (c AND 0xFF)"
  let ?b = "ucast c :: u8"
  have n: "unat n \<le> 2 ^ 32" using unat_lt32[of n] by simp
  obtain k where k: "k \<le> unat n"
    and top: "memset_top m ?b s (unat n) = (fill m s k ?b, s + of_nat k, unat n - k)"
    by (rule memset_top_eq[OF n])
  let ?e = "unat n - k"
  have e: "4 * (?e div 4) + ?e mod 4 = ?e" by simp
  have "rep_stosl (fill m s k ?b) ?w (s + of_nat k) (?e div 4) =
    (fill (fill m s k ?b) (s + of_nat k) (4 * (?e div 4)) ?b, s + of_nat k + of_nat (4 * (?e div 4)))"
    using n by (intro rep_stosl_fill byte_spread) linarith
  moreover have "fill (fill m s k ?b) (s + of_nat k) j ?b = fill m s (k + j) ?b"
    if "j \<le> ?e" for j using that n k by (intro fill_append) linarith
  ultimately show ?thesis
    unfolding memset_def Let_def byte_spread(1) top
    using e k n fill_append[of "k + 4 * (?e div 4)" "?e mod 4" m s ?b]
    by (auto simp: memset_bottom_eq algebra_simps)
qed

section \<open>Block copy\<close>

text \<open>The memory after \<open>n\<close> bytes from \<open>s\<close> on were copied, all read first, to \<open>d\<close> on.\<close>

definition blit :: "memory \<Rightarrow> u32 \<Rightarrow> u32 \<Rightarrow> nat \<Rightarrow> memory" where
  "blit m d s n = (\<lambda>x. if in_range d n x then m (s + (x - d)) else m x)"

text \<open>Copying upwards never reads a byte it has already overwritten.\<close>

definition upward_ok :: "u32 \<Rightarrow> u32 \<Rightarrow> nat \<Rightarrow> bool" where
  "upward_ok d s n \<longleftrightarrow> d = s \<or> n \<le> unat (d - s)"

lemma blit_0 [simp]: "blit m d s 0 = m"
  by (simp add: blit_def)

lemma blit_one: "m(d := m s) = blit m d s 1"
  by (rule ext) (simp add: blit_def)

lemma movsl_blit: "movsl m d s = blit m d s 4"
proof (rule ext)
  fix x
  have "d + 1 \<noteq> d" "d + 2 \<noteq> d" "d + 3 \<noteq> d" "d + 2 \<noteq> d + 1" "d + 3 \<noteq> d + 1" "d + 3 \<noteq> d + 2"
    by simp_all
  then show "movsl m d s x = blit m d s 4 x"
    unfolding movsl_def blit_def in_range_4 fun_upd_apply by auto
qed

lemma upward_ok_mono: "upward_ok d s n \<Longrightarrow> k \<le> n \<Longrightarrow> upward_ok d s k"
  by (auto simp: upward_ok_def)

lemma upward_ok_shift: "upward_ok d s n \<Longrightarrow> upward_ok (d + j) (s + j) n"
  by (simp add: upward_ok_def)

lemma blit_append:
  assumes "k + n \<le> 2 ^ 32" and up: "upward_ok d s (k + n)"
  shows "blit (blit m d s k) (d + of_nat k) (s + of_nat k) n = blit m d s (k + n)"
proof (cases "d = s")
  case True
  then show ?thesis by (intro ext) (auto simp: blit_def)
next
  case False
  then have far: "k + n \<le> unat (d - s)" using up by (simp add: upward_ok_def)
  have unread: "\<not> in_range d k (s + of_nat i)" if i: "i < k + n" "k \<le> i" for i
  proof -
    have ui: "unat (of_nat i :: u32) = i" using i assms(1) by (intro unat_of_nat32) linarith
    have "s + of_nat i - d = of_nat i - (d - s)" by simp
    then have "unat (s + of_nat i - d) = unat (of_nat i - (d - s))" by (rule arg_cong)
    also have "\<dots> = i + 2 ^ 32 - unat (d - s)"
      using far i by (simp add: unat_sub_if' ui)
    finally have "unat (s + of_nat i - d) = i + 2 ^ 32 - unat (d - s)" .
    then show ?thesis
      using i unat_lt32[of "d - s"] unfolding in_range_def by linarith
  qed
  show ?thesis
  proof (rule ext)
    fix x
    show "blit (blit m d s k) (d + of_nat k) (s + of_nat k) n x = blit m d s (k + n) x"
    proof (cases "in_range (d + of_nat k) n x")
      case True
      then obtain i where i: "i < n" "x = d + of_nat k + of_nat i"
        using in_range_iff[of n] assms(1) by auto
      then have "s + (x - d) = s + of_nat (k + i)" by simp
      then have "\<not> in_range d k (s + (x - d))" using unread[of "k + i"] i(1) by simp
      with True show ?thesis using assms(1) by (simp add: blit_def in_range_add algebra_simps)
    next
      case False
      then show ?thesis using assms(1) by (simp add: blit_def in_range_add)
    qed
  qed
qed

lemma memcpy_bottom_eq:
  "n \<le> 2 ^ 32 \<Longrightarrow> upward_ok d s n \<Longrightarrow> memcpy_bottom m d s n = blit m d s n"
proof (induction n arbitrary: m d s)
  case 0
  then show ?case by simp
next
  case (Suc n)
  then show ?case
    using blit_append[of 1 n d s m] upward_ok_mono[of d s "Suc n" n] upward_ok_shift[of d s n 1]
    by (simp add: blit_one)
qed

lemma rep_movsl_eq:
  "4 * n \<le> 2 ^ 32 \<Longrightarrow> upward_ok d s (4 * n) \<Longrightarrow>
     rep_movsl m d s n = (blit m d s (4 * n), d + of_nat (4 * n), s + of_nat (4 * n))"
proof (induction n arbitrary: m d s)
  case 0
  then show ?case by simp
next
  case (Suc n)
  have "upward_ok (d + 4) (s + 4) (4 * n)"
    using Suc.prems by (intro upward_ok_shift) (auto elim: upward_ok_mono)
  with Suc show ?case
    using blit_append[of 4 "4 * n" d s m] by (simp add: movsl_blit algebra_simps)
qed

lemma memcpy_top_eq:
  assumes "n \<le> 2 ^ 32" and "upward_ok d s n"
  shows "\<exists>k\<le>n. memcpy_top m d s n = (blit m d s k, d + of_nat k, s + of_nat k, n - k)"
  using assms
proof (induction n arbitrary: m d s)
  case 0
  then show ?case by simp
next
  case (Suc n)
  show ?case
  proof (cases "d AND 3 = 0")
    case True
    then show ?thesis by (intro exI[of _ 0]) simp
  next
    case False
    have "upward_ok (d + 1) (s + 1) n"
      using Suc.prems(2) by (intro upward_ok_shift) (auto elim: upward_ok_mono)
    with Suc.IH[of "d + 1" "s + 1" "blit m d s 1"] Suc.prems obtain k where k: "k \<le> n"
      and top: "memcpy_top (blit m d s 1) (d + 1) (s + 1) n =
        (blit (blit m d s 1) (d + 1) (s + 1) k, d + 1 + of_nat k, s + 1 + of_nat k, n - k)"
      by auto
    have "blit (blit m d s 1) (d + of_nat 1) (s + of_nat 1) k = blit m d s (1 + k)"
      using Suc.prems k by (intro blit_append) (auto elim: upward_ok_mono)
    with top k False show ?thesis
      by (intro exI[of _ "Suc k"]) (simp add: blit_one add.assoc)
  qed
qed

lemma memcpy_eq_blit:
  assumes up: "upward_ok dest src (unat n)"
  shows "memcpy m dest src n = blit m dest src (unat n)"
proof -
  have n: "unat n \<le> 2 ^ 32" using unat_lt32[of n] by simp
  obtain k where k: "k \<le> unat n" and top: "memcpy_top m dest src (unat n) =
      (blit m dest src k, dest + of_nat k, src + of_nat k, unat n - k)"
    using memcpy_top_eq[OF n up] by blast
  let ?e = "unat n - k" and ?d = "dest + of_nat k" and ?s = "src + of_nat k"
  have upk: "upward_ok (dest + j) (src + j) i" if "i \<le> unat n" for i j
    using upward_ok_shift[OF upward_ok_mono[OF up that]] .
  have app: "blit (blit m dest src i) (dest + of_nat i) (src + of_nat i) j = blit m dest src (i + j)"
    if "i + j \<le> unat n" for i j
    using that n upward_ok_mono[OF up that] by (intro blit_append) linarith+
  have "rep_movsl (blit m dest src k) ?d ?s (?e div 4) =
      (blit (blit m dest src k) ?d ?s (4 * (?e div 4)),
       ?d + of_nat (4 * (?e div 4)), ?s + of_nat (4 * (?e div 4)))"
    using n by (intro rep_movsl_eq upk) linarith+
  moreover have "memcpy_bottom m' (dest + j) (src + j) (?e mod 4) =
      blit m' (dest + j) (src + j) (?e mod 4)" for m' j
  proof -
    have "?e mod 4 \<le> unat n" by (meson diff_le_self le_trans mod_less_eq_dividend)
    then show ?thesis using n by (intro memcpy_bottom_eq upk) linarith+
  qed
  ultimately show ?thesis
    unfolding memcpy_def Let_def top
    using k app[of k "4 * (?e div 4)"] app[of "k + 4 * (?e div 4)" "?e mod 4"]
    by (auto simp: add.assoc)
qed

lemma rep_movsb_up:
  "n \<le> 2 ^ 32 \<Longrightarrow> upward_ok d s n \<Longrightarrow> rep_movsb False m d s n = blit m d s n"
proof -
  have "rep_movsb False m d s n = memcpy_bottom m d s n" for m d s
    by (induction n arbitrary: m d s) simp_all
  then show "n \<le> 2 ^ 32 \<Longrightarrow> upward_ok d s n \<Longrightarrow> rep_movsb False m d s n = blit m d s n"
    by (simp add: memcpy_bottom_eq)
qed

lemma rep_movsb_down:
  assumes less: "unat s < unat d" and "unat d + n \<le> 2 ^ 32"
  shows "rep_movsb True m (d + of_nat n - 1) (s + of_nat n - 1) n = blit m d s n"
  using assms(2)
proof (induction n arbitrary: m)
  case 0
  then show ?case by simp
next
  case (Suc n)
  have n: "n < 2 ^ 32" using Suc.prems by linarith
  let ?m = "m(d + of_nat n := m (s + of_nat n))"
  have un: "unat (of_nat i :: u32) = i" if "i \<le> n" for i
    using that n by (intro unat_of_nat32) linarith
  have fresh: "s + of_nat i \<noteq> d + of_nat n" if "i < n" for i
  proof -
    have "unat (s + of_nat i) = unat s + i" "unat (d + of_nat n) = unat d + n"
      using that Suc.prems less by (simp_all add: unat_plus_if' un)
    with that less show ?thesis by (metis add_less_mono order_less_irrefl)
  qed
  have "blit ?m d s n x = blit m d s (Suc n) x" for x
  proof (cases "in_range d n x")
    case True
    then obtain i where i: "i < n" "x = d + of_nat i" using in_range_iff[of n] n by auto
    have "in_range d (Suc n) x" using True by (simp add: in_range_def)
    with True i fresh[of i] show ?thesis by (simp add: blit_def)
  next
    case False
    then show ?thesis using n by (auto simp: blit_def in_range_last)
  qed
  moreover have "rep_movsb True ?m (d + of_nat n - 1) (s + of_nat n - 1) n = blit ?m d s n"
    using Suc.prems by (intro Suc.IH) simp
  ultimately show ?case by (auto simp: algebra_simps)
qed

lemma memmove_eq_blit:
  assumes "unat dest + unat n \<le> 2 ^ 32" and "unat src + unat n \<le> 2 ^ 32"
  shows "memmove m dest src n = (blit m dest src (unat n), src < dest)"
proof (cases "src \<ge> dest")
  case True
  have "upward_ok dest src (unat n)"
  proof (cases "dest = src")
    case False
    then have lt: "unat dest < unat src" using True
      by (metis le_neq_implies_less unat_mono word_le_nat_alt word_less_nat_alt word_unat_eq_iff)
    then have "unat (dest - src) = unat dest + 2 ^ 32 - unat src"
      by (simp add: unat_sub_if')
    then show ?thesis using assms lt unfolding upward_ok_def by linarith
  qed (simp add: upward_ok_def)
  with True assms show ?thesis
    by (simp add: memmove_def rep_movsb_up not_less)
next
  case False
  then have "unat src < unat dest" by (simp add: word_le_nat_alt)
  then show ?thesis
    using False assms rep_movsb_down[of src dest "unat n" m] by (simp add: memmove_def not_le)
qed

text \<open>Reading back a copied block: the block of the source before the copy.\<close>

lemma blit_read:
  assumes "i < n" and "n \<le> 2 ^ 32"
  shows "blit m d s n (d + of_nat i) = m (s + of_nat i)"
proof -
  have "in_range d n (d + of_nat i)" using assms in_range_iff by auto
  then show ?thesis by (simp add: blit_def)
qed

lemma blit_mem_bytes: "n \<le> 2 ^ 32 \<Longrightarrow> mem_bytes (blit m d s n) d n = mem_bytes m s n"
  by (simp add: mem_bytes_def blit_read)

lemma blit_outside: "\<not> in_range d n x \<Longrightarrow> blit m d s n x = m x"
  by (simp add: blit_def)

lemma blit_changed: "blit m d s n x \<noteq> m x \<Longrightarrow> in_range d n x"
  using blit_outside by blast

section \<open>Properties\<close>

text \<open>
  \<open>memset\<close>, which fills unaligned bytes, then words, then the remaining bytes, sets exactly the
  \<open>n\<close> bytes from \<open>s\<close> on to the low byte of \<open>c\<close>.
\<close>

lemma memset_fills: "memset m s c n = fill m s (unat n) (ucast c)"
  by (rule memset_eq_fill)

text \<open>
  \<open>memmove\<close> of two regions that do not wrap around the address space leaves the old source bytes
  in the destination however the regions overlap, and changes no byte outside the destination; the
  direction flag stays set whenever it copied downward.
\<close>

lemma memmove_moves:
  assumes "unat dest + unat n \<le> 2 ^ 32" and "unat src + unat n \<le> 2 ^ 32"
  shows "mem_bytes (fst (memmove m dest src n)) dest (unat n) = mem_bytes m src (unat n) \<and>
    (\<forall>x. in_range dest (unat n) x \<or> fst (memmove m dest src n) x = m x) \<and>
    snd (memmove m dest src n) = (src < dest)"
  using assms by (auto simp: memmove_eq_blit blit_mem_bytes intro: blit_changed)

lemma memmove_moves_witness:
  "mem_bytes (fst (memmove (\<lambda>a. ucast a) 17 16 3)) 17 3 = [16, 17, 18] \<and> snd (memmove (\<lambda>a. ucast a) 17 16 3)"
  using memmove_moves[of 17 3 16 "\<lambda>a. ucast a"] by (simp add: mem_bytes_def upt_rec)

text \<open>
  \<open>memcpy\<close> leaves the source bytes in the destination and nothing else changed when the
  destination does not start inside the source region.
\<close>

lemma memcpy_copies:
  assumes "upward_ok dest src (unat n)"
  shows "mem_bytes (memcpy m dest src n) dest (unat n) = mem_bytes m src (unat n) \<and>
    (\<forall>x. in_range dest (unat n) x \<or> memcpy m dest src n x = m x)"
  using assms unsigned_less[of n, where 'a = nat] by (auto simp: memcpy_eq_blit blit_mem_bytes intro: blit_changed)

end
