(* ===== verification/Console.thy ===== *)
theory Console
  imports Lib_String Lib_Mem
begin

text \<open>
  The text console of \<open>lib.c\<close>: the cursor \<open>screen_x\<close>, \<open>screen_y\<close>, the character cells at
  \<open>VIDEO\<close> (a character byte and an attribute byte each, row by row), and the routines that write
  them: \<open>clear\<close>, \<open>putc\<close>, \<open>puts\<close>, \<open>printf\<close>, \<open>pressed_enter\<close> (scroll), \<open>set_cursor\<close>, \<open>move_back\<close>,
  \<open>update_cursor\<close>, and the copies between the screen and a character buffer. The cursor is kept as
  unbounded integers; C's \<open>int\<close> would only differ after two thousand million newlines.
\<close>

section \<open>State and definitions\<close>

record console = machine +
  screen_x :: int
  screen_y :: int

abbreviation "VIDEO \<equiv> (0xB8000 :: u32)"
abbreviation "NUM_COLS \<equiv> (80 :: int)"
abbreviation "NUM_ROWS \<equiv> (25 :: int)"
abbreviation "ATTRIB \<equiv> (7 :: u8)"
abbreviation "SPACE \<equiv> (32 :: u8)"

text \<open>\<open>video_mem + off\<close>, and the offset of the cell under the cursor.\<close>

definition vid :: "int \<Rightarrow> u32" where
  "vid off = VIDEO + word_of_int off"

definition cell_off :: "int \<Rightarrow> int \<Rightarrow> int" where
  "cell_off x y = 2 * (NUM_COLS * y + x)"

definition update_cursor :: "int \<Rightarrow> int \<Rightarrow> 'a machine_scheme \<Rightarrow> 'a machine_scheme" where
  "update_cursor row col s =
     (let pos = word_of_int (row * NUM_COLS + col) :: u16
      in outb (ucast (drop_bit 8 pos)) 0x3D5 (outb 0x0E 0x3D4
           (outb (ucast pos) 0x3D5 (outb 0x0F 0x3D4 s))))"

definition clear :: "'a console_scheme \<Rightarrow> 'a console_scheme" where
  "clear s =
     update_cursor 0 0 (s\<lparr>mem := fold (\<lambda>i m. m(vid (2 * int i) := SPACE, vid (2 * int i + 1) := ATTRIB))
        [0..<2000] (mem s)\<rparr>)"

definition set_cursor :: "int \<Rightarrow> int \<Rightarrow> 'a console_scheme \<Rightarrow> 'a console_scheme" where
  "set_cursor x y s = update_cursor y x (s\<lparr>screen_x := x, screen_y := y\<rparr>)"

definition get_cursor_x :: "'a console_scheme \<Rightarrow> int" where
  "get_cursor_x s = screen_x s"

definition get_cursor_y :: "'a console_scheme \<Rightarrow> int" where
  "get_cursor_y s = screen_y s"

text \<open>A character and its attribute into the cell under the cursor.\<close>

definition put_cell :: "u8 \<Rightarrow> 'a console_scheme \<Rightarrow> 'a console_scheme" where
  "put_cell c s =
     (let off = cell_off (screen_x s) (screen_y s)
      in poke (vid (off + 1)) ATTRIB (poke (vid off) c s))"

definition putc :: "u8 \<Rightarrow> 'a console_scheme \<Rightarrow> 'a console_scheme" where
  "putc c s =
     (let s' = (if c = 10 \<or> c = 13 then s\<lparr>screen_y := screen_y s + 1, screen_x := 0\<rparr>
                else let s1 = put_cell c s;
                         x = cmod (screen_x s1 + 1) NUM_COLS;
                         y = cmod (screen_y s1 + cdiv x NUM_COLS) NUM_ROWS
                     in s1\<lparr>screen_x := x, screen_y := y\<rparr>)
      in update_cursor (screen_y s') (screen_x s') s')"

fun puts_loop :: "u8 list \<Rightarrow> nat \<Rightarrow> 'a console_scheme \<Rightarrow> (nat \<times> 'a console_scheme) outcome" where
  "puts_loop [] index s = Undef"
| "puts_loop (c # cs) index s =
     (if c \<noteq> 0 then puts_loop cs (Suc index) (putc c s) else Ret (index, s))"

definition puts :: "u8 list \<Rightarrow> 'a console_scheme \<Rightarrow> (nat \<times> 'a console_scheme) outcome" where
  "puts b s = puts_loop b 0 s"

text \<open>
  \<open>printf\<close>'s further arguments: a 32-bit value or a string. Its conversion buffers are
  uninitialised in C; the model starts them as zeros, which nothing reads.
\<close>

datatype printf_arg = Val u32 | Str "u8 list"

definition print_unsigned :: "u32 \<Rightarrow> u32 \<Rightarrow> nat \<Rightarrow> 'a console_scheme \<Rightarrow> 'a console_scheme outcome" where
  "print_unsigned v radix sz s =
     obind (itoa v (replicate sz 0) radix) (\<lambda>b. obind (puts b s) (\<lambda>r. Ret (snd r)))"

definition print_alternate :: "u32 \<Rightarrow> 'a console_scheme \<Rightarrow> 'a console_scheme outcome" where
  "print_alternate v s =
     (let conv_buf = replicate 64 0
      in obind (itoa v (drop 8 conv_buf) 16) (\<lambda>b.
         obind (strlen b) (\<lambda>starting_index.
         obind (buf_store (take 8 conv_buf @ b) starting_index
                  (replicate (8 - starting_index) (of_char CHR ''0''))) (\<lambda>conv.
         obind (puts (drop starting_index conv) s) (\<lambda>r. Ret (snd r))))))"

definition print_signed :: "u32 \<Rightarrow> 'a console_scheme \<Rightarrow> 'a console_scheme outcome" where
  "print_signed v s =
     (let conv_buf = replicate 36 0
      in obind (if sint v < 0
                then obind (buf_set conv_buf 0 (of_char CHR ''-'')) (\<lambda>b.
                     obind (itoa (- v) (drop 1 b) 10) (\<lambda>b'. Ret (take 1 b @ b')))
                else itoa v conv_buf 10) (\<lambda>b.
         obind (puts b s) (\<lambda>r. Ret (snd r))))"

definition next_val :: "printf_arg list \<Rightarrow> (u32 \<times> printf_arg list) outcome" where
  "next_val args = (case args of Val v # rest \<Rightarrow> Ret (v, rest) | _ \<Rightarrow> Undef)"

definition next_str :: "printf_arg list \<Rightarrow> (u8 list \<times> printf_arg list) outcome" where
  "next_str args = (case args of Str b # rest \<Rightarrow> Ret (b, rest) | _ \<Rightarrow> Undef)"

text \<open>
  The format loop. \<open>n\<close> counts the format bytes passed. An unknown conversion, or a format that
  ends after \<open>%\<close>, is skipped with its character, a NUL included.
\<close>

fun printf_loop :: "u8 list \<Rightarrow> printf_arg list \<Rightarrow> nat \<Rightarrow> 'a console_scheme \<Rightarrow> (nat \<times> 'a console_scheme) outcome"
  and printf_conv :: "bool \<Rightarrow> u8 list \<Rightarrow> printf_arg list \<Rightarrow> nat \<Rightarrow> 'a console_scheme \<Rightarrow> (nat \<times> 'a console_scheme) outcome"
where
  "printf_loop [] args n s = Undef"
| "printf_loop (c # cs) args n s =
     (if c = 0 then Ret (n, s)
      else if c = of_char CHR ''%'' then printf_conv False cs args (Suc n) s
      else printf_loop cs args (Suc n) (putc c s))"
| "printf_conv alternate [] args n s = Undef"
| "printf_conv alternate (c # cs) args n s =
     (if c = of_char CHR ''%'' then printf_loop cs args (Suc n) (putc (of_char CHR ''%'') s)
      else if c = of_char CHR ''#'' then printf_conv True cs args (Suc n) s
      else if c = of_char CHR ''x'' then
        obind (next_val args) (\<lambda>(v, rest).
        obind (if alternate then print_alternate v s else print_unsigned v 16 64 s) (\<lambda>s'.
        printf_loop cs rest (Suc n) s'))
      else if c = of_char CHR ''u'' then
        obind (next_val args) (\<lambda>(v, rest).
        obind (print_unsigned v 10 36 s) (\<lambda>s'. printf_loop cs rest (Suc n) s'))
      else if c = of_char CHR ''d'' then
        obind (next_val args) (\<lambda>(v, rest).
        obind (print_signed v s) (\<lambda>s'. printf_loop cs rest (Suc n) s'))
      else if c = of_char CHR ''c'' then
        obind (next_val args) (\<lambda>(v, rest). printf_loop cs rest (Suc n) (putc (ucast v) s))
      else if c = of_char CHR ''s'' then
        obind (next_str args) (\<lambda>(b, rest).
        obind (puts b s) (\<lambda>r. printf_loop cs rest (Suc n) (snd r)))
      else printf_loop cs args (Suc n) s)"

definition printf :: "u8 list \<Rightarrow> printf_arg list \<Rightarrow> 'a console_scheme \<Rightarrow> (nat \<times> 'a console_scheme) outcome" where
  "printf format args s = printf_loop format args 0 s"

text \<open>
  \<open>pressed_enter\<close> scrolls up by one row. Its second loop has no braces: only the blank is inside
  it, and one attribute byte is written after the loop, at \<open>i = 2000\<close>.
\<close>

definition pressed_enter :: "'a console_scheme \<Rightarrow> 'a console_scheme" where
  "pressed_enter s =
     (let m1 = fold (\<lambda>i m. m(vid (2 * int i) := m (vid (2 * (int i + 80))), vid (2 * int i + 1) := ATTRIB))
                 [0..<1920] (mem s);
          m2 = fold (\<lambda>i m. m(vid (2 * int i) := SPACE)) [1920..<2000] m1
      in s\<lparr>mem := m2(vid (2 * 2000 + 1) := ATTRIB)\<rparr>)"

definition move_back :: "'a console_scheme \<Rightarrow> 'a console_scheme" where
  "move_back s =
     (let s' = (if screen_x s > 0 then s\<lparr>screen_x := screen_x s - 1\<rparr>
                else s\<lparr>screen_y := screen_y s - 1, screen_x := NUM_COLS - 1\<rparr>);
          s'' = put_cell SPACE s'
      in update_cursor (screen_y s'') (screen_x s'') s'')"

definition copy_buffer_to_video :: "u32 \<Rightarrow> 'a console_scheme \<Rightarrow> 'a console_scheme" where
  "copy_buffer_to_video src s =
     s\<lparr>mem := fold (\<lambda>i m. m(vid (2 * int i) := m (src + of_nat i), vid (2 * int i + 1) := ATTRIB))
        [0..<2000] (mem s)\<rparr>"

definition copy_video_to_buffer :: "u32 \<Rightarrow> 'a console_scheme \<Rightarrow> 'a console_scheme" where
  "copy_video_to_buffer dst s =
     s\<lparr>mem := fold (\<lambda>i m. m(dst + of_nat i := m (vid (2 * int i)))) [0..<2000] (mem s)\<rparr>"

definition test_interrupts :: "'a console_scheme \<Rightarrow> 'a console_scheme" where
  "test_interrupts s =
     s\<lparr>mem := fold (\<lambda>i m. m(vid (2 * int i) := m (vid (2 * int i)) + 1)) [0..<2000] (mem s)\<rparr>"

section \<open>Store loops\<close>

text \<open>
  A loop that stores a value, or a value and a constant, per iteration, at addresses that do not
  collide. The value may be read from memory, as long as no earlier iteration overwrote what it
  reads.
\<close>

lemma pair_loop:
  fixes f g :: "nat \<Rightarrow> u32" and d :: u8
  assumes dist: "\<And>i j. a \<le> i \<Longrightarrow> i < b \<Longrightarrow> a \<le> j \<Longrightarrow> j < b \<Longrightarrow> f i \<noteq> g j \<and> (f i = f j \<longrightarrow> i = j) \<and> (g i = g j \<longrightarrow> i = j)"
    and val: "\<forall>i m'. a \<le> i \<and> i < b \<and>
      (\<forall>x. (\<forall>j. a \<le> j \<and> j < i \<longrightarrow> x \<noteq> f j \<and> x \<noteq> g j) \<longrightarrow> m' x = m x) \<longrightarrow> c i m' = v i"
  defines "R \<equiv> fold (\<lambda>i m. m(f i := c i m, g i := d)) [a..<b] m"
  shows "(\<forall>i. a \<le> i \<and> i < b \<longrightarrow> R (f i) = v i \<and> R (g i) = d) \<and>
    (\<forall>x. (\<forall>i. a \<le> i \<and> i < b \<longrightarrow> x \<noteq> f i \<and> x \<noteq> g i) \<longrightarrow> R x = m x)"
proof -
  define P where "P n = fold (\<lambda>i m. m(f i := c i m, g i := d)) [a..<n] m" for n
  have "(\<forall>i. a \<le> i \<and> i < n \<longrightarrow> P n (f i) = v i \<and> P n (g i) = d) \<and>
    (\<forall>x. (\<forall>i. a \<le> i \<and> i < n \<longrightarrow> x \<noteq> f i \<and> x \<noteq> g i) \<longrightarrow> P n x = m x)" if "n \<le> b" for n
    using that
  proof (induction n)
    case 0
    then show ?case by (simp add: P_def)
  next
    case (Suc n)
    show ?case
    proof (cases "a \<le> n")
      case False
      then have "[a..<Suc n] = []" by simp
      with False show ?thesis by (auto simp: P_def)
    next
      case True
      have step: "P (Suc n) = (P n)(f n := c n (P n), g n := d)"
        using True by (simp add: P_def)
      have cv: "c n (P n) = v n"
        using True Suc by (intro val[rule_format] conjI) auto
      show ?thesis
      proof (intro conjI allI impI)
        fix i assume i: "a \<le> i \<and> i < Suc n"
        then have b: "i < b" "n < b" using Suc.prems by auto
        show "P (Suc n) (f i) = v i"
          using Suc i b True dist[of i n] dist[of n i] cv by (cases "i = n") (auto simp: step)
        show "P (Suc n) (g i) = d"
          using Suc i b True dist[of i n] dist[of n i] by (cases "i = n") (auto simp: step)
      next
        fix x assume "\<forall>i. a \<le> i \<and> i < Suc n \<longrightarrow> x \<noteq> f i \<and> x \<noteq> g i"
        with Suc True show "P (Suc n) x = m x" by (auto simp: step)
      qed
    qed
  qed
  from this[of b] show ?thesis unfolding R_def P_def by blast
qed

lemma single_loop:
  fixes f :: "nat \<Rightarrow> u32"
  assumes dist: "\<And>i j. a \<le> i \<Longrightarrow> i < b \<Longrightarrow> a \<le> j \<Longrightarrow> j < b \<Longrightarrow> f i = f j \<Longrightarrow> i = j"
    and val: "\<forall>i m'. a \<le> i \<and> i < b \<and>
      (\<forall>x. (\<forall>j. a \<le> j \<and> j < i \<longrightarrow> x \<noteq> f j) \<longrightarrow> m' x = m x) \<longrightarrow> c i m' = v i"
  defines "R \<equiv> fold (\<lambda>i m. m(f i := c i m)) [a..<b] m"
  shows "(\<forall>i. a \<le> i \<and> i < b \<longrightarrow> R (f i) = v i) \<and>
    (\<forall>x. (\<forall>i. a \<le> i \<and> i < b \<longrightarrow> x \<noteq> f i) \<longrightarrow> R x = m x)"
proof -
  define P where "P n = fold (\<lambda>i m. m(f i := c i m)) [a..<n] m" for n
  have "(\<forall>i. a \<le> i \<and> i < n \<longrightarrow> P n (f i) = v i) \<and>
    (\<forall>x. (\<forall>i. a \<le> i \<and> i < n \<longrightarrow> x \<noteq> f i) \<longrightarrow> P n x = m x)" if "n \<le> b" for n
    using that
  proof (induction n)
    case 0
    then show ?case by (simp add: P_def)
  next
    case (Suc n)
    show ?case
    proof (cases "a \<le> n")
      case False
      then have "[a..<Suc n] = []" by simp
      with False show ?thesis by (auto simp: P_def)
    next
      case True
      have step: "P (Suc n) = (P n)(f n := c n (P n))" using True by (simp add: P_def)
      have cv: "c n (P n) = v n" using True Suc by (intro val[rule_format] conjI) auto
      show ?thesis
      proof (intro conjI allI impI)
        fix i assume i: "a \<le> i \<and> i < Suc n"
        then have b: "i < b" "n < b" using Suc.prems by auto
        show "P (Suc n) (f i) = v i"
          using Suc i b True dist[of i n] cv by (cases "i = n") (auto simp: step)
      next
        fix x assume "\<forall>i. a \<le> i \<and> i < Suc n \<longrightarrow> x \<noteq> f i"
        with Suc True show "P (Suc n) x = m x" by (auto simp: step)
      qed
    qed
  qed
  from this[of b] show ?thesis unfolding R_def P_def by blast
qed

section \<open>Windows of memory\<close>

text \<open>
  A window of memory addressed by byte offsets, different offsets being different bytes; in it,
  a character loop over cells of two bytes.
\<close>

locale byte_window =
  fixes addr :: "int \<Rightarrow> u32" and size :: int
  assumes addr_eq: "0 \<le> i \<Longrightarrow> i < size \<Longrightarrow> 0 \<le> j \<Longrightarrow> j < size \<Longrightarrow> addr i = addr j \<longleftrightarrow> i = j"
begin

lemma cell_loop:
  fixes d :: u8
  assumes "2 * int b \<le> size"
    and "\<forall>i m'. a \<le> i \<and> i < b \<and>
      (\<forall>x. (\<forall>j. a \<le> j \<and> j < i \<longrightarrow> x \<noteq> addr (2 * int j) \<and> x \<noteq> addr (2 * int j + 1)) \<longrightarrow> m' x = m x) \<longrightarrow>
      c i m' = v i"
  defines "R \<equiv> fold (\<lambda>i m. m(addr (2 * int i) := c i m, addr (2 * int i + 1) := d)) [a..<b] m"
  shows "a \<le> i \<Longrightarrow> i < b \<Longrightarrow> R (addr (2 * int i)) = v i"
    and "a \<le> i \<Longrightarrow> i < b \<Longrightarrow> R (addr (2 * int i + 1)) = d"
    and "(\<And>i. a \<le> i \<Longrightarrow> i < b \<Longrightarrow> x \<noteq> addr (2 * int i) \<and> x \<noteq> addr (2 * int i + 1)) \<Longrightarrow> R x = m x"
proof -
  have "addr (2 * int i) \<noteq> addr (2 * int j + 1) \<and>
      (addr (2 * int i) = addr (2 * int j) \<longrightarrow> i = j) \<and>
      (addr (2 * int i + 1) = addr (2 * int j + 1) \<longrightarrow> i = j)" if "i < b" "j < b" for i j
    using that assms(1) by (auto simp: addr_eq) presburger
  note L = pair_loop[of a b "\<lambda>i. addr (2 * int i)" "\<lambda>i. addr (2 * int i + 1)" m c v d,
      OF this assms(2), folded R_def]
  show "a \<le> i \<Longrightarrow> i < b \<Longrightarrow> R (addr (2 * int i)) = v i"
    "a \<le> i \<Longrightarrow> i < b \<Longrightarrow> R (addr (2 * int i + 1)) = d"
    "(\<And>i. a \<le> i \<Longrightarrow> i < b \<Longrightarrow> x \<noteq> addr (2 * int i) \<and> x \<noteq> addr (2 * int i + 1)) \<Longrightarrow> R x = m x"
    using L by blast+
qed

lemma char_loop:
  assumes "2 * int b \<le> size"
    and "\<forall>i m'. a \<le> i \<and> i < b \<and>
      (\<forall>x. (\<forall>j. a \<le> j \<and> j < i \<longrightarrow> x \<noteq> addr (2 * int j)) \<longrightarrow> m' x = m x) \<longrightarrow> c i m' = v i"
  defines "R \<equiv> fold (\<lambda>i m. m(addr (2 * int i) := c i m)) [a..<b] m"
  shows "a \<le> i \<Longrightarrow> i < b \<Longrightarrow> R (addr (2 * int i)) = v i"
    and "(\<And>i. a \<le> i \<Longrightarrow> i < b \<Longrightarrow> x \<noteq> addr (2 * int i)) \<Longrightarrow> R x = m x"
proof -
  have "i = j" if "i < b" "j < b" "addr (2 * int i) = addr (2 * int j)" for i j
    using that assms(1) by (auto simp: addr_eq)
  note L = single_loop[of a b "\<lambda>i. addr (2 * int i)" m c v, OF this assms(2), folded R_def]
  show "a \<le> i \<Longrightarrow> i < b \<Longrightarrow> R (addr (2 * int i)) = v i"
    "(\<And>i. a \<le> i \<Longrightarrow> i < b \<Longrightarrow> x \<noteq> addr (2 * int i)) \<Longrightarrow> R x = m x"
    using L by blast+
qed

end

lemma vid_eq_iff: "vid a = vid b \<longleftrightarrow> a mod 2 ^ 32 = b mod 2 ^ 32"
  by (simp add: vid_def word_of_int_eq_iff take_bit_eq_mod)

text \<open>The video memory is such a window.\<close>

interpretation video: byte_window vid "2 ^ 32"
  by unfold_locales (simp add: vid_eq_iff)

lemma vid_of_nat: "vid (int i) = VIDEO + of_nat i"
  by (simp add: vid_def)

lemma vid_range: "in_range VIDEO n x \<longleftrightarrow> (\<exists>k. 0 \<le> k \<and> k < int n \<and> x = vid k)" if n: "n \<le> 2 ^ 32"
proof
  assume "in_range VIDEO n x"
  then obtain i where "i < n" "x = vid (int i)"
    using n by (auto simp: in_range_iff vid_of_nat)
  then show "\<exists>k. 0 \<le> k \<and> k < int n \<and> x = vid k" by (intro exI[of _ "int i"]) simp
next
  assume "\<exists>k. 0 \<le> k \<and> k < int n \<and> x = vid k"
  then obtain k where "0 \<le> k" "k < int n" "x = vid k" by blast
  then have "nat k < n" "x = VIDEO + of_nat (nat k)" by (auto simp: vid_def)
  then show "in_range VIDEO n x" using n by (auto simp: in_range_iff)
qed

lemma vid_in_range: "0 \<le> k \<Longrightarrow> k < int n \<Longrightarrow> n \<le> 2 ^ 32 \<Longrightarrow> in_range VIDEO n (vid k)"
  by (auto simp: vid_range)

section \<open>The screen\<close>

text \<open>What the display shows: the characters and the attributes of the 2000 cells, row by row.\<close>

definition chars :: "memory \<Rightarrow> u8 list" where
  "chars m = map (\<lambda>i. m (vid (2 * int i))) [0..<2000]"

definition attrs :: "memory \<Rightarrow> u8 list" where
  "attrs m = map (\<lambda>i. m (vid (2 * int i + 1))) [0..<2000]"

lemma length_chars [simp]: "length (chars m) = 2000"
  by (simp add: chars_def map_replicate_const)

lemma length_attrs [simp]: "length (attrs m) = 2000"
  by (simp add: attrs_def)

lemma nth_chars [simp]: "i < 2000 \<Longrightarrow> chars m ! i = m (vid (2 * int i))"
  by (simp add: chars_def map_replicate_const)

lemma nth_attrs [simp]: "i < 2000 \<Longrightarrow> attrs m ! i = m (vid (2 * int i + 1))"
  by (simp add: attrs_def)

lemma update_cursor_frame [frame_simps, simp]:
  "mem (update_cursor r c s) = mem s"
  "screen_x (update_cursor r c s') = screen_x s'"
  "screen_y (update_cursor r c s') = screen_y s'"
  by (simp_all add: update_cursor_def Let_def outb_def)

lemma clear_screen:
  "chars (mem (clear s)) = replicate 2000 SPACE"
  "attrs (mem (clear s)) = replicate 2000 ATTRIB"
  "\<not> in_range VIDEO 4000 x \<Longrightarrow> mem (clear s) x = mem s x"
proof -
  note L = video.cell_loop[where a = 0 and b = 2000 and m = "mem s" and c = "\<lambda>i m'. SPACE" and v = "\<lambda>i. SPACE" and d = ATTRIB]
  show "chars (mem (clear s)) = replicate 2000 SPACE"
    by (rule nth_equalityI) (auto simp: clear_def intro!: L(1))
  show "attrs (mem (clear s)) = replicate 2000 ATTRIB"
    by (rule nth_equalityI) (auto simp: clear_def intro!: L(2))
  show "\<not> in_range VIDEO 4000 x \<Longrightarrow> mem (clear s) x = mem s x"
    by (simp add: clear_def) (rule L(3), auto simp: vid_range)
qed

text \<open>
  Scrolling: the first 24 rows become the old rows 1 to 24, the last row becomes blank.
\<close>

lemma pressed_enter_loops:
  fixes m :: memory
  defines "m1 \<equiv> fold (\<lambda>i m. m(vid (2 * int i) := m (vid (2 * (int i + 80))), vid (2 * int i + 1) := ATTRIB)) [0..<1920] m"
  defines "m2 \<equiv> fold (\<lambda>i m. m(vid (2 * int i) := SPACE)) [1920..<2000] m1"
  shows "i < 2000 \<Longrightarrow> m2 (vid (2 * int i)) = (if i < 1920 then m (vid (2 * (int i + 80))) else SPACE)"
    and "i < 2000 \<Longrightarrow> m2 (vid (2 * int i + 1)) = (if i < 1920 then ATTRIB else m (vid (2 * int i + 1)))"
    and "(\<forall>k. 0 \<le> k \<and> k < 4000 \<longrightarrow> x \<noteq> vid k) \<Longrightarrow> m2 x = m x"
proof -
  have read: "\<forall>i m'. 0 \<le> i \<and> i < 1920 \<and>
      (\<forall>x. (\<forall>j. 0 \<le> j \<and> j < i \<longrightarrow> x \<noteq> vid (2 * int j) \<and> x \<noteq> vid (2 * int j + 1)) \<longrightarrow> m' x = m x) \<longrightarrow>
      m' (vid (2 * (int i + 80))) = m (vid (2 * (int i + 80)))"
    by (auto simp: vid_eq_iff)
  note A = video.cell_loop[where a = 0 and b = 1920 and m = m and c = "\<lambda>i m'. m' (vid (2 * (int i + 80)))"
      and v = "\<lambda>i. m (vid (2 * (int i + 80)))" and d = ATTRIB, folded m1_def, OF _ read]
  note B = video.char_loop[where a = 1920 and b = 2000 and m = m1 and c = "\<lambda>i m'. SPACE"
      and v = "\<lambda>i. SPACE", folded m2_def]
  show "m2 (vid (2 * int i)) = (if i < 1920 then m (vid (2 * (int i + 80))) else SPACE)" if "i < 2000"
  proof (cases "i < 1920")
    case True
    then have "m2 (vid (2 * int i)) = m1 (vid (2 * int i))" by (intro B(2)) (auto simp: vid_eq_iff)
    with True show ?thesis using A(1)[of i] by simp
  next
    case False
    with that show ?thesis using B(1)[of i] by simp
  qed
  show "m2 (vid (2 * int i + 1)) = (if i < 1920 then ATTRIB else m (vid (2 * int i + 1)))" if i: "i < 2000"
  proof -
    have ne: "vid (2 * int i + 1) \<noteq> vid (2 * int j)" if "j < 2000" for j
      using i that by (auto simp: vid_eq_iff) presburger
    then have "m2 (vid (2 * int i + 1)) = m1 (vid (2 * int i + 1))" by (intro B(2)) auto
    moreover have "m1 (vid (2 * int i + 1)) = m (vid (2 * int i + 1))" if "\<not> i < 1920"
      using that i ne by (intro A(3)) (auto simp: vid_eq_iff)
    ultimately show ?thesis using A(2)[of i] by auto
  qed
  show "m2 x = m x" if x: "\<forall>k. 0 \<le> k \<and> k < 4000 \<longrightarrow> x \<noteq> vid k"
  proof -
    have "m2 x = m1 x" using x by (intro B(2)) auto
    also have "m1 x = m x" using x by (intro A(3)) auto
    finally show ?thesis .
  qed
qed

lemma vid_4001: "0 \<le> k \<Longrightarrow> k < 4000 \<Longrightarrow> vid k \<noteq> vid 4001"
  by (simp add: vid_eq_iff)

lemma pressed_enter_scrolls:
  "chars (mem (pressed_enter s)) = drop 80 (chars (mem s)) @ replicate 80 SPACE"
proof (rule nth_equalityI)
  fix i assume "i < length (chars (mem (pressed_enter s)))"
  then have i: "i < 2000" by simp
  then have "mem (pressed_enter s) (vid (2 * int i)) =
      (if i < 1920 then mem s (vid (2 * (int i + 80))) else SPACE)"
    using pressed_enter_loops(1)[OF i, of "mem s"] vid_4001[of "2 * int i"]
    by (simp add: pressed_enter_def Let_def)
  with i show "chars (mem (pressed_enter s)) ! i = (drop 80 (chars (mem s)) @ replicate 80 SPACE) ! i"
    by (simp add: nth_append add.commute)
qed simp

lemma pressed_enter_attrs:
  "attrs (mem (pressed_enter s)) = replicate 1920 ATTRIB @ drop 1920 (attrs (mem s))"
proof (rule nth_equalityI)
  fix i assume "i < length (attrs (mem (pressed_enter s)))"
  then have i: "i < 2000" by simp
  then have "mem (pressed_enter s) (vid (2 * int i + 1)) =
      (if i < 1920 then ATTRIB else mem s (vid (2 * int i + 1)))"
    using pressed_enter_loops(2)[OF i, of "mem s"] vid_4001[of "2 * int i + 1"]
    by (simp add: pressed_enter_def Let_def)
  with i show "attrs (mem (pressed_enter s)) ! i = (replicate 1920 ATTRIB @ drop 1920 (attrs (mem s))) ! i"
    by (simp add: nth_append)
qed simp

lemma pressed_enter_outside:
  "mem (pressed_enter s) (vid 4001) = ATTRIB"
  "\<not> in_range VIDEO 4000 x \<Longrightarrow> x \<noteq> vid 4001 \<Longrightarrow> mem (pressed_enter s) x = mem s x"
  using pressed_enter_loops(3)[of x "mem s"]
  by (auto simp: pressed_enter_def Let_def vid_range)

lemma pressed_enter_frame [frame_simps, simp]:
  "screen_x (pressed_enter s) = screen_x s" "screen_y (pressed_enter s) = screen_y s"
  "io (pressed_enter s) = io s"
  by (simp_all add: pressed_enter_def Let_def)

section \<open>Characters and strings on the screen\<close>

text \<open>The cursor is on the screen.\<close>

definition on_screen :: "'a console_scheme \<Rightarrow> bool" where
  "on_screen s \<longleftrightarrow> 0 \<le> screen_x s \<and> screen_x s < NUM_COLS \<and> 0 \<le> screen_y s \<and> screen_y s < NUM_ROWS"

definition cursor_cell :: "'a console_scheme \<Rightarrow> nat" where
  "cursor_cell s = nat (NUM_COLS * screen_y s + screen_x s)"

lemma cursor_cell_less: "on_screen s \<Longrightarrow> cursor_cell s < 2000"
  by (auto simp: on_screen_def cursor_cell_def)

lemma cell_off_cursor: "on_screen s \<Longrightarrow> cell_off (screen_x s) (screen_y s) = 2 * int (cursor_cell s)"
  by (auto simp: on_screen_def cursor_cell_def cell_off_def)

lemma put_cell_frame [frame_simps, simp]:
  "screen_x (put_cell c s) = screen_x s" "screen_y (put_cell c s) = screen_y s"
  "io (put_cell c s) = io s"
  by (simp_all add: put_cell_def Let_def poke_def)

lemma vid_cells:
  assumes "i < 2000" "j < 2000"
  shows "vid (2 * int i) \<noteq> vid (2 * int j + 1)" "vid (2 * int i) = vid (2 * int j) \<longleftrightarrow> i = j"
    "vid (2 * int i + 1) = vid (2 * int j + 1) \<longleftrightarrow> i = j"
proof -
  have "2 * int i \<noteq> 2 * int j + 1" by presburger
  with assms show "vid (2 * int i) \<noteq> vid (2 * int j + 1)" "vid (2 * int i) = vid (2 * int j) \<longleftrightarrow> i = j"
    "vid (2 * int i + 1) = vid (2 * int j + 1) \<longleftrightarrow> i = j"
    by (auto simp: vid_eq_iff)
qed

lemma put_cell_chars:
  assumes "on_screen s"
  shows "chars (mem (put_cell c s)) = (chars (mem s))[cursor_cell s := c]"
    "attrs (mem (put_cell c s)) = (attrs (mem s))[cursor_cell s := ATTRIB]"
proof -
  note [simp] = cursor_cell_less[OF assms] vid_cells vid_cells(1)[symmetric]
  show "chars (mem (put_cell c s)) = (chars (mem s))[cursor_cell s := c]"
    by (rule nth_equalityI) (auto simp: put_cell_def Let_def cell_off_cursor[OF assms] nth_list_update)
  show "attrs (mem (put_cell c s)) = (attrs (mem s))[cursor_cell s := ATTRIB]"
    by (rule nth_equalityI) (auto simp: put_cell_def Let_def cell_off_cursor[OF assms] nth_list_update)
qed

lemma put_cell_outside:
  "on_screen s \<Longrightarrow> \<not> in_range VIDEO 4000 x \<Longrightarrow> mem (put_cell c s) x = mem s x"
  using cursor_cell_less[of s] by (auto simp: put_cell_def Let_def cell_off_cursor vid_range)

definition is_newline :: "u8 \<Rightarrow> bool" where
  "is_newline c \<longleftrightarrow> c = 10 \<or> c = 13"

text \<open>
  What \<open>putc\<close> does to a cursor on the screen: a line break goes to the start of the next row,
  which is row 25 on the last row; every other character goes to the right, and from the last
  column to the first of the \<^emph>\<open>same\<close> row, because \<open>screen_x\<close> is reduced before it is divided.
\<close>

lemma putc_newline:
  assumes "is_newline c"
  shows "mem (putc c s) = mem s" "screen_x (putc c s) = 0" "screen_y (putc c s) = screen_y s + 1"
  using assms by (auto simp: putc_def Let_def is_newline_def)

lemma putc_cursor:
  assumes "\<not> is_newline c" "on_screen s"
  shows "screen_x (putc c s) = (if screen_x s = NUM_COLS - 1 then 0 else screen_x s + 1)"
    "screen_y (putc c s) = screen_y s"
proof -
  have "cmod (screen_x s + 1) NUM_COLS = (if screen_x s = NUM_COLS - 1 then 0 else screen_x s + 1)"
    using assms by (simp add: cmod_nonneg on_screen_def)
  then show "screen_x (putc c s) = (if screen_x s = NUM_COLS - 1 then 0 else screen_x s + 1)"
    "screen_y (putc c s) = screen_y s"
    using assms by (auto simp: putc_def Let_def is_newline_def on_screen_def cdiv_nonneg cmod_nonneg)
qed

lemma putc_mem: "\<not> is_newline c \<Longrightarrow> mem (putc c s) = mem (put_cell c s)"
  by (auto simp: putc_def Let_def is_newline_def)

lemma putc_on_screen: "\<not> is_newline c \<Longrightarrow> on_screen s \<Longrightarrow> on_screen (putc c s)"
  using putc_cursor[of c s] by (auto simp: on_screen_def)

lemma puts_loop_run:
  "terminated b \<Longrightarrow> puts_loop b n s = Ret (n + length (cstr b), fold putc (cstr b) s)"
  by (induction b arbitrary: n s) (auto simp: terminated_def cstr_def)

lemma puts_eq: "terminated b \<Longrightarrow> puts b s = Ret (length (cstr b), fold putc (cstr b) s)"
  by (simp add: puts_def puts_loop_run)

text \<open>A line of text printed from inside a row, as long as it fits into the row.\<close>

lemma fold_putc_row:
  assumes "on_screen s" "screen_x s + int (length t) \<le> NUM_COLS" "\<forall>c\<in>set t. \<not> is_newline c"
  shows "chars (mem (fold putc t s)) =
    take (cursor_cell s) (chars (mem s)) @ t @ drop (cursor_cell s + length t) (chars (mem s))"
  using assms
proof (induction t arbitrary: s)
  case Nil
  then show ?case by simp
next
  case (Cons c t)
  have nl: "\<not> is_newline c" using Cons.prems by simp
  have k: "cursor_cell s < 2000" using Cons.prems(1) by (rule cursor_cell_less)
  let ?s = "putc c s"
  show ?case
  proof (cases "t = []")
    case True
    then show ?thesis using nl k Cons.prems(1)
      by (simp add: putc_mem put_cell_chars upd_conv_take_nth_drop)
  next
    case False
    then have "0 < length t" by simp
    with Cons.prems have x: "screen_x ?s = screen_x s + 1" "screen_y ?s = screen_y s"
      using putc_cursor[OF nl Cons.prems(1)] by auto
    then have c1: "cursor_cell ?s = Suc (cursor_cell s)"
      using Cons.prems(1) by (auto simp: cursor_cell_def on_screen_def)
    have "chars (mem (fold putc t ?s)) = take (Suc (cursor_cell s)) (chars (mem ?s)) @ t @
        drop (Suc (cursor_cell s) + length t) (chars (mem ?s))"
      unfolding c1[symmetric] using Cons.prems x putc_on_screen[OF nl Cons.prems(1)]
      by (intro Cons.IH) auto
    then show ?thesis using nl k Cons.prems(1)
      by (simp add: putc_mem put_cell_chars take_Suc_update)
  qed
qed

section \<open>Number conversions\<close>

lemma cstr_append: "0 \<notin> set t \<Longrightarrow> cstr (t @ b) = t @ cstr b"
  by (induction t) (auto simp: cstr_def)

lemma terminated_append: "terminated b \<Longrightarrow> terminated (t @ b)"
  by (simp add: terminated_def)

text \<open>\<open>%#x\<close> prints eight hexadecimal digits, whatever the value.\<close>

lemma print_alternate_digits:
  "\<exists>ds. print_alternate v s = Ret (fold putc (map ((!) lookup) ds) s) \<and> length ds = 8 \<and>
     (\<forall>d\<in>set ds. d < 16) \<and> denote 16 ds = unat v"
proof -
  have "unat v < 16 ^ 8" using unat_lt32[of v] by simp
  then obtain b where b: "itoa v (replicate 56 0) 16 = Ret b" "length b = 56" "terminated b"
      "length (cstr b) \<le> 8" "denotes 16 (cstr b) (unat v)"
    using itoa_correct[of 16 v 8 "replicate 56 0"] by auto
  then obtain ds where ds: "cstr b = map ((!) lookup) ds" "\<forall>d\<in>set ds. d < 16" "denote 16 ds = unat v"
    by (auto simp: denotes_def)
  let ?n = "length (cstr b)" and ?z = "of_char CHR ''0'' :: u8"
  have z: "lookup ! 0 = ?z" by (simp add: lookup_def lit_def)
  have store: "buf_store (replicate 8 0 @ b) ?n (replicate (8 - ?n) ?z) = Ret (replicate ?n 0 @ replicate (8 - ?n) ?z @ b)"
    using b(2,4) by (subst buf_store_fits) (auto simp: min_def)
  have t: "terminated (replicate (8 - ?n) ?z @ b)" using b(3) by (rule terminated_append)
  have c: "cstr (replicate (8 - ?n) ?z @ b) = replicate (8 - ?n) ?z @ cstr b"
    by (rule cstr_append) simp
  have "print_alternate v s = Ret (fold putc (replicate (8 - ?n) ?z @ cstr b) s)"
    using b(1,3) store puts_eq[OF t, of s] c by (simp add: print_alternate_def Let_def strlen_eq)
  moreover have "replicate (8 - ?n) ?z @ cstr b = map ((!) lookup) (replicate (8 - ?n) 0 @ ds)"
    using ds(1) z by simp
  ultimately show ?thesis using ds b(4)
    by (intro exI[of _ "replicate (8 - ?n) 0 @ ds"]) (auto simp: denote_leading_zeros)
qed

text \<open>\<open>%u\<close>, \<open>%x\<close> and \<open>%d\<close> print the value without leading zeros, \<open>%d\<close> after a minus sign if it is negative.\<close>

lemma print_unsigned_digits:
  assumes "2 \<le> unat radix" "unat radix \<le> 36" "unat v < unat radix ^ k" "0 < k" "k < sz"
  shows "\<exists>t. print_unsigned v radix sz s = Ret (fold putc t s) \<and> length t \<le> k \<and> denotes (unat radix) t (unat v)"
  using itoa_correct[of radix v k "replicate sz 0"] assms
  by (fastforce simp: print_unsigned_def puts_eq)

lemma unat_lt_10_10: "unat (v :: u32) < 10 ^ 10"
  using unat_lt32[of v] by simp

lemma print_signed_digits:
  "\<exists>t. print_signed v s = Ret (fold putc t s) \<and>
     (if sint v < 0 then \<exists>u. t = of_char CHR ''-'' # u \<and> denotes 10 u (nat (- sint v))
      else denotes 10 t (nat (sint v)))"
proof (cases "sint v < 0")
  case True
  have "uint (- v) = uint (word_of_int (- sint v) :: u32)" by simp
  also have "\<dots> = (- sint v) mod 2 ^ 32" by (subst uint_word_of_int) simp
  also have "\<dots> = - sint v" using True sint_ge[of v] by (intro mod_pos_pos_trivial) auto
  finally have neg: "unat (- v) = nat (- sint v)" by (simp only: unat_eq_nat_uint)
  have "\<exists>b. itoa (- v) (replicate 35 0) 10 = Ret b \<and> terminated b \<and> denotes 10 (cstr b) (unat (- v))"
    using itoa_correct[of 10 "- v" 10 "replicate 35 0"] unat_lt_10_10[of "- v"] by auto
  then obtain b where b: "itoa (- v) (replicate 35 0) 10 = Ret b" "terminated b" "denotes 10 (cstr b) (unat (- v))"
    by blast
  have t: "terminated ([of_char CHR ''-''] @ b)" using b(2) by (rule terminated_append)
  have c: "cstr ([of_char CHR ''-''] @ b) = [of_char CHR ''-''] @ cstr b" by (rule cstr_append) simp
  have "print_signed v s = Ret (fold putc (of_char CHR ''-'' # cstr b) s)"
    using True b(1) puts_eq[OF t, of s] c by (simp add: print_signed_def Let_def eval_nat_numeral)
  with True b(3) neg show ?thesis by (intro exI[of _ "of_char CHR ''-'' # cstr b"]) simp
next
  case False
  have "uint v = sint v mod 2 ^ 32" by (simp add: uint_sint take_bit_eq_mod)
  also have "\<dots> = sint v" using False sint_lt[of v] by (intro mod_pos_pos_trivial) auto
  finally have pos: "unat v = nat (sint v)" by (simp only: unat_eq_nat_uint)
  have "\<exists>b. itoa v (replicate 36 0) 10 = Ret b \<and> terminated b \<and> denotes 10 (cstr b) (unat v)"
    using itoa_correct[of 10 v 10 "replicate 36 0"] unat_lt_10_10[of v] by auto
  with False pos show ?thesis by (auto simp: print_signed_def Let_def puts_eq)
qed

section \<open>Saving and restoring the screen\<close>

text \<open>
  \<open>copy_video_to_buffer\<close> stores the characters of the screen in a buffer of 2000 bytes,
  \<open>copy_buffer_to_video\<close> shows them again, all with the default attribute.
\<close>

definition clear_of_video :: "u32 \<Rightarrow> bool" where
  "clear_of_video a \<longleftrightarrow> (\<forall>i<2000. \<not> in_range VIDEO 4000 (a + of_nat i))"

lemma clear_of_videoD:
  "clear_of_video a \<Longrightarrow> i < 2000 \<Longrightarrow> 0 \<le> k \<Longrightarrow> k < 4000 \<Longrightarrow> a + of_nat i \<noteq> vid k"
  using vid_in_range[of k 4000] unfolding clear_of_video_def by fastforce

lemma copy_video_to_buffer_bytes:
  assumes "clear_of_video dst"
  shows "mem_bytes (mem (copy_video_to_buffer dst s)) dst 2000 = chars (mem s)"
    "x \<notin> {dst + of_nat i |i. i < 2000} \<Longrightarrow> mem (copy_video_to_buffer dst s) x = mem s x"
proof -
  let ?R = "fold (\<lambda>i m. m(dst + of_nat i := m (vid (2 * int i)))) [0..<2000] (mem s)"
  have read: "\<forall>i m'. 0 \<le> i \<and> i < 2000 \<and>
      (\<forall>x. (\<forall>j. 0 \<le> j \<and> j < i \<longrightarrow> x \<noteq> dst + of_nat j) \<longrightarrow> m' x = mem s x) \<longrightarrow>
      m' (vid (2 * int i)) = mem s (vid (2 * int i))"
    using clear_of_videoD[OF assms, symmetric] by simp
  note L = single_loop[of 0 2000 "\<lambda>i. dst + of_nat i" "mem s" "\<lambda>i m'. m' (vid (2 * int i))"
      "\<lambda>i. mem s (vid (2 * int i))", OF _ read]
  show "mem_bytes (mem (copy_video_to_buffer dst s)) dst 2000 = chars (mem s)"
    using L by (intro nth_equalityI) (auto simp: copy_video_to_buffer_def of_nat_eq32)
  show "x \<notin> {dst + of_nat i |i. i < 2000} \<Longrightarrow> mem (copy_video_to_buffer dst s) x = mem s x"
    using L by (auto simp: copy_video_to_buffer_def of_nat_eq32)
qed

lemma copy_buffer_to_video_chars:
  assumes "clear_of_video src"
  shows "chars (mem (copy_buffer_to_video src s)) = mem_bytes (mem s) src 2000"
    "attrs (mem (copy_buffer_to_video src s)) = replicate 2000 ATTRIB"
    "\<not> in_range VIDEO 4000 x \<Longrightarrow> mem (copy_buffer_to_video src s) x = mem s x"
proof -
  have read: "\<forall>i m'. 0 \<le> i \<and> i < 2000 \<and>
      (\<forall>x. (\<forall>j. 0 \<le> j \<and> j < i \<longrightarrow> x \<noteq> vid (2 * int j) \<and> x \<noteq> vid (2 * int j + 1)) \<longrightarrow> m' x = mem s x) \<longrightarrow>
      m' (src + of_nat i) = mem s (src + of_nat i)"
    using clear_of_videoD[OF assms] by simp
  note L = video.cell_loop[where a = 0 and b = 2000 and m = "mem s" and c = "\<lambda>i m'. m' (src + of_nat i)"
      and v = "\<lambda>i. mem s (src + of_nat i)" and d = ATTRIB, OF _ read]
  show "chars (mem (copy_buffer_to_video src s)) = mem_bytes (mem s) src 2000"
    by (rule nth_equalityI) (auto simp: copy_buffer_to_video_def intro!: L(1))
  show "attrs (mem (copy_buffer_to_video src s)) = replicate 2000 ATTRIB"
    by (rule nth_equalityI) (auto simp: copy_buffer_to_video_def intro!: L(2))
  show "\<not> in_range VIDEO 4000 x \<Longrightarrow> mem (copy_buffer_to_video src s) x = mem s x"
    by (simp add: copy_buffer_to_video_def) (rule L(3), auto simp: vid_range)
qed

section \<open>What the console leaves alone\<close>

text \<open>
  A step that changes nothing but memory, the port log and the cursor; in particular none of the
  fields that larger states add to the console's.
\<close>

definition console_step :: "'a console_scheme \<Rightarrow> 'a console_scheme \<Rightarrow> bool" where
  "console_step s s' \<longleftrightarrow> s' = s\<lparr>mem := mem s', io := io s', screen_x := screen_x s', screen_y := screen_y s'\<rparr>"

lemma console_step_refl [simp]: "console_step s s"
  by (simp add: console_step_def)

lemma console_step_trans [trans]:
  "console_step s1 s2 \<Longrightarrow> console_step s2 s3 \<Longrightarrow> console_step s1 s3"
  by (cases s1; cases s2; cases s3) (simp add: console_step_def)

lemma console_step_more: "console_step s s' \<Longrightarrow> console.more s' = console.more s"
  by (cases s; cases s') (simp add: console_step_def)

lemma console_step_ops [simp]:
  "console_step s (putc c s)" "console_step s (set_cursor x y s)" "console_step s (pressed_enter s)"
  "console_step s (clear s)" "console_step s (move_back s)" "console_step s (update_cursor r k s)"
  by (cases s; simp add: console_step_def putc_def set_cursor_def pressed_enter_def clear_def move_back_def
    update_cursor_def put_cell_def outb_def poke_def Let_def)+

lemma set_cursor_effect [simp]:
  "mem (set_cursor x y s) = mem s" "screen_x (set_cursor x y s) = x" "screen_y (set_cursor x y s) = y"
  by (simp_all add: set_cursor_def)

lemma console_step_fold: "console_step s (fold putc t s)"
proof (induction t arbitrary: s)
  case (Cons c t)
  show ?case using console_step_trans[OF console_step_ops(1) Cons.IH] by simp
qed simp

text \<open>A format without conversions is printed as it is.\<close>

lemma printf_loop_plain:
  "terminated fmt \<Longrightarrow> of_char CHR ''%'' \<notin> set (cstr fmt) \<Longrightarrow>
     printf_loop fmt args n s = Ret (n + length (cstr fmt), fold putc (cstr fmt) s)"
  by (induction fmt arbitrary: n s) (auto simp: terminated_def cstr_def)

lemma printf_plain:
  "terminated fmt \<Longrightarrow> of_char CHR ''%'' \<notin> set (cstr fmt) \<Longrightarrow>
     printf fmt args s = Ret (length (cstr fmt), fold putc (cstr fmt) s)"
  by (simp add: printf_def printf_loop_plain)

section \<open>Properties\<close>

text \<open>A blank machine with the cursor at the top left.\<close>

definition blank_console :: console where
  "blank_console = \<lparr>mem = (\<lambda>_. 0), io = [], screen_x = 0, screen_y = 0\<rparr>"

lemma blank_console_simps [simp]:
  "on_screen blank_console" "screen_x blank_console = 0" "cursor_cell blank_console = 0"
  "mem blank_console = (\<lambda>_. 0)"
  by (simp_all add: blank_console_def on_screen_def cursor_cell_def)

text \<open>
  \<open>pressed_enter\<close> scrolls: every row moves up by one and the last row is blank. It sets the
  attributes of the first 24 rows only, and one byte past the screen, at offset 4001, instead of
  those of the last row; no other byte changes and the cursor stays.
\<close>

lemma pressed_enter_scroll:
  "chars (mem (pressed_enter s)) = drop 80 (chars (mem s)) @ replicate 80 SPACE \<and>
   attrs (mem (pressed_enter s)) = replicate 1920 ATTRIB @ drop 1920 (attrs (mem s)) \<and>
   mem (pressed_enter s) (vid 4001) = ATTRIB \<and>
   (\<forall>x. in_range VIDEO 4000 x \<or> x = vid 4001 \<or> mem (pressed_enter s) x = mem s x) \<and>
   screen_x (pressed_enter s) = screen_x s \<and> screen_y (pressed_enter s) = screen_y s"
  using pressed_enter_outside by (auto simp: pressed_enter_scrolls pressed_enter_attrs)

text \<open>
  Saving the screen into a buffer away from video memory, clearing the screen and restoring it
  from the buffer shows the same characters again, all with the default attribute.
\<close>

lemma screen_save_restore:
  assumes "clear_of_video a"
  shows "chars (mem (copy_buffer_to_video a (clear (copy_video_to_buffer a s)))) = chars (mem s) \<and>
    attrs (mem (copy_buffer_to_video a (clear (copy_video_to_buffer a s)))) = replicate 2000 ATTRIB"
proof -
  have "\<not> in_range VIDEO 4000 (a + of_nat i)" if "i < 2000" for i
    using clear_of_videoD[OF assms(1) that] by (auto simp: vid_range)
  then have "mem_bytes (mem (clear (copy_video_to_buffer a s))) a 2000 = mem_bytes (mem (copy_video_to_buffer a s)) a 2000"
    by (simp add: mem_bytes_def clear_screen(3))
  then show ?thesis
    by (simp add: copy_buffer_to_video_chars[OF assms] copy_video_to_buffer_bytes(1)[OF assms])
qed

lemma screen_save_restore_witness:
  "chars (mem (copy_buffer_to_video 0xB9000 (clear (copy_video_to_buffer 0xB9000 blank_console)))) = replicate 2000 0"
proof -
  have "unat (0x1000 + of_nat i :: u32) = 4096 + i" if "i < 2000" for i :: nat
    using that by (simp add: unat_word_ariths unat_of_nat)
  then have "clear_of_video 0xB9000" by (simp add: clear_of_video_def in_range_def)
  then show ?thesis using screen_save_restore[of "0xB9000" blank_console]
    by (simp add: chars_def map_replicate_const)
qed

text \<open>
  \<open>putc\<close> never leaves the row: after the last column it goes back to column 0 of the same row,
  because the column is reduced modulo 80 before it is divided by 80.
\<close>

lemma putc_stays_on_row:
  assumes "\<not> is_newline c" "on_screen s"
  shows "screen_y (putc c s) = screen_y s \<and> screen_x (putc c s) = (screen_x s + 1) mod NUM_COLS"
  using putc_cursor[OF assms] assms(2) by (auto simp: on_screen_def)

text \<open>
  \<open>printf\<close> of \<open>%d\<close> prints a minus sign for a negative argument and the decimal digits of its
  absolute value, for every 32-bit argument.
\<close>

lemma printf_decimal:
  "\<exists>n t. printf (lit ''%d'') [Val v] s = Ret (n, fold putc t s) \<and>
     (if sint v < 0 then \<exists>u. t = of_char CHR ''-'' # u \<and> denotes 10 u (nat (- sint v))
      else denotes 10 t (nat (sint v)))"
  using print_signed_digits[of v s] by (fastforce simp: printf_def lit_def next_val_def)

text \<open>\<open>printf\<close> of \<open>%#x\<close> prints the eight hexadecimal digits of its argument.\<close>

lemma printf_hex:
  "\<exists>n ds. printf (lit ''%#x'') [Val v] s = Ret (n, fold putc (map ((!) lookup) ds) s) \<and>
     length ds = 8 \<and> denote 16 ds = unat v"
  using print_alternate_digits[of v s] by (fastforce simp: printf_def lit_def next_val_def)

end
