(* ===== verification/File_System.thy ===== *)
theory File_System
  imports Console
begin

text \<open>
  The read-only file system of \<open>file_system.c\<close>. Its image is a boot module in memory at
  \<open>bootHead\<close>: a boot block (counts and 63 directory entries), one 4 KB block per inode (a length
  and up to 1023 data block numbers) and the data blocks. \<open>bootHead\<close> and \<open>currentDirIndex\<close> are
  the component's state. A caller's buffer is a list of bytes, \<open>None\<close> where the code tests for
  \<open>NULL\<close>; array indices outside the C arrays are \<open>Undef\<close>.
\<close>

section \<open>Layout of the image\<close>

record dentry =
  fileName :: "u8 list"
  fileType :: u32
  inodeNum :: u32
  dentry_reserved :: "u8 list"

record fs = console +
  bootHead :: u32
  currentDirIndex :: int

definition init_bootBlock_address :: "u32 \<Rightarrow> 'a fs_scheme \<Rightarrow> int \<times> 'a fs_scheme" where
  "init_bootBlock_address address s = (0, s\<lparr>bootHead := address, currentDirIndex := 0\<rparr>)"

text \<open>A little-endian 32-bit word.\<close>

definition le32 :: "memory \<Rightarrow> u32 \<Rightarrow> u32" where
  "le32 m a = ucast (m a) + 256 * ucast (m (a + 1)) + 65536 * ucast (m (a + 2)) + 16777216 * ucast (m (a + 3))"

definition numDirectory :: "'a fs_scheme \<Rightarrow> u32" where
  "numDirectory s = le32 (mem s) (bootHead s)"

definition numInode :: "'a fs_scheme \<Rightarrow> u32" where
  "numInode s = le32 (mem s) (bootHead s + 4)"

definition dir_Entries :: "'a fs_scheme \<Rightarrow> nat \<Rightarrow> dentry outcome" where
  "dir_Entries s i =
     (if i < 63
      then let a = bootHead s + 64 + 64 * of_nat i
           in Ret \<lparr>fileName = mem_bytes (mem s) a 32, fileType = le32 (mem s) (a + 32),
                   inodeNum = le32 (mem s) (a + 36), dentry_reserved = mem_bytes (mem s) (a + 40) 24\<rparr>
      else Undef)"

definition get_inodeptr :: "u32 \<Rightarrow> 'a fs_scheme \<Rightarrow> u32" where
  "get_inodeptr inode s = bootHead s + 4096 * (inode + 1)"

definition inode_length :: "'a fs_scheme \<Rightarrow> u32 \<Rightarrow> u32" where
  "inode_length s inode_ptr = le32 (mem s) inode_ptr"

definition dataBlock :: "'a fs_scheme \<Rightarrow> u32 \<Rightarrow> nat \<Rightarrow> u32 outcome" where
  "dataBlock s inode_ptr k =
     (if k < 1023 then Ret (le32 (mem s) (inode_ptr + 4 + 4 * of_nat k)) else Undef)"

text \<open>\<open>&bootHead[dataBlock + numInode + 1]\<close>.\<close>

definition block_ptr :: "'a fs_scheme \<Rightarrow> u32 \<Rightarrow> u32" where
  "block_ptr s b = bootHead s + 4096 * (b + numInode s + 1)"

section \<open>Directory lookups\<close>

fun find_dentry :: "'a fs_scheme \<Rightarrow> u8 list \<Rightarrow> nat list \<Rightarrow> dentry option outcome" where
  "find_dentry s tempString [] = Ret None"
| "find_dentry s tempString (i # is) =
     obind (dir_Entries s i) (\<lambda>d.
     obind (strncmp tempString (fileName d) 31) (\<lambda>r.
     if r = 0 then Ret (Some d) else find_dentry s tempString is))"

text \<open>
  \<open>None\<close> is the return value \<open>-1\<close>, \<open>Some d\<close> is \<open>0\<close> with \<open>d\<close> stored at \<open>dentry\<close>. The name is first
  copied, with \<open>strcpy\<close>, into 32 bytes on the stack.
\<close>

definition read_dentry_by_name :: "u8 list \<Rightarrow> 'a fs_scheme \<Rightarrow> dentry option outcome" where
  "read_dentry_by_name fname s =
     obind (strcpy (replicate 32 0) fname) (\<lambda>tempString.
     obind (strlen fname) (\<lambda>len.
     obind (buf_store tempString len (replicate (32 - len) 0)) (\<lambda>tempString.
     obind (if len \<ge> 32 then buf_set tempString 32 0 else Ret tempString) (\<lambda>tempString.
     find_dentry s tempString [0..<63]))))"

definition read_dentry_by_index :: "u32 \<Rightarrow> bool \<Rightarrow> 'a fs_scheme \<Rightarrow> dentry option outcome" where
  "read_dentry_by_index index dentry_null s =
     (if index \<ge> numDirectory s \<or> dentry_null then Ret None
      else obind (dir_Entries s (unat index)) (\<lambda>d. Ret (Some d)))"

section \<open>Reading data\<close>

text \<open>
  The copy loop: \<open>n\<close> bytes are left, \<open>i\<close> have been stored. The block number after the last byte
  of a block is looked up even when no byte is left.
\<close>

primrec read_loop :: "'a fs_scheme \<Rightarrow> u32 \<Rightarrow> nat \<Rightarrow> nat \<Rightarrow> nat \<Rightarrow> u32 \<Rightarrow> u32 \<Rightarrow> u8 list \<Rightarrow> u8 list outcome" where
  "read_loop s inode_ptr 0 i blockNUM data_ptr data_end buf = Ret buf"
| "read_loop s inode_ptr (Suc n) i blockNUM data_ptr data_end buf =
     obind (buf_set buf i (mem s data_ptr)) (\<lambda>buf'.
     if data_ptr = data_end
     then obind (dataBlock s inode_ptr (Suc blockNUM)) (\<lambda>b.
          read_loop s inode_ptr n (Suc i) (Suc blockNUM) (block_ptr s b) (block_ptr s b + 4096 - 1) buf')
     else read_loop s inode_ptr n (Suc i) blockNUM (data_ptr + 1) data_end buf')"

definition read_data :: "u32 \<Rightarrow> u32 \<Rightarrow> u8 list option \<Rightarrow> u32 \<Rightarrow> 'a fs_scheme \<Rightarrow> (int \<times> u8 list option) outcome" where
  "read_data inode offset buf len s =
     (let blockNUM = unat (offset div 4096);
          blockOffset = offset mod 4096;
          inode_ptr = get_inodeptr inode s;
          data_length = inode_length s inode_ptr
      in if offset = data_length then Ret (0, buf)
         else if inode \<ge> numInode s \<or> buf = None \<or> len = 0 then Ret (-1, buf)
         else let n = unat (if len \<ge> data_length - offset then data_length - offset else len)
              in obind (dataBlock s inode_ptr blockNUM) (\<lambda>b.
                 let data_ptr = block_ptr s b + blockOffset;
                     data_end = data_ptr + 4096 - blockOffset - 1
                 in obind (read_loop s inode_ptr n 0 blockNUM data_ptr data_end (the buf)) (\<lambda>buf'.
                    Ret (int n, Some buf'))))"

section \<open>Driver entry points\<close>

definition open_file :: "u8 list \<Rightarrow> 'a fs_scheme \<Rightarrow> int outcome" where
  "open_file filename s =
     obind (read_dentry_by_name filename s) (\<lambda>d. Ret (if d = None then -1 else 0))"

definition close_file :: "int \<Rightarrow> int" where
  "close_file fd = 0"

definition read_file_sys_helper :: "u8 list \<Rightarrow> u8 list option \<Rightarrow> u32 \<Rightarrow> 'a fs_scheme \<Rightarrow> (int \<times> u8 list option) outcome" where
  "read_file_sys_helper filename buf bytes s =
     obind (read_dentry_by_name filename s) (\<lambda>d.
     case d of None \<Rightarrow> Ret (-1, buf)
     | Some tempDentry \<Rightarrow>
         obind (read_data (inodeNum tempDentry) 0 buf bytes s) (\<lambda>(byteRead, buf').
         if byteRead = -1 then Ret (-1, buf')
         else if byteRead = 0
         then Ret (sint (inode_length s (get_inodeptr (inodeNum tempDentry) s)), buf')
         else Ret (byteRead, buf')))"

definition write_file :: "int \<Rightarrow> u8 list \<Rightarrow> int \<Rightarrow> int" where
  "write_file fd buf nbytes = -1"

definition open_directory :: "u8 list \<Rightarrow> int" where
  "open_directory filename = 0"

definition close_directory :: "int \<Rightarrow> int" where
  "close_directory fd = 0"

definition read_directory :: "u8 list \<Rightarrow> 'a fs_scheme \<Rightarrow> (int \<times> u8 list \<times> 'a fs_scheme) outcome" where
  "read_directory buf s =
     (if currentDirIndex s + 1 > sint (numDirectory s)
      then Ret (0, buf, s\<lparr>currentDirIndex := 0\<rparr>)
      else if currentDirIndex s < 0 then Undef
      else obind (dir_Entries s (nat (currentDirIndex s))) (\<lambda>d.
           obind (strcpy buf (fileName d)) (\<lambda>buf'.
           obind (strlen buf') (\<lambda>n.
           Ret (int n, buf', s\<lparr>currentDirIndex := currentDirIndex s + 1\<rparr>)))))"

definition write_directory :: "int \<Rightarrow> u8 list \<Rightarrow> int \<Rightarrow> int" where
  "write_directory fd buf nbytes = -1"

section \<open>Files\<close>

text \<open>
  The contents of an inode: byte \<open>j\<close> is byte \<open>j mod 4096\<close> of the inode's data block number
  \<open>j div 4096\<close>.
\<close>

definition data_block :: "'a fs_scheme \<Rightarrow> u32 \<Rightarrow> nat \<Rightarrow> u32" where
  "data_block s inode k = block_ptr s (le32 (mem s) (get_inodeptr inode s + 4 + 4 * of_nat k))"

definition file_byte :: "'a fs_scheme \<Rightarrow> u32 \<Rightarrow> nat \<Rightarrow> u8" where
  "file_byte s inode j = mem s (data_block s inode (j div 4096) + of_nat (j mod 4096))"

definition file_size :: "'a fs_scheme \<Rightarrow> u32 \<Rightarrow> nat" where
  "file_size s inode = unat (inode_length s (get_inodeptr inode s))"

definition file_bytes :: "'a fs_scheme \<Rightarrow> u32 \<Rightarrow> u8 list" where
  "file_bytes s inode = map (file_byte s inode) [0..<file_size s inode]"

text \<open>A well-formed inode: in range, and with a block number to spare.\<close>

definition valid_inode :: "'a fs_scheme \<Rightarrow> u32 \<Rightarrow> bool" where
  "valid_inode s inode \<longleftrightarrow> inode < numInode s \<and> file_size s inode < 1023 * 4096"

lemma length_file_bytes [simp]: "length (file_bytes s inode) = file_size s inode"
  by (simp add: file_bytes_def)

lemma file_chunk:
  "take n (drop j (file_bytes s inode)) = map (file_byte s inode) [j..<min (j + n) (file_size s inode)]"
  by (rule nth_equalityI) (auto simp: file_bytes_def)

lemma dataBlock_in:
  assumes "k < 1023"
  obtains b where "dataBlock s (get_inodeptr inode s) k = Ret b" "block_ptr s b = data_block s inode k"
  using assms by (simp add: dataBlock_def data_block_def)

lemma block_end: "r < 4096 \<Longrightarrow> (b :: u32) + of_nat r = b + 4095 \<longleftrightarrow> r = 4095"
  using of_nat_eq32[of r 4095] by simp

text \<open>The loop stores the bytes of the file from position \<open>j\<close> on, one after the other.\<close>

lemma read_loop_eq:
  assumes "j + n < 1023 * 4096"
  shows "read_loop s (get_inodeptr inode s) n i (j div 4096)
      (data_block s inode (j div 4096) + of_nat (j mod 4096)) (data_block s inode (j div 4096) + 4095) buf =
    buf_store buf i (map (file_byte s inode) [j..<j + n])"
  using assms
proof (induction n arbitrary: i j buf)
  case 0
  then show ?case by simp
next
  case (Suc n)
  let ?b = "data_block s inode (j div 4096)" and ?r = "j mod 4096"
  let ?rest = "map (file_byte s inode) [Suc j..<Suc j + n]"
  have bytes: "map (file_byte s inode) [j..<j + Suc n] = mem s (?b + of_nat ?r) # ?rest"
    by (simp add: upt_conv_Cons file_byte_def del: upt_Suc)
  have p: "Suc j + n < 1023 * 4096" using Suc.prems by simp
  have e: "b + 4096 - 1 = b + 4095" for b :: u32 by simp
  show ?case
  proof (cases "?r = 4095")
    case True
    then have next_block: "Suc j div 4096 = Suc (j div 4096)" "Suc j mod 4096 = 0"
      by (simp_all add: div_Suc mod_Suc)
    have k: "Suc (j div 4096) < 1023" using Suc.prems next_block by linarith
    let ?b' = "data_block s inode (Suc (j div 4096))"
    obtain b where blk: "dataBlock s (get_inodeptr inode s) (Suc (j div 4096)) = Ret b" "block_ptr s b = ?b'"
      using dataBlock_in[OF k] by blast
    have IH': "read_loop s (get_inodeptr inode s) n i' (Suc (j div 4096)) ?b' (?b' + 4096 - 1) buf' =
        buf_store buf' i' ?rest" for i' buf'
      using Suc.IH[OF p, of i' buf', unfolded next_block] by (simp only: e semiring_1_class.of_nat_0 add_0_right)
    show ?thesis
      using True blk by (simp only: read_loop.simps bytes buf_store.simps of_nat_numeral if_True simp_thms obind.simps IH')
  next
    case False
    then have same: "Suc j div 4096 = j div 4096" "Suc j mod 4096 = Suc ?r"
      by (simp_all add: div_Suc mod_Suc)
    have ne: "?b + of_nat ?r \<noteq> ?b + 4095" using False block_end[of ?r ?b] by simp
    have IH': "read_loop s (get_inodeptr inode s) n i' (j div 4096) (?b + of_nat ?r + 1) (?b + 4095) buf' =
        buf_store buf' i' ?rest" for i' buf'
      using Suc.IH[OF p, of i' buf', unfolded same] by (simp only: of_nat_Suc ac_simps)
    show ?thesis using ne by (simp only: read_loop.simps bytes IH' buf_store.simps if_False)
  qed
qed

section \<open>Reading a file\<close>

lemma read_data_store:
  assumes v: "valid_inode s inode" and off: "unat offset < file_size s inode" and len: "len \<noteq> 0"
  shows "read_data inode offset (Some buf) len s =
    obind (buf_store buf 0 (take (unat len) (drop (unat offset) (file_bytes s inode))))
      (\<lambda>b. Ret (int (min (unat len) (file_size s inode - unat offset)), Some b))"
proof -
  let ?p = "get_inodeptr inode s" and ?j = "unat offset"
  let ?l = "inode_length s ?p"
  have size: "unat ?l = file_size s inode" by (simp add: file_size_def)
  have ne: "offset \<noteq> ?l" using off size by auto
  have "unat (?l - offset) = file_size s inode - ?j"
    using off size by (metis less_imp_le unat_sub word_le_nat_alt)
  then have n: "unat (if len \<ge> ?l - offset then ?l - offset else len) = min (unat len) (file_size s inode - ?j)"
    by (simp add: word_le_nat_alt min_def)
  have k: "?j div 4096 < 1023" using v off unfolding valid_inode_def by linarith
  obtain b where b: "dataBlock s ?p (?j div 4096) = Ret b" "block_ptr s b = data_block s inode (?j div 4096)"
    using dataBlock_in[OF k] by blast
  have d: "unat (offset div 4096) = ?j div 4096" "offset mod 4096 = of_nat (?j mod 4096)"
    by (simp_all add: unat_div unat_mod word_unat_eq_iff unat_of_nat32 del: of_nat_mod)
  have e: "x + y + 4096 - y - 1 = x + 4095" for x y :: u32 by simp
  have bound: "?j + min (unat len) (file_size s inode - ?j) < 1023 * 4096"
    using v off unfolding valid_inode_def by linarith
  have "?j + min (unat len) (file_size s inode - ?j) = min (?j + unat len) (file_size s inode)"
    using off by linarith
  with read_loop_eq[OF bound, of s inode 0 buf]
  have loop: "read_loop s ?p (min (unat len) (file_size s inode - ?j)) 0 (?j div 4096)
      (data_block s inode (?j div 4096) + of_nat (?j mod 4096)) (data_block s inode (?j div 4096) + 4095) buf =
    buf_store buf 0 (take (unat len) (drop ?j (file_bytes s inode)))"
    by (simp only: file_chunk)
  have vi: "\<not> inode \<ge> numInode s" using v by (simp add: valid_inode_def not_le)
  show ?thesis
    unfolding read_data_def Let_def n d e
    using ne vi len b by (simp only: if_False option.sel option.distinct loop obind.simps simp_thms e)
qed

lemma read_data_fits:
  assumes "valid_inode s inode" and "unat offset < file_size s inode" and "len \<noteq> 0"
  defines "t \<equiv> take (unat len) (drop (unat offset) (file_bytes s inode))"
  assumes "length t \<le> length buf"
  shows "read_data inode offset (Some buf) len s = Ret (int (length t), Some (t @ drop (length t) buf))"
  using read_data_store[OF assms(1-3), of buf] assms(5)
  by (simp add: buf_store_fits t_def min.commute)

lemma read_data_overrun:
  assumes "valid_inode s inode" and "unat offset < file_size s inode" and "len \<noteq> 0"
    and "length buf < length (take (unat len) (drop (unat offset) (file_bytes s inode)))"
  shows "read_data inode offset (Some buf) len s = Undef"
  using read_data_store[OF assms(1-3), of buf] assms(4) by (simp add: buf_store_overflow)

lemma read_data_eof:
  "unat offset = file_size s inode \<Longrightarrow> read_data inode offset buf len s = Ret (0, buf)"
  by (simp add: read_data_def Let_def file_size_def word_unat_eq_iff)

lemma read_data_rejects:
  assumes "unat offset \<noteq> file_size s inode" and "inode \<ge> numInode s \<or> buf = None \<or> len = 0"
  shows "read_data inode offset buf len s = Ret (-1, buf)"
  using assms by (auto simp: read_data_def Let_def file_size_def word_unat_eq_iff)

section \<open>The directory\<close>

definition entry :: "'a fs_scheme \<Rightarrow> nat \<Rightarrow> dentry" where
  "entry s i =
     (let a = bootHead s + 64 + 64 * of_nat i
      in \<lparr>fileName = mem_bytes (mem s) a 32, fileType = le32 (mem s) (a + 32),
          inodeNum = le32 (mem s) (a + 36), dentry_reserved = mem_bytes (mem s) (a + 40) 24\<rparr>)"

lemma dir_Entries_entry: "dir_Entries s i = (if i < 63 then Ret (entry s i) else Undef)"
  by (simp add: dir_Entries_def entry_def Let_def)

lemma length_fileName [simp]: "length (fileName (entry s i)) = 32"
  by (simp add: entry_def Let_def)

lemma find_dentry_eq:
  assumes "length t = 32" and "\<forall>i\<in>set is. i < 63"
  shows "find_dentry s t is = Ret (find (\<lambda>d. same_prefix t (fileName d) 31) (map (entry s) is))"
  using assms
proof (induction "is")
  case (Cons i "is")
  obtain r where "strncmp t (fileName (entry s i)) 31 = Ret r"
      "r = 0 \<longleftrightarrow> same_prefix t (fileName (entry s i)) 31"
    using strncmp_zero_iff[of 31 t "fileName (entry s i)"] Cons.prems by auto
  with Cons show ?case by (simp add: dir_Entries_entry)
qed simp

text \<open>
  A name shorter than 32 bytes finds the first of all 63 entries, used or not, that agrees with
  it on 31 bytes; a longer one runs over the 32 bytes it is copied to.
\<close>

lemma read_dentry_by_name_find:
  assumes t: "terminated fname" and len: "length (cstr fname) < 32"
  shows "read_dentry_by_name fname s =
    Ret (find (\<lambda>d. same_prefix fname (fileName d) 31) (map (entry s) [0..<63]))"
proof -
  let ?c = "cstr fname"
  let ?t = "?c @ replicate (32 - length ?c) 0"
  have cp: "strcpy (replicate 32 0) fname = Ret (?c @ 0 # replicate (31 - length ?c) 0)"
    using strcpy_fits[OF t, of "replicate 32 0"] len by simp
  have pad: "buf_store (?c @ 0 # replicate (31 - length ?c) 0) (length ?c) (replicate (32 - length ?c) 0) = Ret ?t"
    using len by (subst buf_store_fits) auto
  have z: "?t = ?c @ 0 # replicate (31 - length ?c) 0"
    using len by (simp flip: replicate_Suc add: Suc_diff_le)
  have "cstr ?t = ?c" unfolding z by (rule cstr_split[OF cstr_no_NUL])
  then have same: "same_prefix ?t b n = same_prefix fname b n" for b n
    by (simp add: same_prefix_def)
  have "find_dentry s ?t [0..<63] = Ret (find (\<lambda>d. same_prefix ?t (fileName d) 31) (map (entry s) [0..<63]))"
    using len by (intro find_dentry_eq) auto
  then show ?thesis using cp pad t len by (simp add: read_dentry_by_name_def strlen_eq same)
qed

lemma read_dentry_by_name_overflow:
  "terminated fname \<Longrightarrow> 32 \<le> length (cstr fname) \<Longrightarrow> read_dentry_by_name fname s = Undef"
  by (simp add: read_dentry_by_name_def strcpy_overflow)

text \<open>In a directory whose entries differ on their first 31 bytes, a name finds its own entry.\<close>

definition distinct_names :: "'a fs_scheme \<Rightarrow> bool" where
  "distinct_names s \<longleftrightarrow> (\<forall>i<63. \<forall>j<63. same_prefix (fileName (entry s i)) (fileName (entry s j)) 31 \<longrightarrow>
     fileName (entry s i) = replicate 32 0 \<or> i = j)"

lemma find_unique:
  assumes "P (f i)" and "i \<in> set xs" and "\<forall>j\<in>set xs. j \<noteq> i \<longrightarrow> \<not> P (f j)"
  shows "find P (map f xs) = Some (f i)"
  using assms by (induction xs) auto

lemma same_prefix_sym: "same_prefix a b n = same_prefix b a n"
  by (auto simp: same_prefix_def)

lemma same_prefix_trans: "same_prefix a b n \<Longrightarrow> same_prefix b c n \<Longrightarrow> same_prefix a c n"
  by (simp add: same_prefix_def)

lemma read_dentry_by_name_own:
  assumes "distinct_names s" and i: "i < 63"
    and nm: "terminated (fileName (entry s i))" "cstr (fileName (entry s i)) \<noteq> []"
  shows "read_dentry_by_name (fileName (entry s i)) s = Ret (Some (entry s i))"
proof -
  let ?n = "fileName (entry s i)"
  have "length (cstr ?n) < 32" using length_cstr_less[OF nm(1)] by simp
  then have "read_dentry_by_name ?n s = Ret (find (\<lambda>d. same_prefix ?n (fileName d) 31) (map (entry s) [0..<63]))"
    using nm(1) by (intro read_dentry_by_name_find)
  moreover have "?n \<noteq> replicate 32 0"
    using nm(2) by (auto simp: cstr_def)
  then have "find (\<lambda>d. same_prefix ?n (fileName d) 31) (map (entry s) [0..<63]) = Some (entry s i)"
    using assms(1) i unfolding distinct_names_def
    by (intro find_unique) (auto simp: same_prefix_def[of ?n ?n], blast)
  ultimately show ?thesis by simp
qed

section \<open>Reading item by item\<close>

text \<open>
  User programs read until a call returns 0: \<open>while (0 != (cnt = read (fd, buf, n)))\<close>. The
  items such a loop collects from a source that hands out one item per call; \<open>None\<close> when the
  calls allowed by \<open>fuel\<close> are used up.
\<close>

fun drain :: "('s \<Rightarrow> ('i option \<times> 's) outcome) \<Rightarrow> nat \<Rightarrow> 's \<Rightarrow> ('i list \<times> 's) outcome option" where
  "drain nxt 0 s = None"
| "drain nxt (Suc fuel) s =
     (case nxt s of
        Ret (None, s') \<Rightarrow> Some (Ret ([], s'))
      | Ret (Some x, s') \<Rightarrow>
          (case drain nxt fuel s' of
             Some (Ret (xs, s'')) \<Rightarrow> Some (Ret (x # xs, s''))
           | r \<Rightarrow> r)
      | Hang m \<Rightarrow> Some (Hang m)
      | Undef \<Rightarrow> Some Undef)"

locale item_source =
  fixes nxt :: "'s \<Rightarrow> ('i option \<times> 's) outcome" and todo :: "'s \<Rightarrow> 'i list" and ok :: "'s \<Rightarrow> bool"
    and at_end :: "'s \<Rightarrow> bool"
  assumes exhausted: "ok s \<Longrightarrow> todo s = [] \<Longrightarrow> \<exists>s'. nxt s = Ret (None, s') \<and> at_end s'"
    and item: "ok s \<Longrightarrow> todo s = x # xs \<Longrightarrow> \<exists>s'. nxt s = Ret (Some x, s') \<and> ok s' \<and> todo s' = xs"
begin

text \<open>The loop ends, after one call more than there are items, and has collected them all.\<close>

lemma drain_todo:
  "ok s \<Longrightarrow> length (todo s) < fuel \<Longrightarrow> \<exists>s'. drain nxt fuel s = Some (Ret (todo s, s')) \<and> at_end s'"
proof (induction fuel arbitrary: s)
  case (Suc fuel)
  show ?case
  proof (cases "todo s")
    case Nil
    with Suc.prems show ?thesis using exhausted[of s] by auto
  next
    case (Cons x xs)
    then obtain s' where s': "nxt s = Ret (Some x, s')" "ok s'" "todo s' = xs"
      using Suc.prems item by blast
    then have "\<exists>s''. drain nxt fuel s' = Some (Ret (xs, s'')) \<and> at_end s''"
      using Suc.IH[of s'] Suc.prems Cons by auto
    then show ?thesis using s' Cons by auto
  qed
qed simp

end

text \<open>The directory hands out one name per call.\<close>

definition next_name :: "u8 list \<times> 'a fs_scheme \<Rightarrow> (u8 list option \<times> u8 list \<times> 'a fs_scheme) outcome" where
  "next_name bs =
     obind (read_directory (fst bs) (snd bs)) (\<lambda>(cnt, b, s').
     Ret (if cnt = 0 then None else Some (take (nat cnt) b), b, s'))"

definition dir_name :: "'a fs_scheme \<Rightarrow> nat \<Rightarrow> u8 list" where
  "dir_name s i = cstr (fileName (entry s i))"

definition dir_names :: "'a fs_scheme \<Rightarrow> u8 list list" where
  "dir_names s = map (dir_name s) [0..<nat (sint (numDirectory s))]"

definition dir_ok :: "'a fs_scheme \<Rightarrow> bool" where
  "dir_ok s \<longleftrightarrow> 0 \<le> sint (numDirectory s) \<and> sint (numDirectory s) \<le> 63 \<and>
     (\<forall>i<63. terminated (fileName (entry s i)) \<and> (int i < sint (numDirectory s) \<longrightarrow> dir_name s i \<noteq> []))"

lemma entry_currentDirIndex [simp]: "entry (s\<lparr>currentDirIndex := i\<rparr>) = entry s"
  by (rule ext) (simp add: entry_def)

lemma numDirectory_currentDirIndex [simp]: "numDirectory (s\<lparr>currentDirIndex := i\<rparr>) = numDirectory s"
  by (simp add: numDirectory_def)

lemma dir_name_currentDirIndex [simp]: "dir_name (s\<lparr>currentDirIndex := i\<rparr>) = dir_name s"
  by (rule ext) (simp add: dir_name_def)

lemma dir_names_currentDirIndex [simp]: "dir_names (s\<lparr>currentDirIndex := i\<rparr>) = dir_names s"
  by (simp add: dir_names_def)

lemma dir_ok_currentDirIndex [simp]: "dir_ok (s\<lparr>currentDirIndex := i\<rparr>) = dir_ok s"
  by (simp add: dir_ok_def)

lemma read_directory_name:
  assumes "dir_ok s" "0 \<le> currentDirIndex s" "currentDirIndex s < sint (numDirectory s)" "32 \<le> length buf"
  defines "n \<equiv> dir_name s (nat (currentDirIndex s))"
  shows "read_directory buf s =
    Ret (int (length n), n @ 0 # drop (Suc (length n)) buf, s\<lparr>currentDirIndex := currentDirIndex s + 1\<rparr>)"
proof -
  let ?i = "nat (currentDirIndex s)"
  have i: "?i < 63" and t: "terminated (fileName (entry s ?i))"
    using assms(1-3) unfolding dir_ok_def by auto
  have "length n < length buf"
    using length_cstr_less[OF t] assms(4) unfolding n_def dir_name_def by simp
  then have "strcpy buf (fileName (entry s ?i)) = Ret (n @ 0 # drop (Suc (length n)) buf)"
    using strcpy_fits[OF t] by (simp add: n_def dir_name_def)
  moreover have "cstr (n @ 0 # drop (Suc (length n)) buf) = n"
    unfolding n_def dir_name_def by (rule cstr_split[OF cstr_no_NUL])
  ultimately show ?thesis
    using assms(2,3) i by (simp add: read_directory_def dir_Entries_entry strlen_eq terminated_split)
qed

lemma read_directory_end:
  "sint (numDirectory s) \<le> currentDirIndex s \<Longrightarrow> read_directory buf s = Ret (0, buf, s\<lparr>currentDirIndex := 0\<rparr>)"
  by (simp add: read_directory_def)

definition dir_todo :: "u8 list \<times> 'a fs_scheme \<Rightarrow> u8 list list" where
  "dir_todo bs = drop (nat (currentDirIndex (snd bs))) (dir_names (snd bs))"

definition dir_reading :: "u8 list \<times> 'a fs_scheme \<Rightarrow> bool" where
  "dir_reading bs \<longleftrightarrow> dir_ok (snd bs) \<and> 32 \<le> length (fst bs) \<and> 0 \<le> currentDirIndex (snd bs)"

interpretation directory: item_source next_name dir_todo dir_reading "\<lambda>bs. currentDirIndex (snd bs) = 0"
proof
  fix bs :: "u8 list \<times> 'a fs_scheme"
  assume ok: "dir_reading bs" and "dir_todo bs = []"
  then have "sint (numDirectory (snd bs)) \<le> currentDirIndex (snd bs)"
    by (auto simp: dir_todo_def dir_names_def dir_reading_def)
  then show "\<exists>s'. next_name bs = Ret (None, s') \<and> currentDirIndex (snd s') = 0"
    by (simp add: next_name_def read_directory_end)
next
  fix bs :: "u8 list \<times> 'a fs_scheme" and x xs
  obtain buf s where bs: "bs = (buf, s)" by (cases bs)
  assume ok: "dir_reading bs" and todo: "dir_todo bs = x # xs"
  let ?i = "currentDirIndex s" and ?n = "nat (sint (numDirectory s))"
  have pos: "0 \<le> ?i" and dok: "dir_ok s" and len: "32 \<le> length buf"
    using ok by (simp_all add: bs dir_reading_def)
  have "nat ?i < length (dir_names s)"
    using todo by (metis bs dir_todo_def drop_all list.distinct(1) not_le snd_conv)
  then have i: "nat ?i < ?n" by (simp add: dir_names_def)
  then have lt: "?i < sint (numDirectory s)" using pos by linarith
  have x: "x = dir_name s (nat ?i)" and xs: "xs = drop (Suc (nat ?i)) (dir_names s)"
    using todo i by (simp_all add: bs dir_todo_def dir_names_def Cons_nth_drop_Suc[symmetric])
  have "nat ?i < 63" using dok lt unfolding dir_ok_def by linarith
  then have "x \<noteq> []" using dok lt x pos unfolding dir_ok_def by auto
  moreover have "Suc (nat ?i) = nat (?i + 1)" using pos by simp
  ultimately show "\<exists>s'. next_name bs = Ret (Some x, s') \<and> dir_reading s' \<and> dir_todo s' = xs"
    using read_directory_name[OF dok pos lt len] pos dok len length_cstr_less
    by (simp add: next_name_def bs dir_reading_def dir_todo_def x xs)
qed

section \<open>What the file system depends on\<close>

text \<open>Lookups and reads depend on the image alone: memory and \<open>bootHead\<close>.\<close>

definition same_image :: "'a fs_scheme \<Rightarrow> 'b fs_scheme \<Rightarrow> bool" where
  "same_image s s' \<longleftrightarrow> mem s' = mem s \<and> bootHead s' = bootHead s"

lemma same_image_entry: "same_image s s' \<Longrightarrow> dir_Entries s' = dir_Entries s"
  by (rule ext) (simp add: same_image_def dir_Entries_def)

lemma same_image_find: "same_image s s' \<Longrightarrow> find_dentry s' t is = find_dentry s t is"
  by (induction "is") (simp_all add: same_image_entry cong: if_cong)

lemma same_image_lookup: "same_image s s' \<Longrightarrow> read_dentry_by_name f s' = read_dentry_by_name f s"
  by (simp add: read_dentry_by_name_def same_image_find)

lemma same_image_loop:
  "same_image s s' \<Longrightarrow> read_loop s' p n i b dp de buf = read_loop s p n i b dp de buf"
proof (induction n arbitrary: i b dp de buf)
  case (Suc n)
  have "dataBlock s' p k = dataBlock s p k" "block_ptr s' = block_ptr s" "mem s' = mem s" for k
    using Suc.prems by (auto simp: same_image_def dataBlock_def block_ptr_def numInode_def)
  with Suc show ?case by (simp cong: if_cong)
qed simp

lemma same_image_inode:
  assumes "same_image s s'"
  shows "get_inodeptr n s' = get_inodeptr n s" "inode_length s' p = inode_length s p"
    "file_bytes s' n = file_bytes s n" "valid_inode s' n = valid_inode s n" "file_size s' n = file_size s n"
  using assms by (simp_all add: same_image_def get_inodeptr_def inode_length_def file_bytes_def file_byte_def
    data_block_def block_ptr_def numInode_def file_size_def valid_inode_def cong: map_cong)

lemma same_image_read:
  assumes "same_image s s'"
  shows "read_data n off buf len s' = read_data n off buf len s"
proof -
  have "dataBlock s' p k = dataBlock s p k" "block_ptr s' = block_ptr s" "numInode s' = numInode s" for p k
    using assms by (auto simp: same_image_def dataBlock_def block_ptr_def numInode_def)
  then show ?thesis
    using assms by (simp add: read_data_def same_image_inode same_image_loop cong: if_cong)
qed

lemma same_image_open: "same_image s s' \<Longrightarrow> open_file f s' = open_file f s"
  by (simp add: open_file_def same_image_lookup)

section \<open>Properties\<close>

text \<open>
  A file system image with one directory entry, the regular file \<open>f\<close>: inode 0, 40 bytes in data
  block 0, an ELF header with the entry point 0x08048018.
\<close>

definition demo_image :: memory where
  "demo_image = (\<lambda>_. 0)(0 := 1, 4 := 1, 64 := 102, 96 := 2, 4096 := 40,
     8192 := 0x7f, 8193 := 0x45, 8194 := 0x4c, 8195 := 0x46, 8216 := 0x18, 8217 := 0x80, 8218 := 0x04, 8219 := 0x08)"

definition demo_fs :: fs where
  "demo_fs = \<lparr>mem = demo_image, io = [], screen_x = 0, screen_y = 0, bootHead = 0, currentDirIndex = 0\<rparr>"

lemma demo_image_gap: "64 < unat a \<Longrightarrow> unat a < 4096 \<Longrightarrow> unat a \<noteq> 96 \<Longrightarrow> demo_image a = 0"
  by (auto simp: demo_image_def)

lemma demo_fs_simps [simp]:
  "bootHead demo_fs = 0" "mem demo_fs = demo_image" "currentDirIndex demo_fs = 0"
  by (simp_all add: demo_fs_def)

lemma demo_numbers [simp]: "numInode demo_fs = 1" "numDirectory demo_fs = 1" "file_size demo_fs 0 = 40"
  by (simp_all add: numInode_def numDirectory_def file_size_def inode_length_def get_inodeptr_def le32_def demo_image_def)

lemma demo_valid_inode [simp]: "valid_inode demo_fs 0"
  by (simp add: valid_inode_def)

lemma demo_file_byte: "j < 40 \<Longrightarrow> file_byte demo_fs 0 j = demo_image (8192 + of_nat j)"
  by (simp add: file_byte_def data_block_def block_ptr_def get_inodeptr_def le32_def) (simp add: demo_image_def)

lemma demo_name_bytes:
  assumes "i < 63" "k < 32"
  shows "demo_image (64 + 64 * of_nat i + of_nat k) = (if i = 0 \<and> k = 0 then 102 else 0)"
proof -
  have a: "unat (64 + 64 * of_nat i + of_nat k :: u32) = 64 + 64 * i + k"
    using assms by (simp add: unat_word_ariths unat_of_nat)
  show ?thesis
  proof (cases "i = 0 \<and> k = 0")
    case False
    then have "64 < 64 + 64 * i + k" "64 + 64 * i + k < 4096" "64 + 64 * i + k \<noteq> 96" using assms by (auto; presburger)+
    with a False show ?thesis using demo_image_gap[of "64 + 64 * of_nat i + of_nat k"] by auto
  qed (simp add: demo_image_def)
qed

lemma demo_fileName: "i < 63 \<Longrightarrow> fileName (entry demo_fs i) = (if i = 0 then 102 else 0) # replicate 31 0"
  by (rule nth_equalityI) (simp_all add: entry_def mem_bytes_def demo_name_bytes nth_Cons split: nat.split)

lemma demo_entry_0: "fileType (entry demo_fs 0) = 2" "inodeNum (entry demo_fs 0) = 0"
  by (simp_all add: entry_def le32_def demo_image_def)

lemma demo_cstr: "cstr (102 # replicate n 0) = [102]" "cstr (0 # bs) = []"
  by (simp_all add: cstr_def)

lemma demo_terminated: "0 < n \<Longrightarrow> terminated (102 # replicate n 0)" "terminated (0 # bs)"
  by (simp_all add: terminated_def)

lemma demo_dir_ok: "dir_ok demo_fs"
  by (auto simp: dir_ok_def dir_name_def demo_fileName demo_cstr demo_terminated)

lemma demo_dir_names: "dir_names demo_fs = [[102]]"
  by (simp add: dir_names_def dir_name_def demo_fileName demo_cstr)

lemma demo_distinct: "distinct_names demo_fs"
  by (auto simp: distinct_names_def demo_fileName demo_cstr same_prefix_def replicate_Suc[of 31 0, simplified])

text \<open>
  C8: \<open>read_data\<close> of a well-formed file from a position inside it puts the next \<open>len\<close> bytes of the file,
  or what is left of it, at the start of the buffer, following the block list of the inode across
  data blocks, and returns their number; it writes past the buffer exactly when they do not fit.
\<close>

theorem read_data_reads:
  fixes s :: "'a fs_scheme"
  assumes "valid_inode s inode" "unat offset < file_size s inode" "len \<noteq> 0"
  defines "t \<equiv> take (unat len) (drop (unat offset) (file_bytes s inode))"
  shows "read_data inode offset (Some buf) len s =
    (if length t \<le> length buf then Ret (int (length t), Some (t @ drop (length t) buf)) else Undef)"
  using read_data_fits[OF assms(1-3)] read_data_overrun[OF assms(1-3), of buf] by (simp add: t_def not_le)

theorem read_data_reads_witness:
  "read_data 0 0 (Some [1, 1, 1, 1, 9]) 4 demo_fs = Ret (4, Some [0x7f, 0x45, 0x4c, 0x46, 9])"
proof -
  have "[0..<4] = [0, 1, 2, 3 :: nat]" by (simp add: upt_rec)
  then have "take 4 (file_bytes demo_fs 0) = [0x7f, 0x45, 0x4c, 0x46]"
    by (simp add: file_bytes_def take_map demo_file_byte) (simp add: demo_image_def)
  then show ?thesis using read_data_reads[of demo_fs 0 0 4 "[1, 1, 1, 1, 9]"] by simp
qed

text \<open>
  at the end of a file \<open>read_data\<close> returns 0, and elsewhere it returns \<open>-1\<close> for an inode number out
  of range, a NULL buffer or a length of 0; the buffer is untouched.
\<close>

lemma read_data_end_and_errors:
  "(unat offset = file_size s inode \<longrightarrow> read_data inode offset buf len s = Ret (0, buf)) \<and>
   (unat offset \<noteq> file_size s inode \<and> (inode \<ge> numInode s \<or> buf = None \<or> len = 0) \<longrightarrow>
      read_data inode offset buf len s = Ret (-1, buf))"
  using read_data_eof read_data_rejects by blast

lemma read_data_end_and_errors_witness:
  "read_data 0 40 (Some [7]) 1 demo_fs = Ret (0, Some [7]) \<and> read_data 1 1 (Some [7]) 1 demo_fs = Ret (-1, Some [7])"
proof -
  have "file_size demo_fs 1 = 0x464C457F"
    by (simp add: file_size_def inode_length_def get_inodeptr_def le32_def demo_image_def)
  then show ?thesis
    using read_data_end_and_errors[of 40 demo_fs 0 "Some [7]" 1] read_data_end_and_errors[of 1 demo_fs 1 "Some [7]" 1] by simp
qed

text \<open>
  \<open>read_dentry_by_name\<close> returns the first of the 63 directory entries whose name agrees with the
  argument in the first 31 bytes, and \<open>-1\<close> when there is none; a name of 32 or more characters
  overflows its 32-byte copy.
\<close>

lemma read_dentry_by_name_first:
  assumes "terminated fname"
  shows "read_dentry_by_name fname s =
    (if length (cstr fname) < 32
     then Ret (find (\<lambda>d. same_prefix fname (fileName d) 31) (map (entry s) [0..<63])) else Undef)"
  using read_dentry_by_name_find[OF assms, of s] read_dentry_by_name_overflow[OF assms, of s] by simp

lemma read_dentry_by_name_first_example:
  "read_dentry_by_name [102, 0] demo_fs = Ret (Some (entry demo_fs 0)) \<and>
   read_dentry_by_name (replicate 32 102 @ [0]) demo_fs = Undef"
proof -
  have "[0..<63] = 0 # [1..<63]" by (simp add: upt_conv_Cons)
  moreover have "same_prefix [102, 0] (fileName (entry demo_fs 0)) 31"
    by (simp add: demo_fileName demo_cstr same_prefix_def cstr_def)
  ultimately have "read_dentry_by_name [102, 0] demo_fs = Ret (Some (entry demo_fs 0))"
    using read_dentry_by_name_first[of "[102, 0]" demo_fs] by (simp add: terminated_def cstr_def)
  moreover have "read_dentry_by_name (replicate 32 102 @ [0]) demo_fs = Undef"
    using read_dentry_by_name_first[of "replicate 32 102 @ [0]" demo_fs]     by (simp add: terminated_def cstr_append)
  ultimately show ?thesis ..
qed

text \<open>
  In a directory without two equal names, looking up the name of an entry finds that entry.
\<close>

lemma read_dentry_by_name_roundtrip:
  assumes "distinct_names s" "i < 63" "terminated (fileName (entry s i))" "cstr (fileName (entry s i)) \<noteq> []"
  shows "read_dentry_by_name (fileName (entry s i)) s = Ret (Some (entry s i))"
  using assms by (rule read_dentry_by_name_own)

text \<open>
  Calling \<open>read_directory\<close> until it returns 0 yields the names of all directory entries in order,
  and leaves the directory position at the start, so that the next listing is complete again.
\<close>

lemma read_directory_lists:
  assumes "dir_ok s" "32 \<le> length buf" "currentDirIndex s = 0"
  shows "\<exists>b s'. drain next_name (Suc (length (dir_names s))) (buf, s) = Some (Ret (dir_names s, (b, s'))) \<and>
    currentDirIndex s' = 0"
  using directory.drain_todo[of "(buf, s)" "Suc (length (dir_names s))"] assms
  by (simp add: dir_todo_def dir_reading_def split_paired_Ex)

lemma read_directory_lists_example:
  "\<exists>b s'. drain next_name 2 (replicate 32 0, demo_fs) = Some (Ret ([[102]], (b, s'))) \<and> currentDirIndex s' = 0"
  using read_directory_lists[of demo_fs "replicate 32 0"] by (simp add: demo_dir_ok demo_dir_names numeral_2_eq_2)

end
