(* ===== verification/I8259.thy ===== *)
theory I8259
  imports File_System
begin

text \<open>
  The interrupt controllers and the interval timer of \<open>i8259.c\<close>: \<open>i8259_init\<close>, \<open>enable_irq\<close>,
  \<open>disable_irq\<close>, \<open>send_eoi\<close> and \<open>init_PIT\<close> as the port accesses they make. What a controller
  answers when its mask is read is an argument \<open>dev\<close>; the lemmas that need it assume that the data
  port reads back the mask written last. The handlers \<open>irq0\<close>, \<open>irq1\<close>, \<open>irq8\<close> and \<open>irq_handler\<close>
  call the rest of the kernel and are modelled with it.
\<close>

section \<open>Definitions\<close>

record pic = fs +
  master_mask :: u8
  slave_mask :: u8

abbreviation "PIC1_COMMAND \<equiv> (0x20 :: u16)"
abbreviation "PIC1_DATA \<equiv> (0x21 :: u16)"
abbreviation "PIC2_COMMAND \<equiv> (0xA0 :: u16)"
abbreviation "PIC2_DATA \<equiv> (0xA1 :: u16)"
abbreviation "EOI \<equiv> (0x60 :: u32)"
abbreviation "MAXPITFREQ \<equiv> (1193180 :: int)"

definition i8259_init :: "'a pic_scheme \<Rightarrow> 'a pic_scheme" where
  "i8259_init s =
     (let s1 = outb 0x01 PIC2_DATA (outb 0x01 PIC1_DATA (outb 0x02 PIC2_DATA (outb 0x04 PIC1_DATA
                 (outb 0x28 PIC2_DATA (outb 0x20 PIC1_DATA (outb 0x11 PIC2_COMMAND (outb 0x11 PIC1_COMMAND s)))))));
          s2 = s1\<lparr>master_mask := 0xFF, slave_mask := 0xFF\<rparr>
      in outb (slave_mask s2) PIC2_DATA (outb (master_mask s2) PIC1_DATA s2))"

text \<open>\<open>1 << n\<close> on the processor, which takes the count modulo 32, cut to a byte.\<close>

definition irq_bit :: "u32 \<Rightarrow> u8" where
  "irq_bit n = ucast (push_bit (unat (n mod 32)) 1 :: u32)"

function enable_irq :: "device \<Rightarrow> u32 \<Rightarrow> 'a machine_scheme \<Rightarrow> 'a machine_scheme" where
  "enable_irq dev irq_num s =
     (let (s1, port, n) = (if irq_num < 8 then (s, PIC1_DATA, irq_num)
                           else (enable_irq dev 2 s, PIC2_DATA, irq_num - 8));
          (m, s2) = inb dev port s1
      in outb (m AND NOT (irq_bit n)) port s2)"
  by pat_completeness auto
termination
  by (relation "measure (\<lambda>(dev, irq_num, s). if irq_num < 8 then 0 else 1)") auto

declare enable_irq.simps [simp del]

definition disable_irq :: "device \<Rightarrow> u32 \<Rightarrow> 'a machine_scheme \<Rightarrow> 'a machine_scheme" where
  "disable_irq dev irq_num s =
     (let (port, n) = (if irq_num < 8 then (PIC1_DATA, irq_num) else (PIC2_DATA, irq_num - 8));
          (m, s1) = inb dev port s
      in outb (m OR irq_bit n) port s1)"

definition send_eoi :: "u32 \<Rightarrow> 'a machine_scheme \<Rightarrow> 'a machine_scheme" where
  "send_eoi irq_num s =
     (if irq_num \<ge> 8
      then outb (ucast (EOI OR 2)) PIC1_COMMAND (outb (ucast (EOI OR (irq_num - 8))) PIC2_COMMAND s)
      else outb (ucast (EOI OR irq_num)) PIC1_COMMAND s)"

definition init_PIT :: "int \<Rightarrow> 'a machine_scheme \<Rightarrow> 'a machine_scheme" where
  "init_PIT hertz s =
     (if hertz > 0 \<and> hertz \<le> MAXPITFREQ
      then let divisor = word_of_int (cdiv MAXPITFREQ hertz) :: u32;
               lower = ucast (divisor AND 0xFF);
               upper = ucast (drop_bit 8 divisor AND 0xFF)
           in outb upper 0x40 (outb lower 0x40 (outb 0x36 0x43 s))
      else s)"

section \<open>The interrupt masks\<close>

text \<open>The byte last written to a port, and a controller whose mask can be read back.\<close>

fun last_out :: "u16 \<Rightarrow> io_event list \<Rightarrow> u8 option" where
  "last_out p [] = None"
| "last_out p (Out q d # evs) = (if p = q then Some d else last_out p evs)"
| "last_out p (_ # evs) = last_out p evs"

definition mask_latch :: "device \<Rightarrow> bool" where
  "mask_latch dev \<longleftrightarrow> (\<forall>evs v. (last_out PIC1_DATA evs = Some v \<longrightarrow> dev evs PIC1_DATA = v) \<and>
     (last_out PIC2_DATA evs = Some v \<longrightarrow> dev evs PIC2_DATA = v))"

text \<open>Both controllers have been given a mask, and the lines it lets through.\<close>

definition pic_ready :: "io_event list \<Rightarrow> bool" where
  "pic_ready evs \<longleftrightarrow> last_out PIC1_DATA evs \<noteq> None \<and> last_out PIC2_DATA evs \<noteq> None"

definition irq_enabled :: "io_event list \<Rightarrow> nat \<Rightarrow> bool" where
  "irq_enabled evs n =
     (if n < 8 then \<not> bit (the (last_out PIC1_DATA evs)) n
      else \<not> bit (the (last_out PIC2_DATA evs)) (n - 8))"

lemma i8259_init_masks:
  "pic_ready (io (i8259_init s)) \<and> (n < 16 \<longrightarrow> \<not> irq_enabled (io (i8259_init s)) n)"
proof -
  have "bit (0xFF :: u8) k" if "k < 8" for k
    using that by (simp add: bit_iff_odd less_Suc_eq numeral_eq_Suc drop_bit_eq_div) auto
  then show ?thesis by (auto simp: i8259_init_def Let_def pic_ready_def irq_enabled_def)
qed

lemma bit_irq_bit: "n < 8 \<Longrightarrow> bit (irq_bit (of_nat n)) k \<longleftrightarrow> k = n"
proof -
  assume n: "n < 8"
  then have "unat ((of_nat n :: u32) mod 32) = n"
    by (simp add: unat_mod unat_of_nat32)
  with n show ?thesis
    by (auto simp: irq_bit_def bit_unsigned_iff bit_push_bit_iff bit_1_iff bit_exp_iff possible_bit_def)
qed

lemma enable_master:
  assumes "n < 8"
  shows "enable_irq dev (of_nat n) s =
    outb (dev (io s) PIC1_DATA AND NOT (irq_bit (of_nat n))) PIC1_DATA (s\<lparr>io := In PIC1_DATA # io s\<rparr>)"
proof -
  have "(of_nat n :: u32) < 8" using assms by (simp add: word_less_nat_alt unat_of_nat32)
  then show ?thesis by (subst enable_irq.simps) (simp add: inb_def Let_def)
qed

lemma enable_slave:
  fixes dev :: device and s :: "'a machine_scheme"
  assumes "8 \<le> n" "n < 16"
  defines "s1 \<equiv> enable_irq dev 2 s"
  shows "enable_irq dev (of_nat n) s =
    outb (dev (io s1) PIC2_DATA AND NOT (irq_bit (of_nat (n - 8)))) PIC2_DATA (s1\<lparr>io := In PIC2_DATA # io s1\<rparr>)"
proof -
  have "\<not> (of_nat n :: u32) < 8" using assms by (simp add: word_less_nat_alt unat_of_nat32)
  moreover have "(of_nat n :: u32) - 8 = of_nat (n - 8)" using assms by (simp add: of_nat_diff)
  ultimately show ?thesis by (subst enable_irq.simps) (simp add: inb_def Let_def s1_def)
qed

lemma last_out_cases:
  "pic_ready evs \<Longrightarrow> \<exists>m1 m2. last_out PIC1_DATA evs = Some m1 \<and> last_out PIC2_DATA evs = Some m2"
  by (auto simp: pic_ready_def)

text \<open>
  Enabling a line lets it through, and line 2 with it if it is a line of the slave; every other
  line stays as it is. Disabling a line stops that line alone.
\<close>

lemma enable_irq_spec:
  assumes latch: "mask_latch dev" and ready: "pic_ready (io s)" and n: "n < 16"
  shows "pic_ready (io (enable_irq dev (of_nat n) s)) \<and>
    (\<forall>k<16. irq_enabled (io (enable_irq dev (of_nat n) s)) k \<longleftrightarrow>
       irq_enabled (io s) k \<or> k = n \<or> (8 \<le> n \<and> k = 2))"
proof -
  obtain m1 m2 where m: "last_out PIC1_DATA (io s) = Some m1" "last_out PIC2_DATA (io s) = Some m2"
    using last_out_cases[OF ready] by blast
  have master: "dev evs PIC1_DATA = v" if "last_out PIC1_DATA evs = Some v" for evs v
    using latch that unfolding mask_latch_def by blast
  have slave: "dev evs PIC2_DATA = v" if "last_out PIC2_DATA evs = Some v" for evs v
    using latch that unfolding mask_latch_def by blast
  show ?thesis
  proof (cases "n < 8")
    case True
    then show ?thesis using m master[OF m(1)]
      by (auto simp: enable_master pic_ready_def irq_enabled_def bit_and_iff bit_not_iff bit_irq_bit possible_bit_def)
  next
    case False
    have two: "enable_irq dev 2 s = outb (m1 AND NOT (irq_bit (of_nat 2))) PIC1_DATA (s\<lparr>io := In PIC1_DATA # io s\<rparr>)"
      using enable_master[of 2 dev s] master[OF m(1)] by simp
    have "last_out PIC2_DATA (io (enable_irq dev 2 s)) = Some m2" using m two by simp
    note sl = slave[OF this]
    show ?thesis using False n m two sl bit_irq_bit[of 2] bit_irq_bit[of "n - 8"]
      by (auto simp: enable_slave pic_ready_def irq_enabled_def bit_and_iff bit_not_iff possible_bit_def)
  qed
qed

lemma disable_irq_spec:
  assumes latch: "mask_latch dev" and ready: "pic_ready (io s)" and n: "n < 16"
  shows "pic_ready (io (disable_irq dev (of_nat n) s)) \<and>
    (\<forall>k<16. irq_enabled (io (disable_irq dev (of_nat n) s)) k \<longleftrightarrow> irq_enabled (io s) k \<and> k \<noteq> n)"
proof -
  obtain m1 m2 where m: "last_out PIC1_DATA (io s) = Some m1" "last_out PIC2_DATA (io s) = Some m2"
    using last_out_cases[OF ready] by blast
  have d: "dev (io s) PIC1_DATA = m1" "dev (io s) PIC2_DATA = m2"
    using latch m unfolding mask_latch_def by blast+
  have lt: "(of_nat n :: u32) < 8 \<longleftrightarrow> n < 8" using n by (simp add: word_less_nat_alt unat_of_nat32)
  have sub: "8 \<le> n \<Longrightarrow> (of_nat n :: u32) - 8 = of_nat (n - 8)" by (simp add: of_nat_diff)
  show ?thesis using n m d lt sub bit_irq_bit[of n] bit_irq_bit[of "n - 8"]
    by (cases "n < 8") (auto simp: disable_irq_def inb_def pic_ready_def irq_enabled_def bit_or_iff)
qed

section \<open>The timer\<close>

text \<open>
  The rate the timer is programmed to: the two bytes are the divisor, low byte first, whenever it
  has 16 bits, that is for frequencies of at least 19 Hz.
\<close>

lemma init_PIT_divisor:
  assumes "0 < hertz" "hertz \<le> MAXPITFREQ"
  shows "\<exists>lower upper. io (init_PIT hertz s) = Out 0x40 upper # Out 0x40 lower # Out 0x43 0x36 # io s \<and>
    256 * uint upper + uint lower = (MAXPITFREQ div hertz) mod 65536"
proof -
  let ?d = "word_of_int (MAXPITFREQ div hertz) :: u32"
  let ?l = "ucast (?d AND 0xFF) :: u8" and ?u = "ucast (drop_bit 8 ?d AND 0xFF) :: u8"
  have bound: "0 \<le> MAXPITFREQ div hertz" "MAXPITFREQ div hertz < 2 ^ 32"
    using assms div_by_1[of MAXPITFREQ] zdiv_mono2[of MAXPITFREQ 1 hertz]
    by (simp_all add: pos_imp_zdiv_nonneg_iff)
  then have d: "uint ?d = MAXPITFREQ div hertz"
    by (simp add: uint_word_of_int mod_pos_pos_trivial)
  have mask: "x AND 0xFF = x mod 256" for x :: u32
    using take_bit_eq_mask[of 8 x] by (simp add: mask_eq_exp_minus_1 take_bit_eq_mod)
  have l: "uint ?l = uint ?d mod 256"
    by (simp add: mask unsigned_ucast_eq take_bit_eq_mod uint_mod)
  have u: "uint ?u = uint ?d div 256 mod 256"
    by (simp add: mask unsigned_ucast_eq take_bit_eq_mod uint_mod uint_div drop_bit_eq_div)
  have "256 * uint ?u + uint ?l = uint ?d mod 65536"
    unfolding l u using zmod_zmult2_eq[of 256 "uint ?d" 256] by simp
  with d assms show ?thesis
    by (intro exI[of _ ?l] exI[of _ ?u]) (simp add: init_PIT_def Let_def cdiv_nonneg)
qed

section \<open>Properties\<close>

text \<open>A controller whose data ports read back the last mask written, and a machine to start from.\<close>

definition latched :: device where
  "latched evs p = (case last_out p evs of None \<Rightarrow> 0 | Some v \<Rightarrow> v)"

definition demo_pic :: pic where
  "demo_pic = fs.extend demo_fs (pic.fields 0 0)"

lemma mask_latch_latched: "mask_latch latched"
  by (simp add: mask_latch_def latched_def)

text \<open>
  with controllers that read back the mask they were given, once \<open>i8259_init\<close> has masked all 16
  lines, \<open>enable_irq\<close> unmasks the given line, and line 2 with it for a line of the slave, and
  \<open>disable_irq\<close> masks the given line; every other line stays as it was.
\<close>

lemma irq_lines:
  assumes "mask_latch dev" "pic_ready (io s)" "n < 16" "k < 16"
  shows "irq_enabled (io (enable_irq dev (of_nat n) s)) k = (irq_enabled (io s) k \<or> k = n \<or> (8 \<le> n \<and> k = 2)) \<and>
    irq_enabled (io (disable_irq dev (of_nat n) s)) k = (irq_enabled (io s) k \<and> k \<noteq> n) \<and>
    pic_ready (io (enable_irq dev (of_nat n) s)) \<and> pic_ready (io (disable_irq dev (of_nat n) s))"
  using enable_irq_spec[OF assms(1-3)] disable_irq_spec[OF assms(1-3)] assms(4) by simp

lemma irq_lines_witness:
  "irq_enabled (io (enable_irq latched 8 (i8259_init demo_pic))) 2 \<and>
   \<not> irq_enabled (io (enable_irq latched 8 (i8259_init demo_pic))) 1"
proof -
  have "pic_ready (io (i8259_init demo_pic))" "\<not> irq_enabled (io (i8259_init demo_pic)) 1"
    using i8259_init_masks[of demo_pic 1] by simp_all
  then show ?thesis
    using irq_lines[OF mask_latch_latched, of "i8259_init demo_pic" 8 2]
      irq_lines[OF mask_latch_latched, of "i8259_init demo_pic" 8 1] by simp
qed

text \<open>\<open>i8259_init\<close> leaves every one of the 16 lines masked.\<close>

lemma i8259_init_all_masked: "pic_ready (io (i8259_init s)) \<and> \<not> irq_enabled (io (i8259_init s)) (n mod 16)"
  using i8259_init_masks[of s "n mod 16"] by simp

text \<open>
  C40: \<open>init_PIT\<close> programs channel 0 for square waves and sends the divisor, low byte first; the two
  bytes give the divisor modulo 65536, so that frequencies of 18 Hz and less are not reached.
\<close>

theorem init_PIT_programs:
  assumes "0 < hertz" "hertz \<le> MAXPITFREQ"
  shows "\<exists>lower upper. io (init_PIT hertz s) = Out 0x40 upper # Out 0x40 lower # Out 0x43 0x36 # io s \<and>
    256 * uint upper + uint lower = (if 18 < hertz then MAXPITFREQ div hertz else (MAXPITFREQ div hertz) mod 65536)"
proof -
  have "MAXPITFREQ div hertz < 65536" if "18 < hertz"
    using zdiv_mono2[of MAXPITFREQ 19 hertz] that by simp
  moreover have "0 \<le> MAXPITFREQ div hertz" using assms by (simp add: pos_imp_zdiv_nonneg_iff)
  ultimately have "(MAXPITFREQ div hertz) mod 65536 = MAXPITFREQ div hertz" if "18 < hertz" using that by simp
  with init_PIT_divisor[OF assms, of s] show ?thesis by auto
qed

theorem init_PIT_programs_witness:
  "\<exists>lower upper. io (init_PIT 20 demo_pic) = Out 0x40 upper # Out 0x40 lower # Out 0x43 0x36 # io demo_pic \<and>
     256 * uint upper + uint lower = 59659"
  using init_PIT_programs[of 20 demo_pic] by simp

end
