(* ===== verification/Rtc.thy ===== *)
theory Rtc
  imports I8259
begin

text \<open>
  The real-time clock driver of \<open>rtc.c\<close>: \<open>rtc_write\<close> programs the periodic rate, \<open>rtc_read\<close>
  waits for the next clock interrupt, \<open>rtc_interrupt\<close> is the interrupt's handler. The clock's
  registers are read through the argument \<open>dev\<close>. \<open>rtc_read\<close> spins on a flag that only the handler
  sets: its argument \<open>ticks\<close> says, for each turn of the spin loop, whether a clock interrupt comes
  in during it, and \<open>None\<close> is a call that is still waiting when \<open>ticks\<close> ends. Interrupts of other devices do
  not touch the flag and are left out of this wait.
\<close>

section \<open>Definitions\<close>

record rtc = pic +
  rtc_interrupt_flag :: int

abbreviation "RTC_ADDR \<equiv> (0x70 :: u16)"
abbreviation "CMOS_ADDR \<equiv> (0x71 :: u16)"
abbreviation "SEL_REGA \<equiv> (0x8A :: u8)"
abbreviation "SEL_REGB \<equiv> (0x8B :: u8)"
abbreviation "SEL_REGC \<equiv> (0x8C :: u8)"

lemma two_power_32: "(2 :: u32) ^ 32 = 0"
  using word_exp_length_eq_0[where 'a = 32] by (simp del: power_numeral)

lemma two_power_over: "32 \<le> j \<Longrightarrow> (2 :: u32) ^ j = 0"
  by (metis le_add_diff_inverse mult_zero_left power_add two_power_32)

lemma shift_ends:
  fixes msk :: u32
  assumes "msk \<noteq> 0"
  shows "(LEAST n. msk * 2 * 2 ^ n = 0) < (LEAST n. msk * 2 ^ n = 0)"
proof -
  let ?L = "LEAST n. msk * 2 ^ n = 0"
  have "msk * 2 ^ 32 = 0" by (simp only: two_power_32 mult_zero_right)
  then have L: "msk * 2 ^ ?L = 0" by (rule LeastI)
  then obtain l where l: "?L = Suc l" using assms by (cases ?L) auto
  then have "msk * 2 * 2 ^ l = 0" using L by (simp add: mult.assoc)
  then have "(LEAST n. msk * 2 * 2 ^ n = 0) \<le> l" by (rule Least_le)
  with l show ?thesis by linarith
qed

function rate_loop :: "u32 \<Rightarrow> u32 \<Rightarrow> u32 \<Rightarrow> u32 \<times> u32" where
  "rate_loop msk divd freq =
     (if msk \<noteq> 0
      then (if msk = freq then (msk, divd - 1) else rate_loop (push_bit 1 msk) (divd - 1) freq)
      else (msk, divd))"
  by pat_completeness auto
termination
  by (relation "measure (\<lambda>(msk, divd, freq). LEAST n. msk * 2 ^ n = 0)") (auto simp: shift_ends)

declare rate_loop.simps [simp del]

definition rtc_write :: "device \<Rightarrow> int \<Rightarrow> int \<Rightarrow> 'a machine_scheme \<Rightarrow> int \<times> 'a machine_scheme" where
  "rtc_write dev fd freq s =
     (if freq > 1024 \<or> freq \<le> 0 then (-1, s)
      else let (msk, divd) = rate_loop 1 16 (word_of_int freq)
           in if msk \<noteq> word_of_int freq then (-1, s)
              else let s1 = outb SEL_REGA RTC_ADDR (cli s);
                       (prev, s2) = inb dev CMOS_ADDR s1;
                       s3 = outb SEL_REGA RTC_ADDR s2;
                       prev = prev AND 0xF0;
                       s4 = outb (ucast (ucast prev OR (divd - 1))) CMOS_ADDR s3;
                       s5 = outb SEL_REGB RTC_ADDR s4;
                       (prev, s6) = inb dev CMOS_ADDR s5;
                       s7 = outb SEL_REGB RTC_ADDR s6;
                       s8 = outb (prev OR 0x40) CMOS_ADDR s7
                   in (0, sti s8))"

definition rtc_open :: "device \<Rightarrow> u8 list \<Rightarrow> 'a machine_scheme \<Rightarrow> int \<times> 'a machine_scheme" where
  "rtc_open dev filename s = rtc_write dev 0 2 s"

definition rtc_close :: "int \<Rightarrow> int" where
  "rtc_close fd = 0"

definition rtc_interrupt :: "device \<Rightarrow> 'a rtc_scheme \<Rightarrow> 'a rtc_scheme" where
  "rtc_interrupt dev s =
     (let s1 = outb SEL_REGC RTC_ADDR s;
          (v, s2) = inb dev CMOS_ADDR s1
      in s2\<lparr>rtc_interrupt_flag := 1\<rparr>)"

text \<open>The handler as \<open>irq_handler\<close> calls it, which sends the end of the interrupt.\<close>

definition rtc_irq :: "device \<Rightarrow> 'a rtc_scheme \<Rightarrow> 'a rtc_scheme" where
  "rtc_irq dev s = send_eoi 8 (rtc_interrupt dev s)"

fun rtc_read :: "device \<Rightarrow> bool list \<Rightarrow> 'a rtc_scheme \<Rightarrow> (int \<times> 'a rtc_scheme) option" where
  "rtc_read dev [] s =
     (if rtc_interrupt_flag s \<noteq> 0 then Some (0, s\<lparr>rtc_interrupt_flag := 0\<rparr>) else None)"
| "rtc_read dev (tick # ticks) s =
     (if rtc_interrupt_flag s \<noteq> 0 then Some (0, s\<lparr>rtc_interrupt_flag := 0\<rparr>)
      else rtc_read dev ticks (if tick then rtc_irq dev s else s))"

section \<open>The programmed rate\<close>

text \<open>
  The loop looks for the power of two; the divider starts at 16 and falls by one per turn.
\<close>

lemma pow2_uint: "k < 32 \<Longrightarrow> uint (2 ^ k :: u32) = 2 ^ k"
proof -
  assume k: "k < 32"
  then have "(2 :: int) ^ k < 2 ^ 32" by (intro power_strict_increasing) auto
  then have "(2 :: int) ^ k mod 2 ^ 32 = 2 ^ k" by (intro mod_pos_pos_trivial) auto
  moreover have "uint (2 ^ k :: u32) = uint (word_of_int (2 ^ k) :: u32)" by simp
  ultimately show ?thesis by (simp add: uint_word_of_int del: of_int_power)
qed

lemma pow2_eq: "j < 32 \<Longrightarrow> k < 32 \<Longrightarrow> (2 ^ j :: u32) = 2 ^ k \<longleftrightarrow> j = k"
  using pow2_uint[of j] pow2_uint[of k] by (metis one_less_numeral_iff power_inject_exp semiring_norm(76))

lemma pow2_nonzero: "k < 32 \<Longrightarrow> (2 ^ k :: u32) \<noteq> 0"
  using pow2_uint[of k] by auto

lemma rate_loop_run:
  assumes "j \<le> k" "k < 32"
  shows "rate_loop (2 ^ j) (16 - of_nat j) (2 ^ k) = (2 ^ k, 15 - of_nat k)"
  using assms
proof (induction "k - j" arbitrary: j)
  case 0
  then have "j = k" by simp
  then show ?case using 0 pow2_nonzero[of k] by (subst rate_loop.simps) simp
next
  case (Suc d)
  then have jk: "j < k" by simp
  have "rate_loop (2 ^ Suc j) (16 - of_nat (Suc j)) (2 ^ k) = (2 ^ k, 15 - of_nat k)"
    using Suc jk by (intro Suc.hyps(1)) auto
  moreover have "(16 :: u32) - of_nat j - 1 = 16 - of_nat (Suc j)" "push_bit 1 (2 ^ j :: u32) = 2 ^ Suc j"
    by simp_all
  moreover have "(2 ^ j :: u32) \<noteq> 0" "(2 ^ j :: u32) \<noteq> 2 ^ k"
    using jk Suc.prems pow2_nonzero[of j] pow2_eq[of j k] by auto
  ultimately show ?case by (subst rate_loop.simps) (simp only: if_True if_False simp_thms)
qed

lemma rate_loop_miss:
  "\<forall>k<32. freq \<noteq> 2 ^ k \<Longrightarrow> fst (rate_loop (2 ^ j) divd freq) = 0"
proof (induction "32 - j" arbitrary: j divd)
  case 0
  then have "(2 ^ j :: u32) = 0" by (intro two_power_over) simp
  then show ?case by (subst rate_loop.simps) simp
next
  case (Suc d)
  then have "fst (rate_loop (2 ^ Suc j) (divd - 1) freq) = 0" by (intro Suc.hyps(1)) auto
  moreover have "push_bit 1 (2 ^ j :: u32) = 2 ^ Suc j" by simp
  moreover have "j < 32" using Suc.hyps(2) by simp
  then have "2 ^ j \<noteq> freq" using Suc.prems by auto
  ultimately show ?case by (subst rate_loop.simps) (simp add: mult.commute)
qed

text \<open>
  Exactly the powers of two from 1 to 1024 are accepted. For \<open>2 ^ k\<close> the rate bits of register A
  become \<open>14 - k\<close>, its upper half is kept, and the periodic interrupt is switched on in register B.
\<close>

lemma rtc_write_accepts:
  fixes dev :: device and s :: "'a machine_scheme"
  assumes "k \<le> 10"
  defines "regA \<equiv> dev (Out RTC_ADDR SEL_REGA # Cli # io s) CMOS_ADDR"
  shows "\<exists>regB. rtc_write dev fd (2 ^ k) s =
    (0, s\<lparr>io := Sti # Out CMOS_ADDR (regB OR 0x40) # Out RTC_ADDR SEL_REGB # In CMOS_ADDR # Out RTC_ADDR SEL_REGB #
      Out CMOS_ADDR ((regA AND 0xF0) OR of_nat (14 - k)) # Out RTC_ADDR SEL_REGA # In CMOS_ADDR #
      Out RTC_ADDR SEL_REGA # Cli # io s\<rparr>)"
proof -
  have range: "\<not> ((2 :: int) ^ k > 1024 \<or> (2 :: int) ^ k \<le> 0)"
    using power_increasing[of k 10 "2 :: int"] assms(1) by simp
  have w: "word_of_int (2 ^ k) = (2 ^ k :: u32)" by simp
  have loop: "rate_loop 1 16 (2 ^ k) = (2 ^ k, 15 - of_nat k)"
    using rate_loop_run[of 0 k] assms(1) by simp
  have "ucast (ucast a OR b :: u32) = a OR ucast b" for a :: u8 and b :: u32
    by (rule bit_word_eqI) (auto simp: bit_or_iff bit_unsigned_iff)
  moreover have "ucast (of_nat (14 - k) :: u32) = (of_nat (14 - k) :: u8)"
    by (rule bit_word_eqI) (auto simp: bit_unsigned_iff bit_of_nat_iff possible_bit_def)
  moreover have "(14 - of_nat k :: u32) = of_nat (14 - k)" using assms(1) by (simp add: of_nat_diff)
  ultimately have div: "ucast (ucast a OR (14 - of_nat k) :: u32) = a OR (of_nat (14 - k) :: u8)" for a :: u8
    by simp
  have e: "(15 - of_nat k :: u32) - 1 = 14 - of_nat k" by simp
  show ?thesis unfolding rtc_write_def w loop Let_def regA_def
    using range by (simp add: port_defs e div del: of_nat_diff) (rule exI, rule refl)
qed

lemma rtc_write_rejects:
  assumes "\<forall>k\<le>10. freq \<noteq> 2 ^ k"
  shows "rtc_write dev fd freq s = (-1, s)"
proof (cases "freq > 1024 \<or> freq \<le> 0")
  case False
  have u: "uint (word_of_int freq :: u32) = freq"
    using False by (simp add: uint_word_of_int mod_pos_pos_trivial)
  have "word_of_int freq \<noteq> (2 ^ k :: u32)" if "k < 32" for k
  proof
    assume "word_of_int freq = (2 ^ k :: u32)"
    then have f: "freq = 2 ^ k" using u pow2_uint[OF that] by metis
    then have "(2 :: int) ^ k \<le> 2 ^ 10" using False by simp
    then have "k \<le> 10" by (simp only: power_increasing_iff[of "2 :: int"])
    with assms f show False by blast
  qed
  then have "fst (rate_loop (2 ^ 0) 16 (word_of_int freq)) = 0" by (intro rate_loop_miss) auto
  moreover have "word_of_int freq \<noteq> (0 :: u32)" using u False by auto
  ultimately show ?thesis by (auto simp: rtc_write_def split: prod.splits)
qed (simp add: rtc_write_def)

text \<open>The periodic interrupt of rate \<open>r\<close> (3 to 15) comes \<open>32768 / 2 ^ (r - 1)\<close> times a second.\<close>

definition periodic_hz :: "nat \<Rightarrow> nat" where
  "periodic_hz r = 32768 div 2 ^ (r - 1)"

lemma periodic_hz_rate: "k \<le> 10 \<Longrightarrow> periodic_hz (14 - k) = 4 * 2 ^ k"
proof -
  assume k: "k \<le> 10"
  then have "(2 :: nat) ^ 15 = 2 ^ (14 - k - 1) * 2 ^ (k + 2)"
    by (subst power_add[symmetric], intro arg_cong[where f = "power 2"]) simp
  then have "(32768 :: nat) = 2 ^ (14 - k - 1) * (4 * 2 ^ k)" by (simp add: power_add mult.commute)
  then show ?thesis unfolding periodic_hz_def by (simp only:) simp
qed

section \<open>Waiting for the clock\<close>

lemma rtc_interrupt_flag_set [simp]: "rtc_interrupt_flag (rtc_interrupt dev s) = 1"
  by (simp add: rtc_interrupt_def inb_def Let_def)

lemma rtc_irq_flag [simp]: "rtc_interrupt_flag (rtc_irq dev s) = 1"
  by (simp add: rtc_irq_def send_eoi_def outb_def)

lemma rtc_read_pending:
  "rtc_interrupt_flag s \<noteq> 0 \<Longrightarrow> rtc_read dev ticks s = Some (0, s\<lparr>rtc_interrupt_flag := 0\<rparr>)"
  by (cases ticks) simp_all

text \<open>
  With no interrupt pending the call returns when the first interrupt has come in, having
  acknowledged it, and not before.
\<close>

lemma rtc_read_waits:
  "rtc_interrupt_flag s = 0 \<Longrightarrow>
     rtc_read dev ticks s =
       (if True \<in> set ticks then Some (0, (rtc_irq dev s)\<lparr>rtc_interrupt_flag := 0\<rparr>) else None)"
  by (induction ticks) (auto simp: rtc_read_pending)

section \<open>Properties\<close>

definition demo_rtc :: rtc where
  "demo_rtc = pic.extend demo_pic (rtc.fields 0)"

text \<open>
  \<open>rtc_write\<close> accepts the powers of two from 1 to 1024. It then rewrites the rate bits of
  register A, keeping its upper half, and turns periodic interrupts on, all with interrupts off;
  the rate it selects makes the chip interrupt at four times the requested frequency.
\<close>

lemma rtc_write_rate:
  fixes dev :: device and s :: "'a machine_scheme"
  assumes "k \<le> 10"
  defines "regA \<equiv> dev (Out RTC_ADDR SEL_REGA # Cli # io s) CMOS_ADDR"
  shows "\<exists>regB. rtc_write dev fd (2 ^ k) s =
    (0, s\<lparr>io := Sti # Out CMOS_ADDR (regB OR 0x40) # Out RTC_ADDR SEL_REGB # In CMOS_ADDR # Out RTC_ADDR SEL_REGB #
      Out CMOS_ADDR ((regA AND 0xF0) OR of_nat (14 - k)) # Out RTC_ADDR SEL_REGA # In CMOS_ADDR #
      Out RTC_ADDR SEL_REGA # Cli # io s\<rparr>) \<and> periodic_hz (14 - k) = 4 * 2 ^ k"
  using rtc_write_accepts[OF assms(1), of dev fd s] periodic_hz_rate[OF assms(1)] unfolding regA_def by blast

lemma rtc_write_rate_example:
  "\<exists>regB. rtc_write (\<lambda>_ _. 0x26) 2 2 demo_rtc =
    (0, demo_rtc\<lparr>io := Sti # Out CMOS_ADDR (regB OR 0x40) # Out RTC_ADDR SEL_REGB # In CMOS_ADDR # Out RTC_ADDR SEL_REGB #
      Out CMOS_ADDR 0x2D # Out RTC_ADDR SEL_REGA # In CMOS_ADDR #
      Out RTC_ADDR SEL_REGA # Cli # io demo_rtc\<rparr>) \<and> periodic_hz 13 = 8"
  using rtc_write_rate[of 1 "\<lambda>_ _. 0x26" 2 demo_rtc] by simp

text \<open>Every other frequency, zero and negative ones included, is refused with \<open>-1\<close> before any device access.\<close>

lemma rtc_write_refuses:
  assumes "\<forall>k\<le>10. freq \<noteq> 2 ^ k"
  shows "rtc_write dev fd freq s = (-1, s)"
  using assms by (rule rtc_write_rejects)

text \<open>
  C39: \<open>rtc_read\<close> returns 0 with the flag cleared at once when an interrupt is pending, and otherwise at
  the first clock interrupt that comes in, having acknowledged it to the clock and to the interrupt controllers; without one it keeps waiting.
\<close>

theorem rtc_read_returns:
  "rtc_read dev ticks s =
    (if rtc_interrupt_flag s \<noteq> 0 then Some (0, s\<lparr>rtc_interrupt_flag := 0\<rparr>)
     else if True \<in> set ticks then Some (0, (rtc_irq dev s)\<lparr>rtc_interrupt_flag := 0\<rparr>) else None)"
  by (simp add: rtc_read_pending rtc_read_waits)

end
