(* ===== verification/Paging.thy ===== *)
theory Paging
  imports Rtc
begin

text \<open>
  The page directories and tables of \<open>paging.c\<close>. Number 0 is the kernel's \<open>page_directory\<close> and
  \<open>page1_table\<close>, numbers 1 to 6 those of the six programs. Where the linker places table \<open>t\<close> is the
  argument \<open>pt_addr t\<close>; the declarations align it to 4 KB. \<open>cr3\<close> names the directory in use.
  \<open>translate\<close> is the processor's page walk, used to state what the tables grant.
\<close>

section \<open>Definitions\<close>

datatype pdir = Page_directory nat | No_directory

record paging = rtc +
  page_directories :: "nat \<Rightarrow> nat \<Rightarrow> u32"
  page1_tables :: "nat \<Rightarrow> nat \<Rightarrow> u32"
  cr0 :: u32
  cr3 :: pdir
  cr4 :: u32

abbreviation "VIDEO_MEM \<equiv> (0xB8000 :: u32)"
abbreviation "KERNEL_MEM \<equiv> (0x400000 :: u32)"
abbreviation "PRESENT \<equiv> (0x01 :: u32)"
abbreviation "READ_WRITE \<equiv> (0x02 :: u32)"
abbreviation "USER_SV \<equiv> (0x04 :: u32)"
abbreviation "SIZE_4MB \<equiv> (0x80 :: u32)"
abbreviation "PSE_EN \<equiv> (0x10 :: u32)"
abbreviation "PAGING_EN \<equiv> (0x80000000 :: u32)"
abbreviation "VIDEO_PAGE \<equiv> (184 :: nat)"

text \<open>The 4 MB of each program, as \<open>paging_initialize\<close> lists them.\<close>

definition program_mem :: "nat \<Rightarrow> u32" where
  "program_mem t = [0x800000, 0xC00000, 0x1000000, 0x1400000, 0x1800000, 0x1C00000] ! (t - 1)"

definition init_directory :: "(nat \<Rightarrow> u32) \<Rightarrow> nat \<Rightarrow> nat \<Rightarrow> u32" where
  "init_directory pt_addr t =
     (let d = (\<lambda>i. 0)(0 := pt_addr t OR PRESENT OR READ_WRITE OR USER_SV, 1 := KERNEL_MEM OR SIZE_4MB OR PRESENT)
      in if t = 0 then d
         else d(32 := program_mem t OR SIZE_4MB OR PRESENT OR USER_SV OR READ_WRITE))"

definition init_table :: "nat \<Rightarrow> nat \<Rightarrow> u32" where
  "init_table t =
     (\<lambda>i. 0)(VIDEO_PAGE := (if t = 0 then VIDEO_MEM OR PRESENT OR USER_SV
                            else VIDEO_MEM OR PRESENT OR USER_SV OR READ_WRITE))"

definition paging_initialize :: "(nat \<Rightarrow> u32) \<Rightarrow> 'a paging_scheme \<Rightarrow> 'a paging_scheme" where
  "paging_initialize pt_addr s =
     s\<lparr>cr4 := cr4 s OR PSE_EN,
       page_directories := (\<lambda>t i. if t \<le> 6 \<and> i < 1024 then init_directory pt_addr t i else page_directories s t i),
       page1_tables := (\<lambda>t i. if t \<le> 6 \<and> i < 1024 then init_table t i else page1_tables s t i),
       cr3 := Page_directory 0,
       cr0 := cr0 s OR PAGING_EN\<rparr>"

definition set_video_entry :: "nat \<Rightarrow> u32 \<Rightarrow> 'a paging_scheme \<Rightarrow> 'a paging_scheme" where
  "set_video_entry t e s =
     s\<lparr>page1_tables := (page1_tables s)(t := (page1_tables s t)(VIDEO_PAGE := e))\<rparr>"

definition video_mapping :: "int \<Rightarrow> 'a paging_scheme \<Rightarrow> 'a paging_scheme" where
  "video_mapping program_id s =
     (if program_id \<in> {1, 2, 3, 4, 5, 6}
      then set_video_entry (nat program_id) (VIDEO_MEM OR PRESENT OR USER_SV OR READ_WRITE) s
      else s)"

definition term_buffer :: "int \<Rightarrow> u32" where
  "term_buffer term = (if term = 0 then 0x600000 else if term = 1 then 0x601000 else 0x602000)"

definition non_video_mapping :: "int \<Rightarrow> int \<Rightarrow> 'a paging_scheme \<Rightarrow> 'a paging_scheme" where
  "non_video_mapping program_id term s =
     (if program_id \<in> {1, 2, 3, 4, 5, 6} \<and> term \<in> {0, 1, 2}
      then set_video_entry (nat program_id) (term_buffer term OR PRESENT OR USER_SV OR READ_WRITE) s
      else s)"

section \<open>What the tables grant\<close>

definition permits :: "bool \<Rightarrow> bool \<Rightarrow> u32 \<Rightarrow> bool" where
  "permits user write e \<longleftrightarrow> e AND PRESENT \<noteq> 0 \<and>
     (user \<longrightarrow> e AND USER_SV \<noteq> 0 \<and> (write \<longrightarrow> e AND READ_WRITE \<noteq> 0))"

definition table_at :: "(nat \<Rightarrow> u32) \<Rightarrow> 'a paging_scheme \<Rightarrow> u32 \<Rightarrow> (nat \<Rightarrow> u32) option" where
  "table_at pt_addr s base = map_option (page1_tables s) (find (\<lambda>t. pt_addr t = base) [0..<7])"

definition dir_index :: "u32 \<Rightarrow> nat" where
  "dir_index la = unat (drop_bit 22 la)"

definition table_index :: "u32 \<Rightarrow> nat" where
  "table_index la = unat (drop_bit 12 la AND 0x3FF)"

definition translate :: "(nat \<Rightarrow> u32) \<Rightarrow> 'a paging_scheme \<Rightarrow> nat \<Rightarrow> bool \<Rightarrow> bool \<Rightarrow> u32 \<Rightarrow> u32 option" where
  "translate pt_addr s t user write la =
     (let pde = page_directories s t (dir_index la)
      in if \<not> permits user write pde then None
         else if pde AND SIZE_4MB \<noteq> 0 then Some ((pde AND 0xFFC00000) OR (la AND 0x3FFFFF))
         else case table_at pt_addr s (pde AND 0xFFFFF000) of
                None \<Rightarrow> None
              | Some table \<Rightarrow>
                  let pte = table (table_index la)
                  in if \<not> permits user write pte then None
                     else Some ((pte AND 0xFFFFF000) OR (la AND 0xFFF)))"

text \<open>The tables lie at different 4 KB boundaries.\<close>

definition placed :: "(nat \<Rightarrow> u32) \<Rightarrow> bool" where
  "placed pt_addr \<longleftrightarrow> inj_on pt_addr {0..<7} \<and> (\<forall>t<7. pt_addr t AND 0xFFF = 0)"

text \<open>
  The directories and tables agree with what \<open>paging_initialize\<close> sets up, except for the frame the
  video page of a program is mapped to: the screen, or the memory of a terminal that is not shown.
\<close>

definition video_frame :: "u32 \<Rightarrow> bool" where
  "video_frame f \<longleftrightarrow> f \<in> {VIDEO_MEM, 0x600000, 0x601000, 0x602000}"

definition tables_ok :: "(nat \<Rightarrow> u32) \<Rightarrow> 'a paging_scheme \<Rightarrow> bool" where
  "tables_ok pt_addr s \<longleftrightarrow>
     (\<forall>t\<le>6. \<forall>i<1024. page_directories s t i = init_directory pt_addr t i) \<and>
     (\<forall>t\<le>6. \<forall>i<1024. i \<noteq> VIDEO_PAGE \<longrightarrow> page1_tables s t i = 0) \<and>
     page1_tables s 0 VIDEO_PAGE = (VIDEO_MEM OR PRESENT OR USER_SV) \<and>
     (\<forall>t. 1 \<le> t \<and> t \<le> 6 \<longrightarrow> (\<exists>f. video_frame f \<and>
        page1_tables s t VIDEO_PAGE = (f OR PRESENT OR USER_SV OR READ_WRITE)))"

lemma paging_initialize_ok: "tables_ok pt_addr (paging_initialize pt_addr s)"
proof -
  let ?s = "paging_initialize pt_addr s"
  have d: "page_directories ?s t i = init_directory pt_addr t i" if "t \<le> 6" "i < 1024" for t i
    using that by (simp add: paging_initialize_def)
  have p: "page1_tables ?s t i = init_table t i" if "t \<le> 6" "i < 1024" for t i
    using that by (simp add: paging_initialize_def)
  have "\<exists>f. video_frame f \<and> page1_tables ?s t VIDEO_PAGE = (f OR PRESENT OR USER_SV OR READ_WRITE)"
    if "1 \<le> t" "t \<le> 6" for t
    using that p[of t VIDEO_PAGE] by (intro exI[of _ VIDEO_MEM]) (simp add: init_table_def video_frame_def)
  then have v: "\<forall>t. 1 \<le> t \<and> t \<le> 6 \<longrightarrow> (\<exists>f. video_frame f \<and>
      page1_tables ?s t VIDEO_PAGE = (f OR PRESENT OR USER_SV OR READ_WRITE))" by blast
  show ?thesis unfolding tables_ok_def
    by (intro conjI v allI impI) (simp_all add: d p init_table_def)
qed

lemma set_video_entry_ok:
  assumes ok: "tables_ok pt_addr s" and t: "1 \<le> t" "t \<le> 6" and f: "video_frame f"
  shows "tables_ok pt_addr (set_video_entry t (f OR PRESENT OR USER_SV OR READ_WRITE) s)"
proof -
  let ?e = "f OR PRESENT OR USER_SV OR READ_WRITE"
  have dirs: "page_directories (set_video_entry t ?e s) = page_directories s"
    by (simp add: set_video_entry_def)
  have tabs: "page1_tables (set_video_entry t ?e s) u i = (if u = t \<and> i = VIDEO_PAGE then ?e else page1_tables s u i)" for u i
    by (simp add: set_video_entry_def)
  show ?thesis using ok t f unfolding tables_ok_def dirs tabs by auto
qed

lemma video_mapping_ok:
  assumes "tables_ok pt_addr s"
  shows "tables_ok pt_addr (video_mapping p s)"
proof (cases "p \<in> {1, 2, 3, 4, 5, 6}")
  case True
  then have "1 \<le> nat p" "nat p \<le> 6" by auto
  with assms True show ?thesis unfolding video_mapping_def
    by (simp only: if_True) (rule set_video_entry_ok, simp_all add: video_frame_def)
qed (use assms in \<open>simp add: video_mapping_def\<close>)

lemma non_video_mapping_ok:
  assumes "tables_ok pt_addr s"
  shows "tables_ok pt_addr (non_video_mapping p term s)"
proof (cases "p \<in> {1, 2, 3, 4, 5, 6} \<and> term \<in> {0, 1, 2}")
  case True
  then have "1 \<le> nat p" "nat p \<le> 6" by auto
  with assms True show ?thesis unfolding non_video_mapping_def
    by (simp only: if_True simp_thms) (rule set_video_entry_ok, simp_all add: video_frame_def term_buffer_def)
qed (use assms in \<open>auto simp: non_video_mapping_def\<close>)

lemma dir_index_less: "dir_index la < 1024"
  unfolding dir_index_def using unat_lt32[of la]
  by (simp add: drop_bit_eq_div unat_div less_mult_imp_div_less)

lemma table_index_less: "table_index la < 1024"
proof -
  have "drop_bit 12 la AND 0x3FF \<le> 0x3FF" by (rule word_and_le1)
  then show ?thesis by (simp add: table_index_def word_le_nat_alt)
qed

lemma aligned_bits:
  fixes x :: u32
  assumes "x AND 0xFFF = 0"
  shows "(x OR 7) AND 0xFFFFF000 = x" "(x OR 7) AND 1 = 1" "(x OR 7) AND 2 = 2" "(x OR 7) AND 4 = 4"
    "(x OR 7) AND 0x80 = 0"
proof -
  have low: "x AND k = 0" if "k AND 0xFFF = k" for k :: u32
  proof -
    have "x AND k = x AND (0xFFF AND k)" using that by (simp only: and.commute)
    also have "\<dots> = (x AND 0xFFF) AND k" by (simp only: and.assoc)
    finally show ?thesis using assms by simp
  qed
  have "x = (x AND 0xFFF) OR (x AND NOT 0xFFF)" by (simp flip: bit.conj_disj_distrib)
  then have "x AND NOT 0xFFF = x" using assms by simp
  moreover have n: "(0xFFFFF000 :: u32) = NOT 0xFFF" by (simp add: word_eq_iff_unsigned)
  ultimately have "x AND 0xFFFFF000 = x" by (simp only: n)
  then show "(x OR 7) AND 0xFFFFF000 = x" by (simp add: bit.conj_disj_distrib2)
  show "(x OR 7) AND 1 = 1" "(x OR 7) AND 2 = 2" "(x OR 7) AND 4 = 4" "(x OR 7) AND 0x80 = 0"
    by (simp_all add: bit.conj_disj_distrib2 low)
qed

lemma first_entry:
  assumes "placed pt_addr" "t \<le> 6"
  defines "e \<equiv> pt_addr t OR 7"
  shows "permits user write e" "e AND SIZE_4MB = 0" "table_at pt_addr s (e AND 0xFFFFF000) = Some (page1_tables s t)"
proof -
  have a: "pt_addr t AND 0xFFF = 0" using assms(1,2) unfolding placed_def by auto
  show "permits user write e" "e AND SIZE_4MB = 0"
    using aligned_bits[OF a] by (simp_all add: permits_def e_def)
  have "find (\<lambda>u. pt_addr u = pt_addr t) (map id [0..<7]) = Some (id t)"
    using assms(1,2) unfolding placed_def inj_on_def by (intro find_unique) auto
  then show "table_at pt_addr s (e AND 0xFFFFF000) = Some (page1_tables s t)"
    using aligned_bits(1)[OF a] by (simp add: table_at_def e_def)
qed

text \<open>The program page and the video page.\<close>

definition in_program :: "u32 \<Rightarrow> bool" where
  "in_program la \<longleftrightarrow> dir_index la = 32"

definition in_video :: "u32 \<Rightarrow> bool" where
  "in_video la \<longleftrightarrow> dir_index la = 0 \<and> table_index la = VIDEO_PAGE"

lemma program_mem_cases:
  assumes "1 \<le> t" "t \<le> 6"
  shows "program_mem t \<in> {0x800000, 0xC00000, 0x1000000, 0x1400000, 0x1800000, 0x1C00000}"
proof -
  from assms have "t = 1 \<or> t = 2 \<or> t = 3 \<or> t = 4 \<or> t = 5 \<or> t = 6" by linarith
  then show ?thesis by (elim disjE) (simp_all add: program_mem_def)
qed

lemma program_entry:
  assumes "1 \<le> t" "t \<le> 6"
  defines "e \<equiv> program_mem t OR SIZE_4MB OR PRESENT OR USER_SV OR READ_WRITE"
  shows "permits user write e" "e AND SIZE_4MB \<noteq> 0" "e AND 0xFFC00000 = program_mem t"
  using program_mem_cases[OF assms(1,2)] unfolding e_def permits_def by auto

lemma zero_entry [simp]: "\<not> permits user write 0"
  by (simp add: permits_def)

lemma video_entry:
  assumes "video_frame f"
  defines "e \<equiv> f OR PRESENT OR USER_SV OR READ_WRITE"
  shows "permits user write e" "e AND 0xFFFFF000 = f"
  using assms(1) unfolding e_def permits_def video_frame_def by auto

text \<open>
  In user mode a program reaches its own 4 MB, its video page, and nothing else.
\<close>

lemma translate_user:
  assumes pl: "placed pt_addr" and ok: "tables_ok pt_addr s" and t: "1 \<le> t" "t \<le> 6"
  shows "\<exists>f. video_frame f \<and> translate pt_addr s t True write la =
    (if in_program la then Some (program_mem t OR (la AND 0x3FFFFF))
     else if in_video la then Some (f OR (la AND 0xFFF)) else None)"
proof -
  let ?d = "dir_index la" and ?i = "table_index la"
  have pde: "page_directories s t ?d = init_directory pt_addr t ?d"
    using ok t dir_index_less[of la] unfolding tables_ok_def by auto
  obtain f where f: "video_frame f" "page1_tables s t VIDEO_PAGE = (f OR PRESENT OR USER_SV OR READ_WRITE)"
    using ok t unfolding tables_ok_def by blast
  have pte: "page1_tables s t ?i = (if ?i = VIDEO_PAGE then f OR PRESENT OR USER_SV OR READ_WRITE else 0)"
    using ok t f(2) table_index_less[of la] unfolding tables_ok_def by auto
  note prog = program_entry[OF t] and vid = video_entry[OF f(1)] and first = first_entry(1,2)[OF pl t(2)] first_entry(3)[OF pl t(2), of s]
  consider "?d = 32" | "?d = 0" | "?d = 1" | "?d \<notin> {0, 1, 32}" by fastforce
  then have "translate pt_addr s t True write la =
    (if in_program la then Some (program_mem t OR (la AND 0x3FFFFF))
     else if in_video la then Some (f OR (la AND 0xFFF)) else None)"
  proof cases
    case 1
    then have "page_directories s t ?d = (program_mem t OR SIZE_4MB OR PRESENT OR USER_SV OR READ_WRITE)"
      using t pde by (simp add: init_directory_def Let_def)
    with 1 prog show ?thesis by (simp only: translate_def Let_def in_program_def if_True if_False simp_thms)
  next
    case 2
    then have "page_directories s t ?d = (pt_addr t OR 7)"
      using pde by (simp add: init_directory_def Let_def)
    with 2 first pte vid show ?thesis
      by (auto simp: translate_def Let_def in_program_def in_video_def)
  next
    case 3
    then have "page_directories s t ?d = (KERNEL_MEM OR SIZE_4MB OR PRESENT)"
      using pde by (simp add: init_directory_def Let_def)
    with 3 show ?thesis by (simp add: translate_def permits_def in_program_def in_video_def)
  next
    case 4
    then have "page_directories s t ?d = 0"
      using pde by (simp add: init_directory_def Let_def)
    with 4 show ?thesis by (simp add: translate_def in_program_def in_video_def)
  qed
  with f(1) show ?thesis by blast
qed

lemma page_frame_disjoint:
  fixes x y a b :: u32
  assumes "x AND 0x3FFFFF = 0" "y AND 0x3FFFFF = 0" "(x OR (a AND 0x3FFFFF)) = (y OR (b AND 0x3FFFFF))"
  shows "x = y"
proof -
  have *: "(z OR (c AND 0x3FFFFF)) AND NOT 0x3FFFFF = z" if "z AND 0x3FFFFF = 0" for z c :: u32
  proof -
    have "z = (z AND 0x3FFFFF) OR (z AND NOT 0x3FFFFF)" by (simp only: bit.conj_disj_distrib[symmetric] bit.disj_cancel_right) simp
    then have "z AND NOT 0x3FFFFF = z" using that by simp
    moreover have "(c AND 0x3FFFFF) AND NOT 0x3FFFFF = 0" by (simp only: and.assoc bit.conj_cancel_right) simp
    ultimately show ?thesis by (simp only: bit.conj_disj_distrib2 or.right_neutral)
  qed
  from *[OF assms(1), of a] *[OF assms(2), of b] assms(3) show ?thesis by simp
qed

lemma program_mem_aligned: "1 \<le> t \<Longrightarrow> t \<le> 6 \<Longrightarrow> program_mem t AND 0x3FFFFF = 0"
  using program_mem_cases[of t] by auto

lemma program_mem_inj:
  assumes "1 \<le> t" "t \<le> 6" "1 \<le> u" "u \<le> 6" "program_mem t = program_mem u"
  shows "t = u"
proof -
  have "t = 1 \<or> t = 2 \<or> t = 3 \<or> t = 4 \<or> t = 5 \<or> t = 6" "u = 1 \<or> u = 2 \<or> u = 3 \<or> u = 4 \<or> u = 5 \<or> u = 6"
    using assms by linarith+
  then show ?thesis using assms(5) by (elim disjE) (simp_all add: program_mem_def)
qed

section \<open>Properties\<close>

text \<open>The mappings that arise: those set up at boot, and what the two remapping functions make of them.\<close>

inductive mapped :: "(nat \<Rightarrow> u32) \<Rightarrow> 'a paging_scheme \<Rightarrow> bool" for pt_addr where
  mapped_init: "mapped pt_addr (paging_initialize pt_addr s)"
| mapped_video: "mapped pt_addr s \<Longrightarrow> mapped pt_addr (video_mapping p s)"
| mapped_non_video: "mapped pt_addr s \<Longrightarrow> mapped pt_addr (non_video_mapping p t s)"

lemma mapped_ok: "mapped pt_addr s \<Longrightarrow> tables_ok pt_addr s"
  by (induction rule: mapped.induct) (simp_all add: paging_initialize_ok video_mapping_ok non_video_mapping_ok)

definition demo_paging :: paging where
  "demo_paging = rtc.extend demo_rtc (paging.fields (\<lambda>_ _. 0) (\<lambda>_ _. 0) 0 No_directory 0)"

definition demo_tables :: "nat \<Rightarrow> u32" where
  "demo_tables t = 0x410000 + 0x1000 * of_nat t"

lemma demo_placed: "placed demo_tables"
proof -
  have *: "demo_tables t AND 0xFFF = 0 \<and> unat (demo_tables t) = 0x410000 + 0x1000 * t" if "t < 7" for t
  proof -
    from that consider "t = 0" | "t = 1" | "t = 2" | "t = 3" | "t = 4" | "t = 5" | "t = 6" by linarith
    then show ?thesis by cases (simp_all add: demo_tables_def)
  qed
  have "t = u" if "t < 7" "u < 7" "demo_tables t = demo_tables u" for t u
    using *[OF that(1)] *[OF that(2)] arg_cong[OF that(3), of unat] by linarith
  with * show ?thesis by (auto simp: placed_def inj_on_def)
qed

text \<open>
  C12: in every mapping that arises, a user access of program \<open>t\<close> reaches memory through exactly two
  windows: the 4 MB page at 128 MB, which goes to the program's own frame, and the video page, which
  goes to the screen or to one of the three terminal buffers; every other user access faults.
\<close>

theorem user_windows:
  assumes "placed pt_addr" "mapped pt_addr s" "1 \<le> t" "t \<le> 6"
  shows "\<exists>f. video_frame f \<and> translate pt_addr s t True write la =
    (if in_program la then Some (program_mem t OR (la AND 0x3FFFFF))
     else if in_video la then Some (f OR (la AND 0xFFF)) else None)"
  using translate_user[OF assms(1) mapped_ok[OF assms(2)] assms(3,4)] by blast

theorem user_windows_witness:
  "translate demo_tables (paging_initialize demo_tables demo_paging) 2 True True 0x8048018 = Some 0xC48018"
  using user_windows[OF demo_placed mapped_init, of 2 demo_paging True "0x8048018"]
  by (simp add: in_program_def dir_index_def program_mem_def)

text \<open>
  C5: the program pages of two different programs never share a byte of physical memory.
\<close>

theorem programs_isolated:
  assumes "placed pt_addr" "mapped pt_addr s" "t \<in> {1..6}" "u \<in> {1..6}" "t \<noteq> u" "in_program la" "in_program lb"
  shows "translate pt_addr s t True w la \<noteq> translate pt_addr s u True w' lb"
proof -
  note tr = translate_user[OF assms(1) mapped_ok[OF assms(2)]]
  have "translate pt_addr s t True w la = Some (program_mem t OR (la AND 0x3FFFFF))"
    "translate pt_addr s u True w' lb = Some (program_mem u OR (lb AND 0x3FFFFF))"
    using tr[of t w la] tr[of u w' lb] assms(3,4,6,7) by auto
  then show ?thesis
    using page_frame_disjoint[OF program_mem_aligned program_mem_aligned] program_mem_inj[of t u] assms(3-5) by auto
qed

theorem programs_isolated_witness:
  "translate demo_tables (paging_initialize demo_tables demo_paging) 1 True True 0x8000000 \<noteq>
   translate demo_tables (paging_initialize demo_tables demo_paging) 2 True True 0x8000000"
  using programs_isolated[OF demo_placed mapped_init, of 1 2 "0x8000000" "0x8000000"]
  by (simp add: in_program_def dir_index_def)

end
