(* ===== verification/Slots.thy ===== *)
theory Slots
  imports Prelude
begin

text \<open>
  Fixed tables of slots handed out first fit: the scheduler's \<open>tasks\<close>, a program's file
  descriptors and \<open>openTasks\<close> are such tables. The contract is a locale; what follows from it is
  proved once here and used through its interpretations on the three tables.
\<close>

section \<open>First free slot\<close>

text \<open>The first index of a search order whose slot is free.\<close>

fun first_free :: "('a \<Rightarrow> bool) \<Rightarrow> 'a list \<Rightarrow> nat list \<Rightarrow> nat option" where
  "first_free fr xs [] = None"
| "first_free fr xs (i # is) = (if fr (xs ! i) then Some i else first_free fr xs is)"

lemma first_free_Some:
  "first_free fr xs is = Some i \<Longrightarrow> i \<in> set is \<and> fr (xs ! i)"
  by (induction "is") (auto split: if_splits)

lemma first_free_None: "first_free fr xs is = None \<longleftrightarrow> (\<forall>i\<in>set is. \<not> fr (xs ! i))"
  by (induction "is") auto

lemma first_free_least:
  "first_free fr xs [a..<b] = Some i \<Longrightarrow> a \<le> j \<Longrightarrow> j < i \<Longrightarrow> \<not> fr (xs ! j)"
proof (induction "b - a" arbitrary: a)
  case (Suc d)
  then have up: "[a..<b] = a # [Suc a..<b]" by (simp add: upt_conv_Cons)
  show ?case
  proof (cases "a = j")
    case True
    with Suc.prems up show ?thesis by (auto split: if_splits)
  next
    case False
    with Suc.prems up have "first_free fr xs [Suc a..<b] = Some i" by (auto split: if_splits)
    with Suc False show ?thesis by (intro Suc.hyps(1)[of "Suc a"]) auto
  qed
qed simp

declare first_free.simps [simp del]

text \<open>\<open>n\<close> allocations one after the other, with the slots they got.\<close>

fun claims :: "('s \<Rightarrow> nat option) \<Rightarrow> (nat \<Rightarrow> 's \<Rightarrow> 's) \<Rightarrow> nat \<Rightarrow> 's \<Rightarrow> (nat list \<times> 's) option" where
  "claims pick claim 0 s = Some ([], s)"
| "claims pick claim (Suc n) s =
     (case pick s of None \<Rightarrow> None
      | Some i \<Rightarrow> map_option (\<lambda>(is, s'). (i # is, s')) (claims pick claim n (claim i s)))"

section \<open>The contract\<close>

locale slot_pool =
  fixes slots :: "nat set" and used :: "'s \<Rightarrow> nat set" and pick :: "'s \<Rightarrow> nat option"
    and claim :: "nat \<Rightarrow> 's \<Rightarrow> 's" and release :: "nat \<Rightarrow> 's \<Rightarrow> 's"
    and valid :: "'s \<Rightarrow> bool"
  assumes finite_slots: "finite slots"
    and pick_free: "valid s \<Longrightarrow> pick s = Some i \<Longrightarrow> i \<in> slots - used s"
    and pick_full: "valid s \<Longrightarrow> pick s = None \<Longrightarrow> slots \<subseteq> used s"
    and used_claim: "valid s \<Longrightarrow> i \<in> slots \<Longrightarrow> used (claim i s) = insert i (used s)"
    and used_release: "valid s \<Longrightarrow> i \<in> slots \<Longrightarrow> used (release i s) = used s - {i}"
    and valid_claim: "valid s \<Longrightarrow> i \<in> slots \<Longrightarrow> valid (claim i s)"
    and valid_release: "valid s \<Longrightarrow> i \<in> slots \<Longrightarrow> valid (release i s)"
begin

lemma pick_eq_None: "valid s \<Longrightarrow> pick s = None \<longleftrightarrow> slots \<subseteq> used s"
  using pick_free pick_full by (metis Diff_iff not_None_eq subsetD)

lemma claim_picked:
  assumes "valid s" "pick s = Some i"
  shows "i \<in> slots - used s" "used (claim i s) = insert i (used s)" "valid (claim i s)"
    "card (slots - used s) = Suc (card (slots - used (claim i s)))"
proof -
  show i: "i \<in> slots - used s" using assms by (rule pick_free)
  show u: "used (claim i s) = insert i (used s)" "valid (claim i s)"
    using assms(1) i used_claim valid_claim by auto
  have split: "slots - used s = insert i (slots - used (claim i s))" using i u by auto
  have "i \<notin> slots - used (claim i s)" "finite (slots - used (claim i s))"
    using finite_slots u by auto
  then show "card (slots - used s) = Suc (card (slots - used (claim i s)))"
    unfolding split by (rule card_insert_disjoint[rotated])
qed

text \<open>As many allocations succeed as slots are free, and they get different slots.\<close>

lemma claims_free:
  "valid s \<Longrightarrow> n \<le> card (slots - used s) \<Longrightarrow>
     \<exists>is s'. claims pick claim n s = Some (is, s') \<and> distinct is \<and> length is = n \<and>
       set is \<subseteq> slots - used s \<and> used s' = used s \<union> set is \<and> valid s'"
proof (induction n arbitrary: s)
  case (Suc n)
  have "0 < card (slots - used s)" using Suc.prems by simp
  then have "\<not> slots \<subseteq> used s" by (auto simp: card_gt_0_iff)
  then obtain i where i: "pick s = Some i" using Suc.prems(1) pick_eq_None by blast
  note c = claim_picked[OF Suc.prems(1) i]
  from Suc.prems(2) c(4) have "n \<le> card (slots - used (claim i s))" by simp
  from Suc.IH[OF c(3) this] obtain "is" s' where r: "claims pick claim n (claim i s) = Some (is, s')"
      "distinct is" "length is = n" "set is \<subseteq> slots - used (claim i s)"
      "used s' = used (claim i s) \<union> set is" "valid s'" by blast
  from r c show ?case by (intro exI[of _ "i # is"] exI[of _ s']) (auto simp: i)
qed simp

lemma claims_exhausted:
  "valid s \<Longrightarrow> card (slots - used s) < n \<Longrightarrow> claims pick claim n s = None"
proof (induction n arbitrary: s)
  case (Suc n)
  show ?case
  proof (cases "pick s")
    case (Some i)
    note c = claim_picked[OF Suc.prems(1) Some]
    from Suc.prems(2) c(4) have "card (slots - used (claim i s)) < n" by simp
    with Suc.IH[OF c(3)] Some show ?thesis by simp
  qed simp
qed simp

lemma release_claimed:
  "valid s \<Longrightarrow> pick s = Some i \<Longrightarrow> used (release i (claim i s)) = used s"
  using pick_free[of s i] by (simp add: used_claim used_release valid_claim)

end

end
