(* ===== verification/Scheduler.thy ===== *)
theory Scheduler
  imports Paging Slots "HOL-Library.Multiset"
begin

text \<open>
  The terminals' records (\<open>terminal.h\<close>) and the scheduler of \<open>scheduler.c\<close>. \<open>tasks\<close> holds pointers
  into \<open>terminals\<close>: \<open>None\<close> is \<open>NULL\<close>, \<open>Some k\<close> is \<open>&terminals[k]\<close>, where the kernel also forms
  \<open>&terminals[-1]\<close>; following such a pointer is \<open>Undef\<close>. \<open>switch_task\<close> leaves by returning or, after
  a switch, through \<open>int_ret_helper\<close> with the saved frame of the new task.
\<close>

section \<open>State\<close>

record terminal =
  term_x :: int
  term_y :: int
  line_buffer :: "u8 list"
  buffer_i :: nat
  term_esp :: u32
  term_ebp :: u32
  term_cr3 :: pdir
  kernel_esp :: u32
  program_id :: u32
  active :: u32

record sched = paging +
  terminals :: "terminal list"
  old_terminal :: nat
  newterminal_flag :: int
  tasks :: "int option list"
  current_task_idx :: nat
  esp_0 :: u32
  ebp_0 :: u32
  tss_esp0 :: u32
  tss_ss0 :: u32

abbreviation "MAXTERMS \<equiv> (3 :: nat)"
abbreviation "KERNEL_DS \<equiv> (0x18 :: u32)"
abbreviation "MB_8 \<equiv> (0x800000 :: u32)"
abbreviation "KB_8 \<equiv> (0x2000 :: u32)"
abbreviation "PREV \<equiv> (4 :: u32)"

text \<open>How an interrupt handler is left: it returns, or \<open>int_ret_helper(ebp, esp)\<close> resumes a frame.\<close>

datatype leave = Return | Int_ret u32 u32

definition update_terminal :: "nat \<Rightarrow> (terminal \<Rightarrow> terminal) \<Rightarrow> 'a sched_scheme \<Rightarrow> 'a sched_scheme" where
  "update_terminal k f s = s\<lparr>terminals := (terminals s)[k := f (terminals s ! k)]\<rparr>"

text \<open>\<open>p->...\<close> for a pointer to a terminal.\<close>

definition deref :: "int \<Rightarrow> nat outcome" where
  "deref k = (if 0 \<le> k \<and> k < 3 then Ret (nat k) else Undef)"

definition kernel_stack :: "u32 \<Rightarrow> u32" where
  "kernel_stack pid = MB_8 - KB_8 * (pid - 1) - PREV"

section \<open>Operations\<close>

definition runnable :: "'a sched_scheme \<Rightarrow> nat \<Rightarrow> bool outcome" where
  "runnable s idx =
     (case tasks s ! idx of None \<Rightarrow> Ret False
      | Some p \<Rightarrow> obind (deref p) (\<lambda>k. Ret (active (terminals s ! k) \<noteq> 0)))"

fun scan_tasks :: "'a sched_scheme \<Rightarrow> nat \<Rightarrow> nat \<Rightarrow> nat option outcome" where
  "scan_tasks s 0 idx = Ret None"
| "scan_tasks s (Suc n) idx =
     obind (runnable s idx) (\<lambda>r. if r then Ret (Some idx) else scan_tasks s n ((idx + 1) mod MAXTERMS))"

definition switch_task :: "'a sched_scheme \<Rightarrow> (leave \<times> 'a sched_scheme) outcome" where
  "switch_task s =
     obind (scan_tasks s MAXTERMS ((current_task_idx s + 1) mod MAXTERMS)) (\<lambda>found.
     case found of None \<Rightarrow> Ret (Return, send_eoi 0 s)
     | Some new_task_idx \<Rightarrow>
         if new_task_idx = current_task_idx s then Ret (Return, send_eoi 0 s)
         else case (tasks s ! current_task_idx s, tasks s ! new_task_idx) of
                (Some p, Some q) \<Rightarrow>
                  obind (deref p) (\<lambda>old. obind (deref q) (\<lambda>new.
                  let s1 = update_terminal old (\<lambda>t. t\<lparr>term_esp := esp_0 s, term_ebp := ebp_0 s,
                             kernel_esp := tss_esp0 s, term_cr3 := cr3 s\<rparr>) s;
                      t = terminals s1 ! new;
                      s2 = s1\<lparr>current_task_idx := new_task_idx, tss_esp0 := kernel_stack (program_id t),
                             tss_ss0 := KERNEL_DS, cr3 := term_cr3 t\<rparr>
                  in Ret (Int_ret (term_ebp t) (term_esp t), send_eoi 0 s2)))
              | _ \<Rightarrow> Undef)"

definition queue_order :: "nat \<Rightarrow> nat list" where
  "queue_order idx = map (\<lambda>i. (idx + i) mod MAXTERMS) [0..<MAXTERMS]"

definition add_task_to_queue :: "int option \<Rightarrow> 'a sched_scheme \<Rightarrow> 'a sched_scheme" where
  "add_task_to_queue task_add s =
     (if task_add = None then s
      else case first_free (\<lambda>t. t = None) (tasks s) (queue_order (current_task_idx s)) of
             None \<Rightarrow> s
           | Some i \<Rightarrow> s\<lparr>tasks := (tasks s)[i := task_add]\<rparr>)"

definition remove_task_from_queue :: "int option \<Rightarrow> 'a sched_scheme \<Rightarrow> 'a sched_scheme" where
  "remove_task_from_queue task_rm s =
     (if task_rm = None then s
      else case first_free (\<lambda>t. t = task_rm) (tasks s) [0..<MAXTERMS] of
             None \<Rightarrow> s
           | Some i \<Rightarrow> s\<lparr>tasks := (tasks s)[i := None]\<rparr>)"

section \<open>The run queue\<close>

definition sched_wf :: "'a sched_scheme \<Rightarrow> bool" where
  "sched_wf s \<longleftrightarrow> length (terminals s) = 3 \<and> length (tasks s) = 3 \<and> current_task_idx s < 3"

lemma set_queue_order: "idx < 3 \<Longrightarrow> set (queue_order idx) = {0..<3}"
proof -
  assume "idx < 3"
  then have "idx = 0 \<or> idx = 1 \<or> idx = 2" by linarith
  then show ?thesis by (elim disjE) (auto simp: queue_order_def upt_rec)
qed

text \<open>The tasks in the queue, as a multiset; there is room for three.\<close>

definition queued :: "'a sched_scheme \<Rightarrow> int multiset" where
  "queued s = image_mset the (filter_mset (\<lambda>p. p \<noteq> None) (mset (tasks s)))"

lemma size_queued: "size (queued s) + count_list (tasks s) None = length (tasks s)"
proof -
  have "size (filter_mset (\<lambda>p. p \<noteq> None) (mset ps)) + count_list ps None = length ps" for ps :: "int option list"
    by (induction ps) auto
  then show ?thesis by (simp add: queued_def)
qed

lemma queued_update:
  assumes "i < length (tasks s)"
  shows "queued (s\<lparr>tasks := (tasks s)[i := p]\<rparr>) =
    (queued s - (case tasks s ! i of None \<Rightarrow> {#} | Some k \<Rightarrow> {#k#})) + (case p of None \<Rightarrow> {#} | Some k \<Rightarrow> {#k#})"
proof -
  have "tasks s ! i \<in># mset (tasks s)" using assms by simp
  then have split: "mset (tasks s) = add_mset (tasks s ! i) (mset (tasks s) - {#tasks s ! i#})" by simp
  have "queued s = image_mset the (filter_mset (\<lambda>p. p \<noteq> None) (add_mset (tasks s ! i) (mset (tasks s) - {#tasks s ! i#})))"
    unfolding queued_def using split by (rule arg_cong)
  then have "image_mset the (filter_mset (\<lambda>p. p \<noteq> None) (mset (tasks s) - {#tasks s ! i#})) =
      queued s - (case tasks s ! i of None \<Rightarrow> {#} | Some k \<Rightarrow> {#k#})"
    by (cases "tasks s ! i") (simp_all del: filter_diff_mset)
  moreover have "queued (s\<lparr>tasks := (tasks s)[i := p]\<rparr>) =
      image_mset the (filter_mset (\<lambda>p. p \<noteq> None) (add_mset p (mset (tasks s) - {#tasks s ! i#})))"
    using assms by (simp add: queued_def mset_update)
  ultimately show ?thesis by (cases p) (simp_all del: filter_diff_mset)
qed

lemma count_list_0: "count_list xs x = 0 \<longleftrightarrow> x \<notin> set xs"
  by (induction xs) auto

lemma None_in_queue:
  "sched_wf s \<Longrightarrow> None \<in> set (tasks s) \<longleftrightarrow> size (queued s) < 3"
  using size_queued[of s] count_list_0[of "tasks s" None] by (auto simp: sched_wf_def)

text \<open>Adding puts one more copy into the queue as long as it has room; removing takes one out.\<close>

lemma queued_add:
  assumes wf: "sched_wf s"
  shows "queued (add_task_to_queue (Some k) s) = (if size (queued s) < 3 then add_mset k (queued s) else queued s)"
proof (cases "first_free (\<lambda>t. t = None) (tasks s) (queue_order (current_task_idx s))")
  case None
  then have "\<forall>i<3. tasks s ! i \<noteq> None"
    using wf set_queue_order[of "current_task_idx s"] by (auto simp: first_free_None sched_wf_def)
  then have "None \<notin> set (tasks s)" using wf by (auto simp: in_set_conv_nth sched_wf_def)
  with None wf show ?thesis by (simp add: add_task_to_queue_def None_in_queue)
next
  case (Some i)
  then have i: "i < 3" "tasks s ! i = None"
    using first_free_Some[OF Some] wf set_queue_order[of "current_task_idx s"] by (auto simp: sched_wf_def)
  then have "None \<in> set (tasks s)" using wf by (metis nth_mem sched_wf_def)
  with Some i wf show ?thesis
    using queued_update[of i s "Some k"] by (simp add: add_task_to_queue_def None_in_queue sched_wf_def)
qed

lemma queued_remove:
  assumes wf: "sched_wf s"
  shows "queued (remove_task_from_queue (Some k) s) = queued s - {#k#}"
proof (cases "first_free (\<lambda>t. t = Some k) (tasks s) [0..<3]")
  case None
  then have "Some k \<notin> set (tasks s)" using wf by (auto simp: first_free_None in_set_conv_nth sched_wf_def)
  then have "k \<notin># queued s" by (auto simp: queued_def)
  with None show ?thesis by (simp add: remove_task_from_queue_def diff_single_trivial)
next
  case (Some i)
  then have i: "i < 3" "tasks s ! i = Some k" using first_free_Some[OF Some] by auto
  with Some wf show ?thesis
    using queued_update[of i s None] by (simp add: remove_task_from_queue_def sched_wf_def)
qed

lemma sched_wf_add [simp]: "sched_wf s \<Longrightarrow> sched_wf (add_task_to_queue p s)"
  by (auto simp: sched_wf_def add_task_to_queue_def split: option.splits)

lemma sched_wf_remove [simp]: "sched_wf s \<Longrightarrow> sched_wf (remove_task_from_queue p s)"
  by (auto simp: sched_wf_def remove_task_from_queue_def split: option.splits)

section \<open>Round robin\<close>

text \<open>Pointers in the queue that the scheduler may follow.\<close>

definition tasks_valid :: "'a sched_scheme \<Rightarrow> bool" where
  "tasks_valid s \<longleftrightarrow> (\<forall>i<3. case tasks s ! i of None \<Rightarrow> True | Some k \<Rightarrow> 0 \<le> k \<and> k < 3)"

definition is_runnable :: "'a sched_scheme \<Rightarrow> nat \<Rightarrow> bool" where
  "is_runnable s i = (case tasks s ! i of None \<Rightarrow> False | Some k \<Rightarrow> active (terminals s ! nat k) \<noteq> 0)"

lemma runnable_eq: "tasks_valid s \<Longrightarrow> i < 3 \<Longrightarrow> runnable s i = Ret (is_runnable s i)"
  unfolding tasks_valid_def
  by (cases "tasks s ! i") (auto simp: runnable_def is_runnable_def deref_def)

text \<open>The next task: the first one that can run after the current one, which comes last itself.\<close>

definition next_task :: "'a sched_scheme \<Rightarrow> nat option" where
  "next_task s = find (is_runnable s) [(current_task_idx s + 1) mod 3, (current_task_idx s + 2) mod 3, current_task_idx s]"

lemma scan_tasks_next:
  assumes "sched_wf s" "tasks_valid s"
  shows "scan_tasks s 3 ((current_task_idx s + 1) mod 3) = Ret (next_task s)"
proof -
  let ?c = "current_task_idx s"
  have c: "((?c + 1) mod 3 + 1) mod 3 = (?c + 2) mod 3" "((?c + 2) mod 3 + 1) mod 3 = ?c"
    using assms(1) unfolding sched_wf_def by presburger+
  have r: "runnable s ((?c + 1) mod 3) = Ret (is_runnable s ((?c + 1) mod 3))"
    "runnable s ((?c + 2) mod 3) = Ret (is_runnable s ((?c + 2) mod 3))" "runnable s ?c = Ret (is_runnable s ?c)"
    using assms by (auto simp: runnable_eq sched_wf_def)
  have three: "scan_tasks s 3 = scan_tasks s (Suc (Suc (Suc 0)))" by (simp only: numeral_3_eq_3)
  show ?thesis unfolding three scan_tasks.simps c r obind.simps next_task_def by simp
qed

lemma next_task_Some:
  assumes "sched_wf s" "next_task s = Some i"
  shows "i < 3" "is_runnable s i"
  using assms by (auto simp: next_task_def sched_wf_def split: if_splits)

text \<open>With no other task to run, the timer interrupt is acknowledged and nothing else changes.\<close>

lemma switch_task_stay:
  assumes "sched_wf s" "tasks_valid s" "next_task s \<in> {None, Some (current_task_idx s)}"
  shows "switch_task s = Ret (Return, send_eoi 0 s)"
  using assms(3) scan_tasks_next[OF assms(1,2)] by (auto simp: switch_task_def)

definition saved_frame :: "'a sched_scheme \<Rightarrow> terminal \<Rightarrow> terminal" where
  "saved_frame s t = t\<lparr>term_esp := esp_0 s, term_ebp := ebp_0 s, kernel_esp := tss_esp0 s, term_cr3 := cr3 s\<rparr>"

lemma switch_task_switch:
  assumes wf: "sched_wf s" "tasks_valid s" and nx: "next_task s = Some i" "i \<noteq> current_task_idx s"
    and cur: "tasks s ! current_task_idx s = Some p"
  obtains q where "tasks s ! i = Some q" "0 \<le> p" "p < 3" "0 \<le> q" "q < 3"
    "switch_task s =
      (let ts = (terminals s)[nat p := saved_frame s (terminals s ! nat p)]; t = ts ! nat q
       in Ret (Int_ret (term_ebp t) (term_esp t),
            send_eoi 0 (s\<lparr>terminals := ts, current_task_idx := i, tss_esp0 := kernel_stack (program_id t),
              tss_ss0 := KERNEL_DS, cr3 := term_cr3 t\<rparr>)))"
proof -
  have i: "i < 3" "is_runnable s i" using next_task_Some[OF wf(1) nx(1)] by auto
  then obtain q where q: "tasks s ! i = Some q" by (auto simp: is_runnable_def split: option.splits)
  have r: "0 \<le> p" "p < 3" "0 \<le> q" "q < 3"
    using wf i(1) q cur unfolding tasks_valid_def sched_wf_def by (auto split: option.splits)
  show ?thesis
    by (rule that[OF q r])
      (use scan_tasks_next[OF wf] nx cur q r in
        \<open>simp add: switch_task_def deref_def update_terminal_def saved_frame_def Let_def\<close>)
qed

lemma send_eoi_frame [frame_simps, simp]:
  "mem (send_eoi n s) = mem s"
  "cr3 (send_eoi n p) = cr3 p"
  "terminals (send_eoi n t) = terminals t" "tasks (send_eoi n t) = tasks t"
  "current_task_idx (send_eoi n t) = current_task_idx t" "tss_esp0 (send_eoi n t) = tss_esp0 t"
  "esp_0 (send_eoi n t) = esp_0 t" "ebp_0 (send_eoi n t) = ebp_0 t"
  by (simp_all add: send_eoi_def outb_def)

text \<open>
  A switch saves the frame of the task it leaves in the record of its terminal, and a later one, in any state in which this record
  is still the same, loads it.
\<close>

lemma switch_task_saves:
  assumes wf: "sched_wf s" "tasks_valid s" and nx: "next_task s = Some i" "i \<noteq> current_task_idx s"
    and cur: "tasks s ! current_task_idx s = Some p" and step: "switch_task s = Ret (l, s1)"
  shows "terminals s1 ! nat p = saved_frame s (terminals s ! nat p)"
proof -
  obtain q where "0 \<le> p" "p < 3"
    and "switch_task s =
      (let ts = (terminals s)[nat p := saved_frame s (terminals s ! nat p)]; t = ts ! nat q
       in Ret (Int_ret (term_ebp t) (term_esp t),
            send_eoi 0 (s\<lparr>terminals := ts, current_task_idx := i, tss_esp0 := kernel_stack (program_id t),
              tss_ss0 := KERNEL_DS, cr3 := term_cr3 t\<rparr>)))"
    using switch_task_switch[OF wf nx cur] by metis
  then show ?thesis using step wf(1) by (auto simp: Let_def sched_wf_def)
qed

lemma switch_task_loads:
  assumes wf: "sched_wf u" "tasks_valid u" and nx: "next_task u = Some k" "k \<noteq> current_task_idx u"
    and cur: "tasks u ! current_task_idx u = Some q" and to: "tasks u ! k = Some p" "q \<noteq> p"
  shows "\<exists>s2. switch_task u = Ret (Int_ret (term_ebp (terminals u ! nat p)) (term_esp (terminals u ! nat p)), s2) \<and>
    cr3 s2 = term_cr3 (terminals u ! nat p) \<and> current_task_idx s2 = k \<and> tss_esp0 s2 = kernel_stack (program_id (terminals u ! nat p))"
proof -
  obtain p' where p': "tasks u ! k = Some p'" and r: "0 \<le> q" "0 \<le> p'"
    and sw: "switch_task u =
      (let ts = (terminals u)[nat q := saved_frame u (terminals u ! nat q)]; t = ts ! nat p'
       in Ret (Int_ret (term_ebp t) (term_esp t),
            send_eoi 0 (u\<lparr>terminals := ts, current_task_idx := k, tss_esp0 := kernel_stack (program_id t),
              tss_ss0 := KERNEL_DS, cr3 := term_cr3 t\<rparr>)))"
    using switch_task_switch[OF wf nx cur] by metis
  have "nat q \<noteq> nat p" "p' = p" using p' to r by auto
  then show ?thesis unfolding sw Let_def by simp
qed

section \<open>The queue as a table of slots\<close>

definition queue_used :: "'a sched_scheme \<Rightarrow> nat set" where
  "queue_used s = {i. i < 3 \<and> tasks s ! i \<noteq> None}"

definition queue_pick :: "'a sched_scheme \<Rightarrow> nat option" where
  "queue_pick s = first_free (\<lambda>t. t = None) (tasks s) (queue_order (current_task_idx s))"

definition queue_put :: "int option \<Rightarrow> nat \<Rightarrow> 'a sched_scheme \<Rightarrow> 'a sched_scheme" where
  "queue_put p i s = s\<lparr>tasks := (tasks s)[i := p]\<rparr>"

interpretation run_queue: slot_pool "{0..<3}" queue_used queue_pick "queue_put (Some 0)" "queue_put None" sched_wf
proof
  fix s :: "'a sched_scheme" and i :: nat
  assume wf: "sched_wf s"
  then have ord: "set (queue_order (current_task_idx s)) = {0..<3}"
    by (intro set_queue_order) (simp add: sched_wf_def)
  { assume "queue_pick s = Some i"
    then show "i \<in> {0..<3} - queue_used s"
      using first_free_Some[of _ _ _ i] ord by (fastforce simp: queue_pick_def queue_used_def) }
  { assume "queue_pick s = None"
    then show "{0..<3} \<subseteq> queue_used s"
      using ord by (auto simp: queue_pick_def queue_used_def first_free_None) }
  assume "i \<in> {0..<3}"
  with wf show "queue_used (queue_put (Some 0) i s) = insert i (queue_used s)"
    "queue_used (queue_put None i s) = queue_used s - {i}"
    "sched_wf (queue_put (Some 0) i s)" "sched_wf (queue_put None i s)"
    by (auto simp: queue_used_def queue_put_def sched_wf_def nth_list_update split: if_splits)
qed simp

section \<open>Properties\<close>

text \<open>Two shells: terminal 0 runs program 1 and terminal 1, which was switched away from, program 2.\<close>

definition demo_terminal :: "u32 \<Rightarrow> pdir \<Rightarrow> u32 \<Rightarrow> terminal" where
  "demo_terminal esp d pid = \<lparr>term_x = 0, term_y = 0, line_buffer = replicate 128 0, buffer_i = 0, term_esp = esp,
     term_ebp = esp + 8, term_cr3 = d, kernel_esp = 0, program_id = pid, active = 1\<rparr>"

definition demo_sched :: sched where
  "demo_sched = paging.extend (demo_paging\<lparr>cr3 := Page_directory 1\<rparr>)
     (sched.fields [demo_terminal 0 No_directory 1, demo_terminal 0x7FBF00 (Page_directory 2) 2,
        (demo_terminal 0 No_directory 0)\<lparr>active := 0\<rparr>] 0 0 [Some 0, Some 1, None] 0 0x7FDF00 0x7FDF08 0 0)"

lemma demo_sched_simps [simp]:
  "tasks demo_sched = [Some 0, Some 1, None]" "current_task_idx demo_sched = 0" "cr3 demo_sched = Page_directory 1"
  "esp_0 demo_sched = 0x7FDF00" "ebp_0 demo_sched = 0x7FDF08"
  by (simp_all add: demo_sched_def sched.defs paging.defs demo_paging_def rtc.defs demo_rtc_def pic.defs demo_pic_def fs.defs demo_fs_def)

lemma demo_terminals [simp]:
  "terminals demo_sched = [demo_terminal 0 No_directory 1, demo_terminal 0x7FBF00 (Page_directory 2) 2,
     (demo_terminal 0 No_directory 0)\<lparr>active := 0\<rparr>]"
  by (simp add: demo_sched_def sched.defs paging.defs demo_paging_def rtc.defs demo_rtc_def pic.defs demo_pic_def fs.defs demo_fs_def)

lemma demo_sched_ok: "sched_wf demo_sched" "tasks_valid demo_sched" "next_task demo_sched = Some 1"
proof -
  have "i = 0 \<or> i = 1 \<or> i = 2" if "i < 3" for i :: nat using that by linarith
  then show "tasks_valid demo_sched" by (force simp: tasks_valid_def)
qed (simp_all add: sched_wf_def next_task_def is_runnable_def demo_terminal_def)

text \<open>
  The run queue is a bag of at most three terminals: \<open>add_task_to_queue\<close> adds its argument when
  there is room and nothing otherwise, \<open>remove_task_from_queue\<close> takes one occurrence out when there
  is one, whatever place the searches start from, and both keep the queue well-formed.
\<close>

lemma run_queue_bag:
  assumes "sched_wf s"
  shows "queued (add_task_to_queue (Some k) s) = (if size (queued s) < 3 then add_mset k (queued s) else queued s) \<and>
    queued (remove_task_from_queue (Some k) s) = queued s - {#k#} \<and>
    sched_wf (add_task_to_queue (Some k) s) \<and> sched_wf (remove_task_from_queue (Some k) s)"
  using assms by (simp add: queued_add queued_remove)

lemma run_queue_bag_example:
  "queued (add_task_to_queue (Some 2) demo_sched) = {#0, 1, 2#} \<and> queued (remove_task_from_queue (Some 1) demo_sched) = {#0#}"
  using run_queue_bag[OF demo_sched_ok(1), of 2] run_queue_bag[OF demo_sched_ok(1), of 1] by (simp add: queued_def)

text \<open>
  On a timer tick \<open>switch_task\<close> leaves everything as it is but the end-of-interrupt when no other
  terminal can run; otherwise it saves the interrupted stack, kernel stack and page directory in the
  current terminal and resumes the next one that can run, in cyclic order, on its own.
\<close>

lemma switch_task_round_robin:
  assumes "sched_wf s" "tasks_valid s" "tasks s ! current_task_idx s = Some p"
  shows "case next_task s of
      None \<Rightarrow> switch_task s = Ret (Return, send_eoi 0 s)
    | Some i \<Rightarrow>
        if i = current_task_idx s then switch_task s = Ret (Return, send_eoi 0 s)
        else \<exists>q. tasks s ! i = Some q \<and> switch_task s =
          (let ts = (terminals s)[nat p := saved_frame s (terminals s ! nat p)]; t = ts ! nat q
           in Ret (Int_ret (term_ebp t) (term_esp t),
                send_eoi 0 (s\<lparr>terminals := ts, current_task_idx := i, tss_esp0 := kernel_stack (program_id t),
                  tss_ss0 := KERNEL_DS, cr3 := term_cr3 t\<rparr>)))"
proof (cases "next_task s")
  case None
  with switch_task_stay[OF assms(1,2)] show ?thesis by simp
next
  case (Some i)
  then show ?thesis
    using switch_task_stay[OF assms(1,2)] switch_task_switch[OF assms(1,2) Some _ assms(3)]
    by (cases "i = current_task_idx s") (simp, simp, metis)
qed

lemma switch_task_round_robin_example:
  "\<exists>s'. switch_task demo_sched = Ret (Int_ret 0x7FBF08 0x7FBF00, s') \<and> cr3 s' = Page_directory 2"
  using switch_task_round_robin[OF demo_sched_ok(1,2), of 0]
  by (auto simp: demo_sched_ok Let_def demo_terminal_def)



end
