(* ===== verification/Terminal.thy ===== *)
theory Terminal
  imports Scheduler
begin

text \<open>
  The terminal driver of \<open>terminal.c\<close>: the line buffers filled by the keyboard, \<open>terminal_read\<close>,
  \<open>terminal_write\<close>, and the keyboard handler's editing part; and \<open>find_programid\<close>,
  \<open>set_programpage\<close> of \<open>systemcall.c\<close>, which tell programs apart by the page directory in \<open>cr3\<close>.
  \<open>terminal_read\<close> spins until the keyboard handler has stored a newline; its argument \<open>irqs\<close> lists
  what the interrupts do that come in meanwhile, one per turn of the loop.
\<close>

section \<open>State and definitions\<close>

record kbd = sched +
  shift :: bool
  ctrl :: bool
  capslock :: bool
  alt :: bool
  check_enter :: bool

abbreviation "NUM_CHARS \<equiv> (128 :: nat)"

definition find_programid :: "'a paging_scheme \<Rightarrow> int outcome" where
  "find_programid s =
     (case cr3 s of
        Page_directory n \<Rightarrow> (if n \<le> 6 then Ret (int n) else Hang ''can't find programid for some reason. Gonna pause here.'')
      | No_directory \<Rightarrow> Hang ''can't find programid for some reason. Gonna pause here.'')"

definition set_programpage :: "int \<Rightarrow> 'a paging_scheme \<Rightarrow> 'a paging_scheme outcome" where
  "set_programpage pid s =
     (if pid \<in> {0, 1, 2, 3, 4, 5, 6} then Ret (s\<lparr>cr3 := Page_directory (nat pid)\<rparr>)
      else Hang ''programpage error'')"

definition find_terminal :: "int \<Rightarrow> 'a sched_scheme \<Rightarrow> int" where
  "find_terminal pid s =
     (case find (\<lambda>i. word_of_int pid = program_id (terminals s ! i)) [0..<3] of None \<Rightarrow> -1 | Some i \<Rightarrow> int i)"

definition get_term_buffer :: "int \<Rightarrow> u32 outcome" where
  "get_term_buffer term =
     (if term = 0 then Ret 0x600000 else if term = 1 then Ret 0x601000 else if term = 2 then Ret 0x602000
      else Hang ''get_term_buffer error'')"

definition terminal_init :: "'a sched_scheme \<Rightarrow> 'a sched_scheme outcome" where
  "terminal_init s =
     obind (get_term_buffer 0) (\<lambda>buf0. obind (get_term_buffer 1) (\<lambda>buf1. obind (get_term_buffer 2) (\<lambda>buf2.
     let m = fold (\<lambda>i m. m(buf0 + of_nat i := SPACE, buf1 + of_nat i := SPACE, buf2 + of_nat i := SPACE))
               [0..<2000] (mem s);
         init = (\<lambda>t. t\<lparr>term_x := 0, term_y := 0, term_esp := 0, term_ebp := 0, term_cr3 := No_directory,
                       kernel_esp := 0, program_id := 0, active := 0, buffer_i := 0\<rparr>);
         ts = fold (\<lambda>i ts. ts[i := init (ts ! i)]) [0..<3] (terminals s)
     in Ret (s\<lparr>old_terminal := 0, mem := m, terminals := ts[0 := (ts ! 0)\<lparr>active := 1\<rparr>]\<rparr>))))"

text \<open>The terminal on the screen, and its line buffer.\<close>

definition shown :: "'a sched_scheme \<Rightarrow> terminal" where
  "shown s = terminals s ! old_terminal s"

definition pressed_clear :: "'a sched_scheme \<Rightarrow> 'a sched_scheme" where
  "pressed_clear s = (let s1 = set_cursor 0 0 (clear s)
     in update_terminal (old_terminal s1) (\<lambda>t. t\<lparr>buffer_i := 0\<rparr>) s1)"

definition backspace_pressed :: "'a sched_scheme \<Rightarrow> 'a sched_scheme" where
  "backspace_pressed s =
     (if buffer_i (shown s) > 0
      then move_back (update_terminal (old_terminal s) (\<lambda>t. t\<lparr>buffer_i := buffer_i t - 1\<rparr>) s)
      else s)"

text \<open>
  A key with a character, lines 347 to 381 of the handler: echo it and store it in the line
  buffer while there is room, then go to the next row if the cursor is at the start of a row.
\<close>

definition echo_key :: "u8 \<Rightarrow> 'a kbd_scheme \<Rightarrow> 'a kbd_scheme outcome" where
  "echo_key c s =
     (if c \<noteq> 10 then obind (printf (lit ''%c'') [Val (ucast c)] s) (\<lambda>r. Ret (snd r))
      else let s1 = (if get_cursor_y s + 1 < NUM_ROWS then set_cursor 0 (get_cursor_y s) s
                     else pressed_enter (s\<lparr>check_enter := True\<rparr>))
           in Ret (set_cursor 0 (get_cursor_y s1) s1))"

definition store_key :: "u8 \<Rightarrow> 'a kbd_scheme \<Rightarrow> 'a kbd_scheme outcome" where
  "store_key c s =
     obind (buf_set (line_buffer (shown s)) (buffer_i (shown s)) c) (\<lambda>b.
     Ret (update_terminal (old_terminal s) (\<lambda>t. t\<lparr>line_buffer := b, buffer_i := buffer_i t + 1\<rparr>) s))"

definition key_typed :: "u8 \<Rightarrow> 'a kbd_scheme \<Rightarrow> 'a kbd_scheme outcome" where
  "key_typed c s =
     (let s1 = s\<lparr>check_enter := False\<rparr>;
          (c, s2) = (if c = 8 then (0, backspace_pressed s1) else (c, s1))
      in obind (if buffer_i (shown s2) < NUM_CHARS then obind (echo_key c s2) (store_key c) else Ret s2) (\<lambda>s3.
         if get_cursor_x s3 = 0 \<or> get_cursor_x s3 = NUM_COLS
         then if get_cursor_y s3 + 1 < NUM_ROWS then Ret (set_cursor 0 (get_cursor_y s3 + 1) s3)
              else if \<not> check_enter s3 then Ret (pressed_enter s3) else Ret s3
         else Ret s3))"

definition terminal_open :: "u8 list \<Rightarrow> int" where
  "terminal_open filename = 0"

definition terminal_close :: "int \<Rightarrow> int" where
  "terminal_close fd = 0"

definition keyboard_read :: "u8 list \<Rightarrow> 'a sched_scheme \<Rightarrow> (int \<times> u8 list \<times> 'a sched_scheme) outcome" where
  "keyboard_read buf s =
     (let n = buffer_i (shown s)
      in if length (line_buffer (shown s)) < n then Undef
         else obind (buf_store buf 0 (take n (line_buffer (shown s)) @ [0])) (\<lambda>b.
              let s1 = update_cursor (get_cursor_y s) (get_cursor_x s) s
              in Ret (int n, b, update_terminal (old_terminal s1) (\<lambda>t. t\<lparr>buffer_i := 0\<rparr>) s1)))"

definition line_ready :: "nat \<Rightarrow> 'a sched_scheme \<Rightarrow> bool" where
  "line_ready term s =
     (let t = terminals s ! term in buffer_i t \<noteq> 0 \<and> line_buffer t ! (buffer_i t - 1) = 10)"

fun wait_line :: "('a sched_scheme \<Rightarrow> 'a sched_scheme outcome) list \<Rightarrow> nat \<Rightarrow> 'a sched_scheme \<Rightarrow> 'a sched_scheme option outcome" where
  "wait_line [] term s = Ret (if line_ready term s then Some s else None)"
| "wait_line (irq # irqs) term s =
     (if line_ready term s then Ret (Some s) else obind (irq s) (wait_line irqs term))"

definition terminal_read ::
  "('a sched_scheme \<Rightarrow> 'a sched_scheme outcome) list \<Rightarrow> u8 list \<Rightarrow> 'a sched_scheme \<Rightarrow> (int \<times> u8 list \<times> 'a sched_scheme) option outcome" where
  "terminal_read irqs buf s =
     obind (find_programid s) (\<lambda>pid.
     if find_terminal pid s = -1 then Undef
     else let term = nat (find_terminal pid s)
          in obind (wait_line irqs term (update_terminal term (\<lambda>t. t\<lparr>buffer_i := 0\<rparr>) s)) (\<lambda>r.
             case r of None \<Rightarrow> Ret None
             | Some s1 \<Rightarrow> obind (keyboard_read buf s1) (\<lambda>k. Ret (Some k))))"

section \<open>terminal\_write\<close>

text \<open>One turn of the loop: move the cursor to a new row if needed, then print the character.\<close>

definition write_newrow :: "'a console_scheme \<Rightarrow> 'a console_scheme" where
  "write_newrow s =
     (if get_cursor_x s = 0
      then if get_cursor_y s < NUM_ROWS then set_cursor 0 (get_cursor_y s) s
           else set_cursor 0 (NUM_ROWS - 1) (pressed_enter s)
      else s)"

definition write_wrap :: "nat \<Rightarrow> 'a console_scheme \<Rightarrow> 'a console_scheme" where
  "write_wrap len s =
     (if int len > NUM_COLS \<and> get_cursor_x s + 1 = NUM_COLS
      then if get_cursor_y s + 1 \<noteq> NUM_ROWS then set_cursor 0 (get_cursor_y s + 1) s
           else set_cursor 0 (NUM_ROWS - 1) (pressed_enter s)
      else if get_cursor_x s + 1 = NUM_COLS
      then if get_cursor_y s < NUM_ROWS then set_cursor 0 (get_cursor_y s + 1) s
           else set_cursor 0 (NUM_ROWS - 1) (pressed_enter s)
      else s)"

function write_loop :: "u8 list \<Rightarrow> int \<Rightarrow> nat \<Rightarrow> 'a console_scheme \<Rightarrow> 'a console_scheme outcome" where
  "write_loop buf nbytes i s =
     (if i < length buf
      then if buf ! i \<noteq> 0 \<and> int i < nbytes
           then obind (strlen buf) (\<lambda>len.
                obind (printf (lit ''%c'') [Val (ucast (buf ! i))] (write_wrap len (write_newrow s))) (\<lambda>r.
                write_loop buf nbytes (Suc i) (snd r)))
           else Ret s
      else Undef)"
  by pat_completeness auto
termination
  by (relation "measure (\<lambda>(buf, nbytes, i, s). length buf - i)") auto

declare write_loop.simps [simp del]

definition terminal_write :: "u8 list \<Rightarrow> int \<Rightarrow> 'a sched_scheme \<Rightarrow> (int \<times> 'a sched_scheme) outcome" where
  "terminal_write buf nbytes s =
     obind (find_programid s) (\<lambda>pid.
     let term = find_terminal pid s
     in obind (write_loop buf nbytes 0 s) (\<lambda>s1.
        if term = -1 then Undef
        else Ret (0, update_terminal (nat term) (\<lambda>t. t\<lparr>buffer_i := 0\<rparr>) s1)))"

lemma ucast_up_down: "ucast (ucast c :: u32) = c" for c :: u8
  by (rule bit_word_eqI) (auto simp: bit_unsigned_iff)

lemma printf_char: "printf (lit ''%c'') [Val (ucast c)] s = Ret (2, putc c s)"
  by (simp add: printf_def lit_def next_val_def ucast_up_down)

section \<open>Where terminal\_write writes\<close>

text \<open>
  Between two turns of the loop the cursor is on the screen, or at the start of the row below it.
\<close>

definition near_screen :: "'a console_scheme \<Rightarrow> bool" where
  "near_screen s \<longleftrightarrow> on_screen s \<or> (screen_x s = 0 \<and> screen_y s = NUM_ROWS)"

text \<open>Only the screen, and the stray attribute byte after its end, may change.\<close>

definition screen_only :: "'a console_scheme \<Rightarrow> 'a console_scheme \<Rightarrow> bool" where
  "screen_only s s' \<longleftrightarrow> (\<forall>x. \<not> in_range VIDEO 4000 x \<and> x \<noteq> vid 4001 \<longrightarrow> mem s' x = mem s x)"

lemma screen_only_refl [simp]: "screen_only s s"
  by (simp add: screen_only_def)

lemma screen_only_trans [trans]: "screen_only s1 s2 \<Longrightarrow> screen_only s2 s3 \<Longrightarrow> screen_only s1 s3"
  by (simp add: screen_only_def)

lemma screen_only_set_cursor [simp]: "screen_only s (set_cursor x y s)"
  by (simp add: screen_only_def)

lemma screen_only_pressed_enter [simp]: "screen_only s (pressed_enter s)"
  by (simp add: screen_only_def pressed_enter_outside)

lemma screen_only_putc: "on_screen s \<Longrightarrow> screen_only s (putc c s)"
  unfolding screen_only_def
  by (cases "is_newline c") (auto simp: putc_newline putc_mem put_cell_outside)

lemma console_step_scroll [simp]: "console_step s (set_cursor x y (pressed_enter s))"
  by (rule console_step_trans[OF console_step_ops(3) console_step_ops(2)])

lemma write_newrow_safe:
  assumes "near_screen s"
  shows "on_screen (write_newrow s)" "screen_only s (write_newrow s)" "console_step s (write_newrow s)"
proof -
  show "on_screen (write_newrow s)"
    using assms by (auto simp: write_newrow_def near_screen_def on_screen_def get_cursor_x_def get_cursor_y_def)
  show "screen_only s (write_newrow s)"
    by (auto simp: write_newrow_def screen_only_def pressed_enter_outside)
  show "console_step s (write_newrow s)"
    by (simp add: write_newrow_def)
qed

lemma write_newrow_x: "screen_x (write_newrow s) = screen_x s"
  by (simp add: write_newrow_def get_cursor_x_def)

text \<open>
  A text of more than 80 characters is wrapped on the screen; a shorter one as long as the
  cursor does not reach the last column.
\<close>

lemma write_wrap_safe:
  assumes "on_screen s" "80 < len \<or> screen_x s + 1 < NUM_COLS"
  shows "on_screen (write_wrap len s)" "screen_x (write_wrap len s) + 1 < NUM_COLS"
    "screen_x (write_wrap len s) \<le> screen_x s" "screen_only s (write_wrap len s)" "console_step s (write_wrap len s)"
proof -
  show "on_screen (write_wrap len s)" "screen_x (write_wrap len s) + 1 < NUM_COLS"
    "screen_x (write_wrap len s) \<le> screen_x s"
    using assms by (auto simp: write_wrap_def on_screen_def get_cursor_x_def get_cursor_y_def)
  show "screen_only s (write_wrap len s)"
    using assms by (auto simp: write_wrap_def get_cursor_x_def screen_only_def pressed_enter_outside)
  show "console_step s (write_wrap len s)"
    by (simp add: write_wrap_def)
qed

lemma putc_near:
  assumes "on_screen s" "screen_x s + 1 < NUM_COLS"
  shows "near_screen (putc c s)" "screen_x (putc c s) \<le> screen_x s + 1"
proof -
  show "near_screen (putc c s)"
    using assms putc_newline[of c s] putc_on_screen[of c s]
    by (cases "is_newline c") (auto simp: near_screen_def on_screen_def)
  show "screen_x (putc c s) \<le> screen_x s + 1"
    using assms putc_newline[of c s] putc_cursor[of c s]
    by (cases "is_newline c") (auto simp: on_screen_def)
qed

lemma write_loop_safe:
  assumes "terminated buf" "near_screen s" "i \<le> length (cstr buf)"
    and "80 < length (cstr buf) \<or> screen_x s + int (length (cstr buf) - i) < NUM_COLS"
  shows "\<exists>s'. write_loop buf nbytes i s = Ret s' \<and> near_screen s' \<and> screen_only s s' \<and> console_step s s'"
  using assms
proof (induction buf nbytes i s rule: write_loop.induct)
  case (1 buf nbytes i s)
  have len: "i < length buf" using "1.prems"(1,3) length_cstr_less le_less_trans by blast
  show ?case
  proof (cases "buf ! i \<noteq> 0 \<and> int i < nbytes")
    case False
    with len "1.prems"(2) show ?thesis by (subst write_loop.simps) auto
  next
    case True
    let ?n = "length (cstr buf)"
    have i: "i < ?n" using True "1.prems"(1,3) nth_length_cstr[of buf] length_cstr_less[of buf]
      by (cases "i = ?n") auto
    note r = write_newrow_safe[OF "1.prems"(2)]
    have "80 < ?n \<or> screen_x (write_newrow s) + 1 < NUM_COLS"
      using "1.prems"(4) i by (auto simp: write_newrow_x)
    note w = write_wrap_safe[OF r(1) this]
    let ?s = "write_wrap ?n (write_newrow s)"
    note p = putc_near[OF w(1,2), of "buf ! i"]
    have x: "80 < ?n \<or> screen_x (putc (buf ! i) ?s) + int (?n - Suc i) < NUM_COLS"
      using "1.prems"(4) i p(2) w(3) by (auto simp: write_newrow_x)
    have sl: "strlen buf = Ret ?n" using "1.prems"(1) by (simp add: strlen_eq)
    have "\<exists>s'. write_loop buf nbytes (Suc i) (putc (buf ! i) ?s) = Ret s' \<and> near_screen s' \<and>
        screen_only (putc (buf ! i) ?s) s' \<and> console_step (putc (buf ! i) ?s) s'"
      using "1.IH"[OF len True, of ?n "(2, putc (buf ! i) ?s)"] "1.prems"(1) p(1) i x sl
      by (simp add: printf_char)
    then obtain s' where s': "write_loop buf nbytes (Suc i) (putc (buf ! i) ?s) = Ret s'" "near_screen s'"
        "screen_only (putc (buf ! i) ?s) s'" "console_step (putc (buf ! i) ?s) s'" by blast
    have "screen_only s s'"
      using r(2) w(4) screen_only_putc[OF w(1)] s'(3) screen_only_trans by blast
    moreover have "console_step s s'"
      using r(3) w(5) console_step_ops(1) s'(4) console_step_trans by blast
    ultimately show ?thesis using s' len True sl
      by (subst write_loop.simps) (auto simp: printf_char)
  qed
qed

text \<open>A string is always written to its end, wherever the cursor is.\<close>

lemma write_loop_total:
  assumes "terminated buf" "i \<le> length (cstr buf)"
  shows "\<exists>s'. write_loop buf nbytes i s = Ret s' \<and> console_step s s'"
  using assms
proof (induction buf nbytes i s rule: write_loop.induct)
  case (1 buf nbytes i s)
  have len: "i < length buf" using "1.prems" length_cstr_less le_less_trans by blast
  show ?case
  proof (cases "buf ! i \<noteq> 0 \<and> int i < nbytes")
    case False
    with len show ?thesis by (subst write_loop.simps) auto
  next
    case True
    let ?n = "length (cstr buf)"
    have i: "i < ?n" using True "1.prems" nth_length_cstr[of buf] length_cstr_less[of buf] by (cases "i = ?n") auto
    let ?s = "write_wrap ?n (write_newrow s)"
    have sl: "strlen buf = Ret ?n" using "1.prems"(1) by (simp add: strlen_eq)
    obtain s' where s': "write_loop buf nbytes (Suc i) (putc (buf ! i) ?s) = Ret s'" "console_step (putc (buf ! i) ?s) s'"
      using "1.IH"[OF len True, of ?n "(2, putc (buf ! i) ?s)"] "1.prems"(1) i sl by (auto simp: printf_char)
    have "console_step s ?s"
      using console_step_trans[of s "write_newrow s" ?s] by (simp add: write_wrap_def write_newrow_def)
    then have "console_step s s'" using s'(2) console_step_ops(1) console_step_trans by blast
    with s' len True sl show ?thesis by (subst write_loop.simps) (auto simp: printf_char)
  qed
qed

text \<open>A text that fits into the rest of the row is shown there, and the cursor is behind it.\<close>

lemma write_turn_row:
  fixes len :: nat
  assumes "on_screen s" "screen_x s + 1 < NUM_COLS" "\<not> is_newline c"
  defines "s' \<equiv> putc c (write_wrap len (write_newrow s))"
  shows "on_screen s'" "screen_x s' = screen_x s + 1" "screen_y s' = screen_y s"
    "chars (mem s') = (chars (mem s))[cursor_cell s := c]"
proof -
  let ?s = "write_wrap len (write_newrow s)"
  have s: "mem ?s = mem s" "screen_x ?s = screen_x s" "screen_y ?s = screen_y s"
    using assms(1,2) by (auto simp: write_wrap_def write_newrow_def on_screen_def get_cursor_x_def get_cursor_y_def)
  then have on: "on_screen ?s" and cell: "cursor_cell ?s = cursor_cell s"
    using assms(1) by (auto simp: on_screen_def cursor_cell_def)
  show "on_screen s'" using putc_on_screen[OF assms(3) on] by (simp add: s'_def)
  show "screen_x s' = screen_x s + 1" "screen_y s' = screen_y s"
    using putc_cursor[OF assms(3) on] s assms(2) by (auto simp: s'_def)
  show "chars (mem s') = (chars (mem s))[cursor_cell s := c]"
    using put_cell_chars(1)[OF on] s cell assms(3) by (simp add: s'_def putc_mem)
qed

lemma write_loop_row:
  assumes "terminated buf" "i \<le> length (cstr buf)" "on_screen s"
    and "screen_x s + int (length (cstr buf) - i) < NUM_COLS"
    and "\<forall>c\<in>set (cstr buf). \<not> is_newline c" "int (length (cstr buf)) \<le> nbytes"
  defines "t \<equiv> drop i (cstr buf)"
  shows "\<exists>s'. write_loop buf nbytes i s = Ret s' \<and> console_step s s' \<and>
    screen_x s' = screen_x s + int (length t) \<and> screen_y s' = screen_y s \<and>
    chars (mem s') = take (cursor_cell s) (chars (mem s)) @ t @ drop (cursor_cell s + length t) (chars (mem s))"
  using assms(1-6) unfolding t_def
proof (induction "length (cstr buf) - i" arbitrary: i s)
  case 0
  then have i: "i = length (cstr buf)" by simp
  have "i < length buf" "buf ! i = 0"
    using i length_cstr_less[OF assms(1)] nth_length_cstr[of buf] by auto
  with i show ?case by (subst write_loop.simps) simp
next
  case (Suc d)
  let ?n = "length (cstr buf)"
  have i: "i < ?n" using Suc.hyps(2) by simp
  have b: "i < length buf" "buf ! i \<noteq> 0" "buf ! i = cstr buf ! i"
    using i length_cstr_less[OF assms(1)] nth_cstr_nonzero[OF i] nth_cstr[OF i] by auto
  have nl: "\<not> is_newline (buf ! i)" using Suc.prems(5) i b(3) nth_mem by metis
  let ?s = "putc (buf ! i) (write_wrap ?n (write_newrow s))"
  have x: "screen_x s + 1 < NUM_COLS" using Suc.prems(4) i by linarith
  note turn = write_turn_row[OF Suc.prems(3) x nl, of ?n]
  have step: "console_step s ?s"
    using write_newrow_safe(3)[of s] write_wrap_safe(5)[of "write_newrow s" ?n] x Suc.prems(3)
      write_newrow_safe(1)[of s] console_step_ops(1) console_step_trans
    by (metis near_screen_def write_newrow_x)
  have "\<exists>s'. write_loop buf nbytes (Suc i) ?s = Ret s' \<and> console_step ?s s' \<and>
    screen_x s' = screen_x ?s + int (length (drop (Suc i) (cstr buf))) \<and> screen_y s' = screen_y ?s \<and>
    chars (mem s') = take (cursor_cell ?s) (chars (mem ?s)) @ drop (Suc i) (cstr buf) @
      drop (cursor_cell ?s + length (drop (Suc i) (cstr buf))) (chars (mem ?s))"
    using Suc.hyps(2) Suc.prems i turn x by (intro Suc.hyps(1)) auto
  then obtain s' where s': "write_loop buf nbytes (Suc i) ?s = Ret s'" "console_step ?s s'"
    "screen_x s' = screen_x ?s + int (length (drop (Suc i) (cstr buf)))" "screen_y s' = screen_y ?s"
    "chars (mem s') = take (cursor_cell ?s) (chars (mem ?s)) @ drop (Suc i) (cstr buf) @
      drop (cursor_cell ?s + length (drop (Suc i) (cstr buf))) (chars (mem ?s))" by blast
  have k: "cursor_cell ?s = Suc (cursor_cell s)" "cursor_cell s < 2000"
    using turn(2,3) Suc.prems(3) cursor_cell_less by (auto simp: cursor_cell_def on_screen_def)
  have "write_loop buf nbytes i s = Ret s'"
    using s'(1) b Suc.prems(6) i assms(1) by (subst write_loop.simps) (simp add: strlen_eq printf_char)
  moreover have "chars (mem s') = take (cursor_cell s) (chars (mem s)) @ drop i (cstr buf) @
      drop (cursor_cell s + length (drop i (cstr buf))) (chars (mem s))"
    unfolding s'(5) turn(4) k(1) using k(2) i b(3)
    by (simp add: take_Suc_update Cons_nth_drop_Suc[symmetric])
  ultimately show ?case
    using console_step_trans[OF step s'(2)] s'(3,4) turn(2,3) i by auto
qed

section \<open>The line being typed\<close>

lemma console_step_terminals:
  assumes "console_step s s'"
  shows "terminals s' = terminals s" "old_terminal s' = old_terminal s"
  using arg_cong[OF assms[unfolded console_step_def], of terminals]
    arg_cong[OF assms[unfolded console_step_def], of old_terminal] by simp_all

definition term_wf :: "'a sched_scheme \<Rightarrow> bool" where
  "term_wf s \<longleftrightarrow> length (terminals s) = 3 \<and> old_terminal s < 3 \<and>
     (\<forall>t\<in>set (terminals s). length (line_buffer t) = NUM_CHARS \<and> buffer_i t \<le> NUM_CHARS)"

definition typed :: "'a sched_scheme \<Rightarrow> u8 list" where
  "typed s = take (buffer_i (shown s)) (line_buffer (shown s))"

lemma shown_wf: "term_wf s \<Longrightarrow> length (line_buffer (shown s)) = NUM_CHARS \<and> buffer_i (shown s) \<le> NUM_CHARS"
  by (auto simp: term_wf_def shown_def)

lemma length_typed: "term_wf s \<Longrightarrow> length (typed s) = buffer_i (shown s)"
  using shown_wf[of s] by (simp add: typed_def)

lemma console_step_wf:
  assumes "console_step s s'"
  shows "term_wf s' = term_wf s" "shown s' = shown s" "typed s' = typed s"
  using console_step_terminals[OF assms] by (simp_all add: term_wf_def shown_def typed_def)

lemma shown_update:
  assumes "term_wf s"
  shows "shown (update_terminal (old_terminal s) f s) = f (shown s)"
  using assms by (simp add: shown_def update_terminal_def term_wf_def)

lemma term_wf_update:
  assumes "term_wf s" "length (line_buffer (f (shown s))) = NUM_CHARS" "buffer_i (f (shown s)) \<le> NUM_CHARS"
  shows "term_wf (update_terminal (old_terminal s) f s)"
  using assms unfolding term_wf_def update_terminal_def shown_def
  by (auto dest!: set_update_subset_insert[THEN subsetD])

text \<open>Backspace removes the last character of the line, if there is one.\<close>

lemma backspace_typed:
  assumes "term_wf s"
  shows "typed (backspace_pressed s) = butlast (typed s)" "term_wf (backspace_pressed s)"
    "old_terminal (backspace_pressed s) = old_terminal s"
proof -
  let ?s = "update_terminal (old_terminal s) (\<lambda>t. t\<lparr>buffer_i := buffer_i t - 1\<rparr>) s"
  note w = shown_wf[OF assms]
  have wf: "term_wf ?s" by (rule term_wf_update[OF assms]) (use w in auto)
  have ty: "typed ?s = butlast (typed s)"
    using w by (simp add: typed_def shown_update[OF assms] butlast_take)
  have st: "console_step ?s (move_back ?s)" by simp
  note m = console_step_wf[OF st]
  show "typed (backspace_pressed s) = butlast (typed s)"
    using m(3) ty w by (auto simp: backspace_pressed_def typed_def)
  show "term_wf (backspace_pressed s)"
    using m(1) wf assms by (simp add: backspace_pressed_def)
  show "old_terminal (backspace_pressed s) = old_terminal s"
    using console_step_terminals(2)[OF st] by (auto simp: backspace_pressed_def update_terminal_def)
qed

lemma echo_key_step:
  "\<exists>s'. echo_key c s = Ret s' \<and> terminals s' = terminals s \<and> old_terminal s' = old_terminal s"
proof (cases "c = 10")
  case False
  then show ?thesis using console_step_terminals[OF console_step_ops(1), of c s]
    by (auto simp: echo_key_def printf_char)
next
  case True
  let ?s1 = "if get_cursor_y s + 1 < NUM_ROWS then set_cursor 0 (get_cursor_y s) s
    else pressed_enter (s\<lparr>check_enter := True\<rparr>)"
  have "terminals ?s1 = terminals s \<and> old_terminal ?s1 = old_terminal s"
    using console_step_terminals[OF console_step_ops(3), of "s\<lparr>check_enter := True\<rparr>"]
      console_step_terminals[OF console_step_ops(2), of 0 "get_cursor_y s" s] by simp
  then show ?thesis using True console_step_terminals[OF console_step_ops(2), of 0 "get_cursor_y ?s1" ?s1]
    by (simp add: echo_key_def Let_def)
qed

lemma store_key_typed:
  assumes "term_wf s" "length (typed s) < NUM_CHARS"
  shows "\<exists>s'. store_key c s = Ret s' \<and> term_wf s' \<and> typed s' = typed s @ [c] \<and> old_terminal s' = old_terminal s"
proof -
  note w = shown_wf[OF assms(1)]
  have i: "buffer_i (shown s) < NUM_CHARS" using assms length_typed by metis
  let ?f = "\<lambda>t. t\<lparr>line_buffer := (line_buffer (shown s))[buffer_i (shown s) := c], buffer_i := buffer_i t + 1\<rparr>"
  have "term_wf (update_terminal (old_terminal s) ?f s)"
    by (rule term_wf_update[OF assms(1)]) (use w i in auto)
  then show ?thesis using w i
    by (simp add: store_key_def typed_def shown_update[OF assms(1)] take_Suc_update)
      (simp add: update_terminal_def)
qed

text \<open>A character is appended to the line while it has fewer than 128 characters.\<close>

lemma key_typed_line:
  assumes wf: "term_wf s" and c: "c \<noteq> 8"
  shows "\<exists>s'. key_typed c s = Ret s' \<and> term_wf s' \<and>
    typed s' = (if length (typed s) < NUM_CHARS then typed s @ [c] else typed s) \<and> old_terminal s' = old_terminal s"
proof -
  let ?s1 = "s\<lparr>check_enter := False\<rparr>"
  have wf1: "term_wf ?s1" "typed ?s1 = typed s" "buffer_i (shown ?s1) = length (typed s)"
    using wf length_typed[OF wf] by (simp_all add: term_wf_def typed_def shown_def)
  let ?body = "if buffer_i (shown ?s1) < NUM_CHARS then obind (echo_key c ?s1) (store_key c) else Ret ?s1"
  have "\<exists>s3. ?body = Ret s3 \<and> term_wf s3 \<and>
      typed s3 = (if length (typed s) < NUM_CHARS then typed s @ [c] else typed s) \<and> old_terminal s3 = old_terminal s"
  proof (cases "length (typed s) < NUM_CHARS")
    case True
    obtain s2 where s2: "echo_key c ?s1 = Ret s2" "terminals s2 = terminals ?s1" "old_terminal s2 = old_terminal ?s1"
      using echo_key_step[of c ?s1] by blast
    then have "term_wf s2" "typed s2 = typed s"
      using wf1 by (simp_all add: term_wf_def typed_def shown_def)
    then have "\<exists>s'. store_key c s2 = Ret s' \<and> term_wf s' \<and> typed s' = typed s @ [c] \<and> old_terminal s' = old_terminal s"
      using store_key_typed[of s2 c] True s2(3) by simp
    with True s2(1) wf1(3) show ?thesis by simp
  next
    case False
    with wf1 show ?thesis by simp
  qed
  then obtain s3 where s3: "?body = Ret s3" "term_wf s3"
    "typed s3 = (if length (typed s) < NUM_CHARS then typed s @ [c] else typed s)" "old_terminal s3 = old_terminal s" by blast
  let ?s4 = "if get_cursor_x s3 = 0 \<or> get_cursor_x s3 = NUM_COLS
     then if get_cursor_y s3 + 1 < NUM_ROWS then set_cursor 0 (get_cursor_y s3 + 1) s3
          else if \<not> check_enter s3 then pressed_enter s3 else s3
     else s3"
  have st: "console_step s3 ?s4" by simp
  note w4 = console_step_wf[OF st] console_step_terminals(2)[OF st]
  have "key_typed c s = Ret ?s4" using s3(1) c by (simp add: key_typed_def)
  with s3 w4 show ?thesis by auto
qed

text \<open>Reading hands the line over and empties the buffer.\<close>

lemma keyboard_read_line:
  assumes "term_wf s" "length (typed s) < length buf"
  shows "\<exists>s'. keyboard_read buf s =
      Ret (int (length (typed s)), typed s @ 0 # drop (Suc (length (typed s))) buf, s') \<and> typed s' = [] \<and> term_wf s'"
proof -
  note w = shown_wf[OF assms(1)]
  let ?s1 = "update_cursor (get_cursor_y s) (get_cursor_x s) s"
  have st: "console_step s ?s1" by simp
  have "buf_store buf 0 (typed s @ [0]) = Ret (typed s @ 0 # drop (Suc (length (typed s))) buf)"
    using assms(2) by (subst buf_store_fits) auto
  moreover have "typed (update_terminal (old_terminal ?s1) (\<lambda>t. t\<lparr>buffer_i := 0\<rparr>) ?s1) = []"
    using shown_update[of ?s1] console_step_wf(1)[OF st] assms(1) by (simp add: typed_def)
  moreover have "term_wf (update_terminal (old_terminal ?s1) (\<lambda>t. t\<lparr>buffer_i := 0\<rparr>) ?s1)"
    using w console_step_wf[OF st] assms(1) by (intro term_wf_update) auto
  ultimately show ?thesis
    using w length_typed[OF assms(1)] by (simp add: keyboard_read_def Let_def typed_def)
qed

text \<open>
  The line editor: characters are appended to a line of at most 128, backspace removes the last.
\<close>

datatype key = Char u8 | Backspace

fun edit :: "u8 list \<Rightarrow> key \<Rightarrow> u8 list" where
  "edit l (Char c) = (if length l < NUM_CHARS then l @ [c] else l)"
| "edit l Backspace = butlast l"

fun key_irq :: "key \<Rightarrow> 'a kbd_scheme \<Rightarrow> 'a kbd_scheme outcome" where
  "key_irq (Char c) s = key_typed c s"
| "key_irq Backspace s = Ret (backspace_pressed s)"

definition plain_key :: "key \<Rightarrow> bool" where
  "plain_key k = (case k of Char c \<Rightarrow> c \<noteq> 8 \<and> c \<noteq> 10 | Backspace \<Rightarrow> True)"

lemma key_irq_edit:
  assumes "term_wf s" "k \<noteq> Char 8"
  shows "\<exists>s'. key_irq k s = Ret s' \<and> term_wf s' \<and> typed s' = edit (typed s) k \<and> old_terminal s' = old_terminal s"
  using assms key_typed_line[OF assms(1)] backspace_typed[OF assms(1)] by (cases k) auto

lemma set_butlast_subset: "set (butlast xs) \<subseteq> set xs"
  by (auto dest: in_set_butlastD)

lemma edit_no_newline: "plain_key k \<Longrightarrow> 10 \<notin> set l \<Longrightarrow> 10 \<notin> set (edit l k)"
  by (cases k) (auto simp: plain_key_def dest: in_set_butlastD)

lemma line_ready_shown:
  "term_wf s \<Longrightarrow> line_ready (old_terminal s) s \<longleftrightarrow> typed s \<noteq> [] \<and> last (typed s) = 10"
  using shown_wf[of s]
  by (cases "buffer_i (shown s)") (auto simp: line_ready_def Let_def typed_def shown_def[symmetric] take_Suc_conv_app_nth)

section \<open>What keys leave alone\<close>

text \<open>
  A part of the state that depends neither on the console nor on the terminals' records, but for the
  program on each terminal, is the same after a key has been handled.
\<close>

locale key_view =
  fixes view :: "'a kbd_scheme \<Rightarrow> 'v"
  assumes view_console: "console_step s s' \<Longrightarrow> view s' = view s"
    and view_check_enter: "view (s\<lparr>check_enter := b\<rparr>) = view s"
    and view_terminal: "(\<And>t. program_id (f t) = program_id t) \<Longrightarrow> view (update_terminal k f s) = view s"
begin

lemma view_echo_key: "echo_key c s = Ret s' \<Longrightarrow> view s' = view s"
proof -
  assume e: "echo_key c s = Ret s'"
  have p: "view (pressed_enter (s\<lparr>check_enter := True\<rparr>)) = view s"
    using view_console[OF console_step_ops(3), of "s\<lparr>check_enter := True\<rparr>"] by (simp add: view_check_enter)
  have c: "view (set_cursor x y t) = view t" for x y and t :: "'a kbd_scheme"
    by (rule view_console) simp
  have "view (putc c s) = view s" by (rule view_console) simp
  with e p c show ?thesis by (auto simp: echo_key_def printf_char Let_def split: if_splits)
qed

lemma view_backspace: "view (backspace_pressed s) = view s"
  using view_console[OF console_step_ops(5), of "update_terminal (old_terminal s) (\<lambda>t. t\<lparr>buffer_i := buffer_i t - 1\<rparr>) s"]
  by (simp add: backspace_pressed_def view_terminal)

lemma view_key_typed: "key_typed c s = Ret s' \<Longrightarrow> view s' = view s"
proof -
  assume k: "key_typed c s = Ret s'"
  have cur: "view (set_cursor x y t) = view t" "view (pressed_enter t) = view t"
    for x y and t :: "'a kbd_scheme" by (rule view_console, simp)+
  define r where "r = (if c = 8 then (0, backspace_pressed (s\<lparr>check_enter := False\<rparr>)) else (c, s\<lparr>check_enter := False\<rparr>))"
  have v: "view (snd r) = view s"
    using view_check_enter view_backspace[of "s\<lparr>check_enter := False\<rparr>"] by (simp add: r_def)
  have "obind (if buffer_i (shown (snd r)) < NUM_CHARS then obind (echo_key (fst r) (snd r)) (store_key (fst r)) else Ret (snd r)) (\<lambda>s3.
      if get_cursor_x s3 = 0 \<or> get_cursor_x s3 = NUM_COLS
      then if get_cursor_y s3 + 1 < NUM_ROWS then Ret (set_cursor 0 (get_cursor_y s3 + 1) s3)
           else if \<not> check_enter s3 then Ret (pressed_enter s3) else Ret s3
      else Ret s3) = Ret s'"
    using k unfolding key_typed_def Let_def r_def by (simp add: split_beta)
  then show ?thesis
    by (auto simp: store_key_def outcome_simps cur v view_terminal split: if_splits dest!: view_echo_key)
qed

lemma view_key_irq: "key_irq k s = Ret s' \<Longrightarrow> view s' = view s"
  by (cases k) (auto simp: view_key_typed view_backspace)

end

section \<open>Properties\<close>

definition demo_kbd :: kbd where
  "demo_kbd = sched.extend demo_sched (kbd.fields False False False False False)"

lemma demo_kbd_simps [simp]:
  "terminals demo_kbd = terminals demo_sched" "old_terminal demo_kbd = 0" "cr3 demo_kbd = Page_directory 1"
  "screen_x demo_kbd = 0" "screen_y demo_kbd = 0"
  by (simp_all add: demo_kbd_def kbd.defs demo_sched_def sched.defs paging.defs demo_paging_def rtc.defs demo_rtc_def
    pic.defs demo_pic_def fs.defs demo_fs_def)

lemma demo_find_terminal: "find_programid demo_kbd = Ret 1" "find_terminal 1 demo_kbd = 0"
  by (simp_all add: find_programid_def find_terminal_def demo_terminal_def upt_rec)

lemma demo_term_wf: "term_wf demo_kbd"
  by (simp add: term_wf_def demo_terminal_def)

text \<open>
  C32: \<open>terminal_write\<close> of a text that is longer than 80 characters, or ends before the last column,
  changes no memory but the screen and the byte at offset 4001, and leaves the cursor on the screen
  or at the start of the row below it, where the next call scrolls.
\<close>

theorem terminal_write_safe:
  assumes "terminated buf" "near_screen s" "find_programid s = Ret pid" "find_terminal pid s \<noteq> -1"
    and "80 < length (cstr buf) \<or> screen_x s + int (length (cstr buf)) < NUM_COLS"
  shows "\<exists>s'. terminal_write buf nbytes s = Ret (0, s') \<and> near_screen s' \<and> screen_only s s'"
proof -
  obtain s1 where s1: "write_loop buf nbytes 0 s = Ret s1" "near_screen s1" "screen_only s s1"
    using write_loop_safe[OF assms(1,2), of 0 nbytes] assms(5) by auto
  then show ?thesis using assms(3,4)
    by (simp add: terminal_write_def near_screen_def on_screen_def screen_only_def update_terminal_def Let_def)
qed

theorem terminal_write_safe_witness:
  "\<exists>s'. terminal_write (replicate 200 65 @ [0]) 200 demo_kbd = Ret (0, s') \<and> near_screen s' \<and> screen_only demo_kbd s'"
  using terminal_write_safe[of "replicate 200 65 @ [0]" demo_kbd 1 200]
  by (simp add: demo_find_terminal terminated_def near_screen_def on_screen_def cstr_append)

text \<open>
  a text without newlines that ends before the last column appears at the cursor, and the
  cursor is behind it.
\<close>

lemma terminal_write_row:
  assumes "terminated buf" "on_screen s" "find_programid s = Ret pid" "find_terminal pid s \<noteq> -1"
    and "screen_x s + int (length (cstr buf)) < NUM_COLS"
    and "\<forall>c\<in>set (cstr buf). \<not> is_newline c" "int (length (cstr buf)) \<le> nbytes"
  shows "\<exists>s'. terminal_write buf nbytes s = Ret (0, s') \<and>
    screen_x s' = screen_x s + int (length (cstr buf)) \<and> screen_y s' = screen_y s \<and>
    chars (mem s') = take (cursor_cell s) (chars (mem s)) @ cstr buf @ drop (cursor_cell s + length (cstr buf)) (chars (mem s))"
proof -
  obtain s1 where "write_loop buf nbytes 0 s = Ret s1" "screen_x s1 = screen_x s + int (length (cstr buf))"
    "screen_y s1 = screen_y s" "chars (mem s1) =
      take (cursor_cell s) (chars (mem s)) @ cstr buf @ drop (cursor_cell s + length (cstr buf)) (chars (mem s))"
    using write_loop_row[OF assms(1), of 0 s nbytes] assms by auto
  then show ?thesis using assms(3,4) by (simp add: terminal_write_def update_terminal_def Let_def)
qed

lemma terminal_write_row_witness:
  "\<exists>s'. terminal_write [104, 105, 0] 2 demo_kbd = Ret (0, s') \<and> screen_x s' = 2 \<and> screen_y s' = 0"
  using terminal_write_row[of "[104, 105, 0]" demo_kbd 1 2]
  by (auto simp: demo_find_terminal terminated_def on_screen_def cstr_def is_newline_def)

text \<open>
  A text of at most 80 characters that starts in the last column of the last row is not scrolled
  into view: its first character is stored behind the screen, at offset 4000 of video memory, and the
  cursor goes on in the first row.
\<close>

lemma terminal_write_last_cell:
  assumes "screen_x s = 79" "screen_y s = 24" "find_programid s = Ret pid" "find_terminal pid s \<noteq> -1"
    and "\<not> is_newline c" "c \<noteq> 0" "0 < nbytes"
  shows "\<exists>s'. terminal_write [c, 0] nbytes s = Ret (0, s') \<and> screen_x s' = 1 \<and> screen_y s' = 0 \<and> mem s' (vid 4000) = c"
proof -
  let ?s = "set_cursor 0 25 s"
  have sl: "strlen [c, 0] = Ret 1" using assms(6) by (simp add: strlen_eq terminated_def cstr_def)
  have w: "write_wrap 1 (write_newrow s) = ?s"
    using assms(1,2) by (simp add: write_newrow_def write_wrap_def get_cursor_x_def get_cursor_y_def)
  have "vid 4000 \<noteq> vid 4001" by (simp add: vid_eq_iff)
  then have p: "mem (putc c ?s) (vid 4000) = c" "screen_x (putc c ?s) = 1" "screen_y (putc c ?s) = 0"
    using assms(5) by (simp_all add: putc_mem put_cell_def cell_off_def) (simp_all add: putc_def is_newline_def cmod_def cdiv_def)
  have "write_loop [c, 0] nbytes 0 s = Ret (putc c ?s)"
    using assms(6,7) sl w by (simp add: write_loop.simps printf_char)
  then show ?thesis using assms(3,4) p by (simp add: terminal_write_def update_terminal_def Let_def)
qed

end
