(* ===== verification/Syscall.thy ===== *)
theory Syscall
  imports Terminal
begin

text \<open>
  The system calls of \<open>systemcall.c\<close> over the process control blocks of \<open>pcb.h\<close>: \<open>execute\<close>, \<open>halt\<close>,
  \<open>read\<close>, \<open>write\<close>, \<open>open\<close>, \<open>close\<close>, \<open>getargs\<close>, \<open>vidmap\<close>, with \<open>page_loader\<close> and \<open>read_file\<close>.
  The block of program \<open>n\<close> (1 to 6) lies at \<open>MB_8 - KB_8*n\<close> and is \<open>pcbs s n\<close>; number 0 would be at
  8 MB, which is not mapped, so following it is \<open>Undef\<close>. A user pointer is a list of bytes, \<open>None\<close>
  for \<open>NULL\<close>. What a call meets outside the kernel is its argument \<open>env\<close>: the devices, the clock
  ticks and interrupts that come in while it waits, the stack bytes that \<open>execute\<close> does not
  initialise and the two stack registers it saves.
\<close>

section \<open>State\<close>

datatype sys_ops = Rtc_ops | Terminal_ops | Directory_ops | File_ops

record file_descriptor =
  fd_fileName :: "u8 list"
  inode_ptr :: "u32 option"
  filePosition :: u32
  flags :: u32
  sysops_ptr :: "sys_ops option"

record pcb =
  fd :: "file_descriptor list"
  prev_pcb :: int
  pcb_esp :: u32
  pcb_ebp :: u32
  pcb_cr3 :: pdir
  parent_pid :: int
  argument :: "u8 list"

record kernel = kbd +
  openTasks :: "int list"
  pcbs :: "nat \<Rightarrow> pcb"
  ops_value :: "sys_ops \<Rightarrow> u32"
  curr_status :: u32
  first_shell_entry_point :: u32
  program_image :: "nat \<Rightarrow> u8 list"

record 'a env =
  env_dev :: device
  env_ticks :: "bool list"
  env_irqs :: "('a kernel_scheme \<Rightarrow> 'a kernel_scheme outcome) list"
  env_junk :: "u8 list"
  env_esp :: u32
  env_ebp :: u32
  env_tables :: "nat \<Rightarrow> u32"

definition pcb_of :: "int \<Rightarrow> 'a kernel_scheme \<Rightarrow> pcb outcome" where
  "pcb_of pid s = (if 1 \<le> pid \<and> pid \<le> 6 then Ret (pcbs s (nat pid)) else Undef)"

definition update_pcb :: "nat \<Rightarrow> (pcb \<Rightarrow> pcb) \<Rightarrow> 'a kernel_scheme \<Rightarrow> 'a kernel_scheme" where
  "update_pcb n f s = s\<lparr>pcbs := (pcbs s)(n := f (pcbs s n))\<rparr>"

definition update_fd :: "nat \<Rightarrow> nat \<Rightarrow> (file_descriptor \<Rightarrow> file_descriptor) \<Rightarrow> 'a kernel_scheme \<Rightarrow> 'a kernel_scheme" where
  "update_fd n i f s = update_pcb n (\<lambda>p. p\<lparr>fd := (fd p)[i := f (fd p ! i)]\<rparr>) s"

definition bytes_of :: "u8 list option \<Rightarrow> u8 list" where
  "bytes_of buf = (case buf of None \<Rightarrow> [] | Some b \<Rightarrow> b)"

definition put_back :: "u8 list option \<Rightarrow> u8 list \<Rightarrow> u8 list option" where
  "put_back buf b = (case buf of None \<Rightarrow> None | Some _ \<Rightarrow> Some b)"

section \<open>Files\<close>

definition read_file :: "nat \<Rightarrow> u8 list option \<Rightarrow> u32 \<Rightarrow> 'a kernel_scheme \<Rightarrow> (int \<times> u8 list option \<times> 'a kernel_scheme) outcome" where
  "read_file i buf bytes s =
     obind (find_programid s) (\<lambda>pid. obind (pcb_of pid s) (\<lambda>p.
     obind (buf_get (fd p) i) (\<lambda>d.
     obind (read_dentry_by_name (fd_fileName d) s) (\<lambda>r.
     case r of None \<Rightarrow> Ret (-1, buf, s)
     | Some tempDentry \<Rightarrow>
         obind (read_data (inodeNum tempDentry) (filePosition d) buf bytes s) (\<lambda>(byteRead, buf').
         if byteRead = -1 then Ret (-1, buf', s)
         else if byteRead = 0
         then Ret (0, buf', update_fd (nat pid) i
                (\<lambda>d. d\<lparr>filePosition := inode_length s (get_inodeptr (inodeNum tempDentry) s)\<rparr>) s)
         else Ret (byteRead, buf', update_fd (nat pid) i
                (\<lambda>d'. d'\<lparr>filePosition := word_of_int byteRead + filePosition d\<rparr>) s))))))"

text \<open>The entries of the four jump tables.\<close>

definition read_driver :: "'a env \<Rightarrow> sys_ops \<Rightarrow> nat \<Rightarrow> u8 list option \<Rightarrow> u32 \<Rightarrow> 'a kernel_scheme \<Rightarrow> (int \<times> u8 list option \<times> 'a kernel_scheme) option outcome" where
  "read_driver env ops i buf nbytes s =
     (case ops of
        Rtc_ops \<Rightarrow> Ret (map_option (\<lambda>(r, s'). (r, buf, s')) (rtc_read (env_dev env) (env_ticks env) s))
      | Terminal_ops \<Rightarrow>
          obind (terminal_read (env_irqs env) (bytes_of buf) s) (\<lambda>r.
          Ret (map_option (\<lambda>(k, b, s'). (k, put_back buf b, s')) r))
      | Directory_ops \<Rightarrow>
          obind (read_directory (bytes_of buf) s) (\<lambda>(k, b, s'). Ret (Some (k, put_back buf b, s')))
      | File_ops \<Rightarrow> obind (read_file i buf nbytes s) (\<lambda>r. Ret (Some r)))"

definition write_driver :: "'a env \<Rightarrow> sys_ops \<Rightarrow> int \<Rightarrow> u8 list option \<Rightarrow> int \<Rightarrow> 'a kernel_scheme \<Rightarrow> (int \<times> 'a kernel_scheme) outcome" where
  "write_driver env ops i buf nbytes s =
     (case ops of
        Rtc_ops \<Rightarrow> Ret (rtc_write (env_dev env) i nbytes s)
      | Terminal_ops \<Rightarrow> terminal_write (bytes_of buf) nbytes s
      | Directory_ops \<Rightarrow> Ret (write_directory i (bytes_of buf) nbytes, s)
      | File_ops \<Rightarrow> Ret (write_file i (bytes_of buf) nbytes, s))"

definition read_call :: "'a env \<Rightarrow> int \<Rightarrow> u8 list option \<Rightarrow> u32 \<Rightarrow> 'a kernel_scheme \<Rightarrow> (int \<times> u8 list option \<times> 'a kernel_scheme) option outcome" where
  "read_call env i buf nbytes s =
     obind (find_programid s) (\<lambda>pid.
     if i < 0 \<or> i > 7 \<or> i = 1 then Ret (Some (-1, buf, s))
     else obind (pcb_of pid s) (\<lambda>p. obind (buf_get (fd p) (nat i)) (\<lambda>d.
     if flags d = 0 then Ret (Some (-1, buf, s))
     else case sysops_ptr d of None \<Rightarrow> Undef | Some ops \<Rightarrow> read_driver env ops (nat i) buf nbytes s)))"

definition write_call :: "'a env \<Rightarrow> int \<Rightarrow> u8 list option \<Rightarrow> int \<Rightarrow> 'a kernel_scheme \<Rightarrow> (int \<times> 'a kernel_scheme) outcome" where
  "write_call env i buf nbytes s =
     obind (find_programid s) (\<lambda>pid.
     if i < 0 \<or> i > 7 \<or> i = 0 then Ret (-1, s)
     else obind (pcb_of pid s) (\<lambda>p. obind (buf_get (fd p) (nat i)) (\<lambda>d.
     if flags d = 0 then Ret (-1, s)
     else case sysops_ptr d of None \<Rightarrow> Undef
          | Some ops \<Rightarrow>
              obind (write_driver env ops i buf nbytes s) (\<lambda>(r, s').
              if r = 0 then obind (strlen (bytes_of buf)) (\<lambda>n. Ret (int n, s')) else Ret (-1, s')))))"

section \<open>File descriptors\<close>

definition open_driver :: "'a env \<Rightarrow> sys_ops \<Rightarrow> u8 list \<Rightarrow> 'a kernel_scheme \<Rightarrow> (int \<times> 'a kernel_scheme) outcome" where
  "open_driver env ops filename s =
     (case ops of
        Rtc_ops \<Rightarrow> Ret (rtc_open (env_dev env) filename s)
      | Terminal_ops \<Rightarrow> Ret (terminal_open filename, s)
      | Directory_ops \<Rightarrow> Ret (open_directory filename, s)
      | File_ops \<Rightarrow> obind (open_file filename s) (\<lambda>r. Ret (r, s)))"

definition set_ops :: "nat \<Rightarrow> nat \<Rightarrow> sys_ops \<Rightarrow> u32 \<Rightarrow> 'a kernel_scheme \<Rightarrow> 'a kernel_scheme" where
  "set_ops n i ops v s =
     (let s1 = update_fd n i (\<lambda>d. d\<lparr>sysops_ptr := Some ops\<rparr>) s
      in s1\<lparr>ops_value := (ops_value s1)(ops := v)\<rparr>)"

text \<open>The descriptor \<open>i\<close> of program \<open>n\<close> is set up for a directory entry; \<open>None\<close> for an unknown type.\<close>

definition setup_fd :: "nat \<Rightarrow> nat \<Rightarrow> dentry \<Rightarrow> u8 list \<Rightarrow> 'a kernel_scheme \<Rightarrow> (sys_ops option \<times> 'a kernel_scheme) outcome" where
  "setup_fd n i tempDentry filename s =
     (let s1 = update_fd n i (\<lambda>d. d\<lparr>filePosition := 0\<rparr>) s
      in if fileType tempDentry = 0
         then Ret (Some Rtc_ops, update_fd n i (\<lambda>d. d\<lparr>inode_ptr := None\<rparr>) (set_ops n i Rtc_ops 1 s1))
         else if fileType tempDentry = 1 then Ret (Some Directory_ops, set_ops n i Directory_ops 2 s1)
         else if fileType tempDentry = 2
         then obind (strcpy (fd_fileName (fd (pcbs s1 n) ! i)) filename) (\<lambda>nm.
              Ret (Some File_ops, set_ops n i File_ops 3
                (update_fd n i (\<lambda>d. d\<lparr>filePosition := 0,
                   inode_ptr := Some (get_inodeptr (inodeNum tempDentry) s1), fd_fileName := nm\<rparr>) s1)))
         else Ret (None, s1))"

definition open_at :: "'a env \<Rightarrow> nat \<Rightarrow> nat \<Rightarrow> dentry \<Rightarrow> u8 list \<Rightarrow> 'a kernel_scheme \<Rightarrow> (int \<times> 'a kernel_scheme) outcome" where
  "open_at env n i tempDentry filename s =
     obind (setup_fd n i tempDentry filename (update_fd n i (\<lambda>d. d\<lparr>flags := 1\<rparr>) s)) (\<lambda>(ops, s1).
     case ops of None \<Rightarrow> Ret (-1, s1)
     | Some ops \<Rightarrow>
         obind (open_driver env ops filename s1) (\<lambda>(v, s2).
         Ret (if v = 0 then int i else -1, s2)))"

definition open_call :: "'a env \<Rightarrow> u8 list \<Rightarrow> 'a kernel_scheme \<Rightarrow> (int \<times> 'a kernel_scheme) outcome" where
  "open_call env filename s =
     obind (buf_get filename 0) (\<lambda>c.
     if c = 0 then Ret (-1, s)
     else obind (find_programid s) (\<lambda>pid.
     obind (read_dentry_by_name filename s) (\<lambda>r.
     case r of None \<Rightarrow> Ret (-1, s)
     | Some tempDentry \<Rightarrow>
         obind (pcb_of pid s) (\<lambda>p.
         case first_free (\<lambda>d. flags d = 0) (fd p) [2..<8] of
            None \<Rightarrow> Ret (-1, s)
          | Some i \<Rightarrow> open_at env (nat pid) i tempDentry filename s))))"

definition close_call :: "int \<Rightarrow> 'a kernel_scheme \<Rightarrow> (int \<times> 'a kernel_scheme) outcome" where
  "close_call i s =
     (if i < 2 \<or> i > 7 then Ret (-1, s)
      else obind (find_programid s) (\<lambda>pid. obind (pcb_of pid s) (\<lambda>p.
           obind (buf_get (fd p) (nat i)) (\<lambda>d.
           if flags d = 0 then Ret (-1, s)
           else Ret (0, update_fd (nat pid) (nat i) (\<lambda>d. d\<lparr>flags := 0, sysops_ptr := None, filePosition := 0\<rparr>) s)))))"

definition getargs :: "u8 list \<Rightarrow> int \<Rightarrow> 'a kernel_scheme \<Rightarrow> (int \<times> u8 list) outcome" where
  "getargs buf nbytes s =
     obind (find_programid s) (\<lambda>pid. obind (pcb_of pid s) (\<lambda>p.
     obind (strlen (argument p)) (\<lambda>len.
     if nbytes < int len + 1 then Ret (-1, buf)
     else obind (strcpy buf (argument p)) (\<lambda>b. Ret (0, b)))))"

text \<open>
  Where the kernel gets to by an address of the running program: through the directory that is loaded, with the kernel's privilege. An
  address that is mapped to nothing would be a page fault. A pointer variable is aligned and lies in one page.
\<close>

definition user_address :: "'a env \<Rightarrow> u32 \<Rightarrow> 'a kernel_scheme \<Rightarrow> u32 outcome" where
  "user_address env la s =
     (case cr3 s of No_directory \<Rightarrow> Undef
      | Page_directory t \<Rightarrow> (case translate (env_tables env) s t False True la of None \<Rightarrow> Undef | Some a \<Rightarrow> Ret a))"

definition vidmap :: "'a env \<Rightarrow> u32 \<Rightarrow> 'a kernel_scheme \<Rightarrow> (int \<times> 'a kernel_scheme) outcome" where
  "vidmap env screen_start s =
     (if screen_start = 0 \<or> screen_start = 0x400000 then Ret (-1, s)
      else obind (user_address env screen_start s) (\<lambda>a. Ret (0xB8000, s\<lparr>mem := store32 (mem s) a VIDEO_MEM\<rparr>)))"

section \<open>Starting programs\<close>

fun skip_spaces :: "u8 list \<Rightarrow> u8 list outcome" where
  "skip_spaces [] = Undef"
| "skip_spaces (c # cs) = (if c = SPACE then skip_spaces cs else Ret (c # cs))"

text \<open>
  A word of the command up to a newline, a blank or the NUL, stored from index \<open>len\<close> on, and the
  rest of the command; \<open>None\<close> when more than \<open>limit\<close> characters have been stored.
\<close>

fun parse_word :: "nat \<Rightarrow> u8 list \<Rightarrow> nat \<Rightarrow> u8 list \<Rightarrow> (u8 list \<times> nat \<times> u8 list) option outcome" where
  "parse_word limit buf len [] = Undef"
| "parse_word limit buf len (c # cs) =
     (if c \<noteq> 10 \<and> c \<noteq> SPACE \<and> c \<noteq> 0
      then obind (buf_set buf len c) (\<lambda>b.
           if len + 1 > limit then Ret None else parse_word limit b (len + 1) cs)
      else Ret (Some (buf, len, c # cs)))"

text \<open>The file name and the argument, each with its NUL; \<open>None\<close> for the return value \<open>-1\<close>.\<close>

definition parse_command :: "u8 list \<Rightarrow> (u8 list \<times> u8 list) option outcome" where
  "parse_command command =
     obind (skip_spaces command) (\<lambda>command.
     obind (parse_word 32 (replicate 32 0) 0 command) (\<lambda>r.
     case r of None \<Rightarrow> Ret None
     | Some (file_name, file_name_length, command) \<Rightarrow>
         obind (buf_set file_name file_name_length 0) (\<lambda>file_name.
         obind (skip_spaces command) (\<lambda>command.
         obind (parse_word 128 (replicate 128 0) 0 command) (\<lambda>r.
         case r of None \<Rightarrow> Hang ''invalid command''
         | Some (saved_argument, argument_length, command) \<Rightarrow>
             obind (buf_set saved_argument argument_length 0) (\<lambda>saved_argument.
             Ret (Some (file_name, saved_argument))))))))"

definition page_loader :: "u8 list \<Rightarrow> int \<Rightarrow> 'a kernel_scheme \<Rightarrow> (int \<times> 'a kernel_scheme) outcome" where
  "page_loader file pid s =
     obind (read_dentry_by_name file s) (\<lambda>r.
     case r of None \<Rightarrow> Hang ''didn't find file by name''
     | Some file_dentry \<Rightarrow>
         let inode = inodeNum file_dentry;
             numBytes = inode_length s (get_inodeptr inode s)
         in obind (set_programpage pid s) (\<lambda>s1.
            obind (read_data inode 0 (Some (program_image s1 (nat pid))) numBytes s1) (\<lambda>(r, buf).
            if r = -1 then Hang ''readdata error''
            else Ret (0, s1\<lparr>program_image := (program_image s1)(nat pid := bytes_of buf)\<rparr>))))"

text \<open>
  How \<open>execute\<close> and \<open>halt\<close> end: \<open>execute\<close> returns \<open>-1\<close>; \<open>iret\<close> to user mode at an entry point with
  the stack at 132 MB; or \<open>halt\<close> takes the parent's stack registers and jumps into its \<open>execute\<close>,
  which returns \<open>curr_status\<close>.
\<close>

datatype transfer = Return_error | Enter_user u32 | Return_status u32 u32 u32

definition init_pcb :: "u8 list \<Rightarrow> pcb \<Rightarrow> pcb outcome" where
  "init_pcb saved_argument p =
     (let std = (\<lambda>d. d\<lparr>flags := 1, sysops_ptr := Some Terminal_ops\<rparr>);
          p1 = p\<lparr>fd := (fd p)[0 := std (fd p ! 0), 1 := std (fd p ! 1)]\<rparr>
      in obind (strcpy (argument p1) saved_argument) (\<lambda>a.
         Ret (p1\<lparr>argument := a,
                 fd := fold (\<lambda>i ds. ds[i := (ds ! i)\<lparr>flags := 0\<rparr>]) [2..<7] (fd p1)\<rparr>)))"

text \<open>
  The free slot is given to the new program, with the running program as its parent, or none on a
  new terminal; the run queue gets the terminal of the new program for that of the old one; the
  registers of the running program are saved.
\<close>

definition claim_task :: "nat \<Rightarrow> int \<Rightarrow> 'a kernel_scheme \<Rightarrow> 'a kernel_scheme" where
  "claim_task new cur s =
     (if newterminal_flag s = 1
      then s\<lparr>openTasks := (openTasks s)[new := 0], newterminal_flag := 0\<rparr>
      else s\<lparr>openTasks := (openTasks s)[new := cur]\<rparr>)"

definition requeue :: "int \<Rightarrow> int \<Rightarrow> int \<Rightarrow> 'a sched_scheme \<Rightarrow> 'a sched_scheme" where
  "requeue from_pid to_pid parent s =
     (let tn = find_terminal from_pid s
      in if tn \<noteq> -1
         then let s' = (if parent \<noteq> 0 then remove_task_from_queue (Some tn) s else s)
              in add_task_to_queue (Some (find_terminal to_pid s')) s'
         else s)"

definition save_registers :: "'a env \<Rightarrow> int \<Rightarrow> 'a kernel_scheme \<Rightarrow> 'a kernel_scheme" where
  "save_registers env cur s =
     (if cur \<noteq> 0
      then update_pcb (nat cur) (\<lambda>p. p\<lparr>pcb_cr3 := cr3 s, pcb_esp := env_esp env, pcb_ebp := env_ebp env\<rparr>) s
      else s)"

definition take_slot :: "nat \<Rightarrow> int \<Rightarrow> 'a kernel_scheme \<Rightarrow> 'a kernel_scheme" where
  "take_slot new cur s =
     (let s2 = claim_task new cur s;
          s3 = requeue cur (int new) (openTasks s2 ! new) s2
      in update_terminal (old_terminal s3) (\<lambda>t. t\<lparr>program_id := of_nat new\<rparr>) s3)"

text \<open>\<open>execute\<close> from the point where the file is known to be executable.\<close>

definition start_program :: "'a env \<Rightarrow> u8 list \<Rightarrow> u8 list \<Rightarrow> u32 \<Rightarrow> 'a kernel_scheme \<Rightarrow> (transfer \<times> 'a kernel_scheme) outcome" where
  "start_program env file_name saved_argument entry_point s =
     obind (find_programid s) (\<lambda>cur.
     let s1 = (if cur = 0 then s\<lparr>first_shell_entry_point := entry_point\<rparr> else s)
     in case first_free (\<lambda>p. p = -1) (openTasks s1) [1..<7] of
          None \<Rightarrow> Undef
        | Some new \<Rightarrow>
            let s4 = take_slot new cur s1
            in obind (init_pcb saved_argument (pcbs s4 new)) (\<lambda>p.
               let s5 = update_pcb new (\<lambda>_. p) s4;
                   s6 = save_registers env cur s5
               in obind (page_loader file_name (int new) s6) (\<lambda>(pageval, s7).
                  let s8 = update_pcb new (\<lambda>p. p\<lparr>pcb_cr3 := cr3 s7, prev_pcb := cur, parent_pid := cur\<rparr>) s7;
                      s9 = s8\<lparr>tss_esp0 := kernel_stack (of_nat new), tss_ss0 := KERNEL_DS\<rparr>
                  in Ret (Enter_user entry_point, cli s9))))"

definition execute :: "'a env \<Rightarrow> u8 list option \<Rightarrow> 'a kernel_scheme \<Rightarrow> (transfer \<times> 'a kernel_scheme) outcome" where
  "execute env command s =
     (case command of None \<Rightarrow> Hang ''command is null''
      | Some command \<Rightarrow>
          obind (parse_command command) (\<lambda>r.
          case r of None \<Rightarrow> obind (printf (lit ''invalid command\<newline>'') [] s) (\<lambda>k. Ret (Return_error, snd k))
          | Some (file_name, saved_argument) \<Rightarrow>
              obind (open_file file_name s) (\<lambda>r.
              if r = -1 then Ret (Return_error, s)
              else obind (read_file_sys_helper file_name (Some (env_junk env)) 40 s) (\<lambda>(r, b).
                   let buf = bytes_of b
                   in if length buf < 28 then Undef
                      else if buf ! 0 \<noteq> 0x7f \<or> buf ! 1 \<noteq> 0x45 \<or> buf ! 2 \<noteq> 0x4c \<or> buf ! 3 \<noteq> 0x46
                      then Ret (Return_error, s)
                      else start_program env file_name saved_argument
                             (push_bit 24 (ucast (buf ! 27)) + push_bit 16 (ucast (buf ! 26)) +
                              push_bit 8 (ucast (buf ! 25)) + ucast (buf ! 24)) s))))"

section \<open>Ending programs\<close>

fun close_all :: "int list \<Rightarrow> 'a kernel_scheme \<Rightarrow> 'a kernel_scheme outcome" where
  "close_all [] s = Ret s"
| "close_all (i # is) s = obind (close_call i s) (\<lambda>(r, s'). close_all is s')"

definition halt :: "u8 \<Rightarrow> 'a kernel_scheme \<Rightarrow> (transfer \<times> 'a kernel_scheme) outcome" where
  "halt status s =
     obind (find_programid s) (\<lambda>cur.
     obind (buf_get (openTasks s) (nat cur)) (\<lambda>parent.
     let s2 = requeue cur parent parent (s\<lparr>curr_status := ucast status\<rparr>)
     in if parent = 0 then Ret (Enter_user (first_shell_entry_point s2), cli s2)
        else let s3 = update_terminal (old_terminal s2) (\<lambda>t. t\<lparr>program_id := word_of_int parent\<rparr>) s2
             in obind (set_programpage parent s3) (\<lambda>s4.
                let s5 = s4\<lparr>openTasks := (openTasks s4)[nat cur := -1]\<rparr>
                in obind (close_all [2, 3, 4, 5, 6, 7] s5) (\<lambda>s6.
                   let s7 = s6\<lparr>tss_esp0 := kernel_stack (word_of_int parent)\<rparr>
                   in obind (pcb_of parent s7) (\<lambda>p.
                      Ret (Return_status (curr_status s7) (pcb_esp p) (pcb_ebp p), s7))))))"

section \<open>Descriptors\<close>

definition pcb_ok :: "pcb \<Rightarrow> bool" where
  "pcb_ok p \<longleftrightarrow> length (fd p) = 8 \<and> length (argument p) = 128 \<and> (\<forall>d\<in>set (fd p). length (fd_fileName d) = 32)"

text \<open>Program \<open>n\<close> is running.\<close>

definition running :: "'a kernel_scheme \<Rightarrow> nat \<Rightarrow> bool" where
  "running s n \<longleftrightarrow> cr3 s = Page_directory n \<and> 1 \<le> n \<and> n \<le> 6"

lemma find_programid_running [simp]: "running s n \<Longrightarrow> find_programid s = Ret (int n)"
  by (simp add: running_def find_programid_def)

lemma pcb_of_running [simp]: "running s n \<Longrightarrow> pcb_of (int n) s = Ret (pcbs s n)"
  by (simp add: running_def pcb_of_def)

lemma update_fd_simps [simp]:
  "pcbs (update_fd n i f s) = (pcbs s)(n := (pcbs s n)\<lparr>fd := (fd (pcbs s n))[i := f (fd (pcbs s n) ! i)]\<rparr>)"
  "mem (update_fd n i f s) = mem s" "bootHead (update_fd n i f s) = bootHead s" "cr3 (update_fd n i f s) = cr3 s"
  "openTasks (update_fd n i f s) = openTasks s" "terminals (update_fd n i f s) = terminals s"
  by (simp_all add: update_fd_def update_pcb_def)

lemma set_ops_simps [simp]:
  "pcbs (set_ops n i ops v s) = pcbs (update_fd n i (\<lambda>d. d\<lparr>sysops_ptr := Some ops\<rparr>) s)"
  "mem (set_ops n i ops v s) = mem s" "bootHead (set_ops n i ops v s) = bootHead s" "cr3 (set_ops n i ops v s) = cr3 s"
  "openTasks (set_ops n i ops v s) = openTasks s" "terminals (set_ops n i ops v s) = terminals s"
  by (simp_all add: set_ops_def Let_def)

lemma first_free_fd:
  assumes "pcb_ok p" "first_free (\<lambda>d. flags d = 0) (fd p) [2..<8] = Some i"
  shows "2 \<le> i" "i < 8" "i < length (fd p)" "flags (fd p ! i) = 0"
  using first_free_Some[OF assms(2)] assms(1) by (auto simp: pcb_ok_def)

text \<open>The driver for a directory entry.\<close>

definition driver_for :: "dentry \<Rightarrow> sys_ops" where
  "driver_for d = (if fileType d = 0 then Rtc_ops else if fileType d = 1 then Directory_ops else File_ops)"

text \<open>The other descriptors of program \<open>n\<close>, and the other programs, are as before.\<close>

definition only_fd :: "nat \<Rightarrow> nat \<Rightarrow> 'a kernel_scheme \<Rightarrow> 'a kernel_scheme \<Rightarrow> bool" where
  "only_fd n i s s' \<longleftrightarrow> (\<exists>d. pcbs s' = (pcbs s)(n := (pcbs s n)\<lparr>fd := (fd (pcbs s n))[i := d]\<rparr>))"

lemma rtc_open_frame:
  "rtc_open dev f s = (v, s') \<Longrightarrow> v = 0 \<and> pcbs s' = pcbs s"
proof -
  obtain regB where "rtc_write dev 0 (2 ^ 1) s =
      (0, s\<lparr>io := Sti # Out CMOS_ADDR (regB OR 0x40) # Out RTC_ADDR SEL_REGB # In CMOS_ADDR # Out RTC_ADDR SEL_REGB #
      Out CMOS_ADDR ((dev (Out RTC_ADDR SEL_REGA # Cli # io s) CMOS_ADDR AND 0xF0) OR of_nat (14 - 1)) #
      Out RTC_ADDR SEL_REGA # In CMOS_ADDR # Out RTC_ADDR SEL_REGA # Cli # io s\<rparr>)"
    using rtc_write_accepts[where k = 1 and dev = dev and s = s and fd = 0] by auto
  then show "rtc_open dev f s = (v, s') \<Longrightarrow> v = 0 \<and> pcbs s' = pcbs s"
    by (auto simp: rtc_open_def)
qed

lemma setup_fd_known:
  assumes "pcb_ok (pcbs s n)" "2 \<le> i" "i < 8" "fileType d \<in> {0, 1, 2}" "terminated name" "length (cstr name) < 32"
  shows "\<exists>s'. setup_fd n i d name (update_fd n i (\<lambda>d. d\<lparr>flags := 1\<rparr>) s) = Ret (Some (driver_for d), s') \<and>
    only_fd n i s s' \<and> same_image s s' \<and> flags (fd (pcbs s' n) ! i) = 1 \<and> filePosition (fd (pcbs s' n) ! i) = 0 \<and>
    sysops_ptr (fd (pcbs s' n) ! i) = Some (driver_for d) \<and>
    (driver_for d = File_ops \<longrightarrow> cstr (fd_fileName (fd (pcbs s' n) ! i)) = cstr name \<and>
       terminated (fd_fileName (fd (pcbs s' n) ! i)))"
proof -
  have i: "i < length (fd (pcbs s n))" using assms(1,3) by (simp add: pcb_ok_def)
  then have "length (fd_fileName (fd (pcbs s n) ! i)) = 32" using assms(1) by (simp add: pcb_ok_def)
  then have cp: "strcpy (fd_fileName (fd (pcbs s n) ! i)) name =
      Ret (cstr name @ 0 # drop (Suc (length (cstr name))) (fd_fileName (fd (pcbs s n) ! i)))"
    using strcpy_fits[OF assms(5)] assms(6) by simp
  have nm: "cstr (cstr name @ 0 # t) = cstr name" "terminated (cstr name @ 0 # t)" for t
    using cstr_split[OF cstr_no_NUL] by (simp_all add: terminated_split)
  from assms(4) consider "fileType d = 0" | "fileType d = 1" | "fileType d = 2" by auto
  then show ?thesis
    by cases (use i cp nm in \<open>auto simp: setup_fd_def Let_def driver_for_def only_fd_def same_image_def\<close>)
qed

lemma open_call_found:
  assumes run: "running s n" and ok: "pcb_ok (pcbs s n)"
    and name: "terminated name" "cstr name \<noteq> []" "length (cstr name) < 32"
    and ent: "read_dentry_by_name name s = Ret (Some d)" "fileType d \<in> {0, 1, 2}"
    and free: "first_free (\<lambda>d. flags d = 0) (fd (pcbs s n)) [2..<8] = Some i"
  shows "\<exists>s'. open_call env name s = Ret (int i, s') \<and> only_fd n i s s' \<and>
    flags (fd (pcbs s' n) ! i) = 1 \<and> filePosition (fd (pcbs s' n) ! i) = 0 \<and>
    sysops_ptr (fd (pcbs s' n) ! i) = Some (driver_for d) \<and>
    (driver_for d = File_ops \<longrightarrow> cstr (fd_fileName (fd (pcbs s' n) ! i)) = cstr name \<and>
       terminated (fd_fileName (fd (pcbs s' n) ! i)))"
proof -
  note i = first_free_fd[OF ok free]
  obtain s1 where s1: "setup_fd n i d name (update_fd n i (\<lambda>d. d\<lparr>flags := 1\<rparr>) s) = Ret (Some (driver_for d), s1)"
      "only_fd n i s s1" "same_image s s1" "flags (fd (pcbs s1 n) ! i) = 1" "filePosition (fd (pcbs s1 n) ! i) = 0"
      "sysops_ptr (fd (pcbs s1 n) ! i) = Some (driver_for d)"
      "driver_for d = File_ops \<longrightarrow> cstr (fd_fileName (fd (pcbs s1 n) ! i)) = cstr name \<and> terminated (fd_fileName (fd (pcbs s1 n) ! i))"
    using setup_fd_known[OF ok i(1,2) ent(2) name(1,3)] by blast
  have "\<exists>s2. open_driver env (driver_for d) name s1 = Ret (0, s2) \<and> pcbs s2 = pcbs s1"
  proof (cases "driver_for d")
    case Rtc_ops
    then show ?thesis using rtc_open_frame[of "env_dev env" name s1]
      by (cases "rtc_open (env_dev env) name s1") (auto simp: open_driver_def)
  next
    case File_ops
    have "open_file name s1 = Ret 0"
      using same_image_open[OF s1(3), of name] ent(1) by (simp add: open_file_def)
    with File_ops show ?thesis by (simp add: open_driver_def)
  qed (simp_all add: open_driver_def terminal_open_def open_directory_def)
  then obtain s2 where s2: "open_driver env (driver_for d) name s1 = Ret (0, s2)" "pcbs s2 = pcbs s1" by blast
  have c: "buf_get name 0 = Ret (name ! 0)" "name ! 0 \<noteq> 0"
  proof -
    have "0 < length (cstr name)" using name(2) by simp
    moreover from this have "0 < length name" using length_cstr_le[of name] by linarith
    ultimately show "buf_get name 0 = Ret (name ! 0)" "name ! 0 \<noteq> 0"
      using nth_cstr_nonzero[of 0 name] by auto
  qed
  have "open_call env name s = Ret (int i, s2)"
    using run ent(1) free s1(1) s2(1) c by (simp add: open_call_def open_at_def)
  with s1 s2 show ?thesis by (auto simp: only_fd_def)
qed

lemma close_call_open:
  assumes "running s n" "pcb_ok (pcbs s n)" "2 \<le> i" "i < 8" "flags (fd (pcbs s n) ! i) \<noteq> 0"
  shows "close_call (int i) s =
    Ret (0, update_fd n i (\<lambda>d. d\<lparr>flags := 0, sysops_ptr := None, filePosition := 0\<rparr>) s)"
  using assms by (simp add: close_call_def pcb_ok_def)

lemma close_call_bad:
  assumes "running s n" "pcb_ok (pcbs s n)"
    and "i < 2 \<or> 7 < i \<or> flags (fd (pcbs s n) ! nat i) = 0"
  shows "close_call i s = Ret (-1, s)"
  using assms by (auto simp: close_call_def pcb_ok_def)

text \<open>Closing a list of descriptors leaves them free and everything but the descriptors alone.\<close>

lemma running_pcbs [simp]: "running (s\<lparr>pcbs := f\<rparr>) n = running s n"
  by (simp add: running_def)

lemma update_fd_eq: "update_fd n i f s = s\<lparr>pcbs := pcbs (update_fd n i f s)\<rparr>"
  by (simp add: update_fd_def update_pcb_def)

lemma pcb_ok_update_fd:
  "pcb_ok p \<Longrightarrow> length (fd_fileName (f (fd p ! i))) = 32 \<Longrightarrow> pcb_ok (p\<lparr>fd := (fd p)[i := f (fd p ! i)]\<rparr>)"
  by (auto simp: pcb_ok_def dest!: set_update_subset_insert[THEN subsetD])

lemma close_all_free:
  assumes "running s n" "pcb_ok (pcbs s n)" "set is \<subseteq> {2..7}"
  shows "\<exists>p. close_all is s = Ret (s\<lparr>pcbs := (pcbs s)(n := p)\<rparr>) \<and> pcb_ok p \<and>
    argument p = argument (pcbs s n) \<and> pcb_esp p = pcb_esp (pcbs s n) \<and> pcb_ebp p = pcb_ebp (pcbs s n) \<and>
    (\<forall>i<8. flags (fd p ! i) = (if int i \<in> set is then 0 else flags (fd (pcbs s n) ! i)))"
  using assms
proof (induction "is" arbitrary: s)
  case Nil
  then show ?case by (intro exI[of _ "pcbs s n"]) simp
next
  case (Cons j js)
  have j: "2 \<le> j" "j \<le> 7" using Cons.prems(3) by auto
  define s1 where "s1 = (if flags (fd (pcbs s n) ! nat j) = 0 then s
    else update_fd n (nat j) (\<lambda>d. d\<lparr>flags := 0, sysops_ptr := None, filePosition := 0\<rparr>) s)"
  have len: "length (fd (pcbs s n)) = 8" using Cons.prems(2) by (simp add: pcb_ok_def)
  have step: "\<exists>r. close_call j s = Ret (r, s1)"
    using close_call_open[OF Cons.prems(1,2), of "nat j"] close_call_bad[OF Cons.prems(1,2), of j] j by (auto simp: s1_def)
  have run: "running s1 n" using Cons.prems(1) by (simp add: running_def s1_def)
  have ok: "pcb_ok (pcbs s1 n)"
  proof -
    have "length (fd_fileName (fd (pcbs s n) ! nat j)) = 32" using Cons.prems(2) j len by (auto simp: pcb_ok_def)
    then show ?thesis
      using Cons.prems(2) pcb_ok_update_fd[OF Cons.prems(2), where i = "nat j"
        and f = "\<lambda>d. d\<lparr>flags := 0, sysops_ptr := None, filePosition := 0\<rparr>"] by (simp add: s1_def)
  qed
  have same: "argument (pcbs s1 n) = argument (pcbs s n)" "pcb_esp (pcbs s1 n) = pcb_esp (pcbs s n)"
    "pcb_ebp (pcbs s1 n) = pcb_ebp (pcbs s n)" by (simp_all add: s1_def)
  have fl: "flags (fd (pcbs s1 n) ! i) = (if i = nat j then 0 else flags (fd (pcbs s n) ! i))" if "i < 8" for i
    using that j len by (auto simp: s1_def nth_list_update)
  have pc: "s1 = s\<lparr>pcbs := (pcbs s)(n := pcbs s1 n)\<rparr>"
    unfolding s1_def by (simp add: update_fd_def update_pcb_def)
  have js: "set js \<subseteq> {2..7}" using Cons.prems(3) by simp
  obtain p where p: "close_all js s1 = Ret (s1\<lparr>pcbs := (pcbs s1)(n := p)\<rparr>)" "pcb_ok p"
    "argument p = argument (pcbs s1 n)" "pcb_esp p = pcb_esp (pcbs s1 n)" "pcb_ebp p = pcb_ebp (pcbs s1 n)"
    "\<forall>i<8. flags (fd p ! i) = (if int i \<in> set js then 0 else flags (fd (pcbs s1 n) ! i))"
    using Cons.IH[OF run ok] js by blast
  have "s1\<lparr>pcbs := (pcbs s1)(n := p)\<rparr> = s\<lparr>pcbs := (pcbs s)(n := p)\<rparr>"
    by (subst (1 2) pc) simp
  then have run_all: "close_all (j # js) s = Ret (s\<lparr>pcbs := (pcbs s)(n := p)\<rparr>)"
    using step p(1) by auto
  have "flags (fd p ! i) = (if int i \<in> set (j # js) then 0 else flags (fd (pcbs s n) ! i))" if "i < 8" for i
    using p(6) fl[OF that] that j by (auto simp: nat_eq_iff2)
  then show ?case using p(2-5) same by (intro exI[of _ p] conjI run_all) simp_all
qed

section \<open>Reading a file from start to end\<close>

text \<open>A byte sequence in pieces of \<open>k\<close>.\<close>

function chunks :: "nat \<Rightarrow> 'a list \<Rightarrow> 'a list list" where
  "chunks k xs = (if xs = [] \<or> k = 0 then [] else take k xs # chunks k (drop k xs))"
  by pat_completeness auto
termination
  by (relation "measure (\<lambda>(k, xs). length xs)") auto

declare chunks.simps [simp del]

lemma chunks_simps [simp]: "chunks k [] = []" "0 < k \<Longrightarrow> xs \<noteq> [] \<Longrightarrow> chunks k xs = take k xs # chunks k (drop k xs)"
  by (subst chunks.simps, simp)+

lemma concat_chunks: "0 < k \<Longrightarrow> concat (chunks k xs) = xs"
proof (induction k xs rule: chunks.induct)
  case (1 k xs)
  then show ?case by (cases "xs = []") simp_all
qed

lemma length_chunks: "length (chunks k xs) \<le> length xs"
proof (induction k xs rule: chunks.induct)
  case (1 k xs)
  show ?case
  proof (cases "xs = [] \<or> k = 0")
    case True
    then show ?thesis by (subst chunks.simps) simp
  next
    case False
    then have "length (chunks k (drop k xs)) \<le> length xs - k" "0 < length xs" "0 < k" using 1 by auto
    moreover have "length (chunks k xs) = Suc (length (chunks k (drop k xs)))"
      using False by (subst chunks.simps) simp
    ultimately show ?thesis by linarith
  qed
qed

text \<open>
  Descriptor \<open>i\<close> of the running program \<open>n\<close> stands in the file with the given inode, at most at
  its end.
\<close>

definition fd_of :: "nat \<Rightarrow> nat \<Rightarrow> 'a kernel_scheme \<Rightarrow> file_descriptor" where
  "fd_of n i s = fd (pcbs s n) ! i"

definition in_file :: "nat \<Rightarrow> nat \<Rightarrow> u32 \<Rightarrow> 'a kernel_scheme \<Rightarrow> bool" where
  "in_file n i inode s \<longleftrightarrow> running s n \<and> i < length (fd (pcbs s n)) \<and> valid_inode s inode \<and>
     unat (filePosition (fd_of n i s)) \<le> file_size s inode \<and>
     (\<exists>d. read_dentry_by_name (fd_fileName (fd_of n i s)) s = Ret (Some d) \<and> inodeNum d = inode)"

definition file_rest :: "nat \<Rightarrow> nat \<Rightarrow> u32 \<Rightarrow> 'a kernel_scheme \<Rightarrow> u8 list" where
  "file_rest n i inode s = drop (unat (filePosition (fd_of n i s))) (file_bytes s inode)"

lemma same_image_update_fd: "same_image s (update_fd n i f s)"
  by (simp add: same_image_def)

lemma file_size_small: "valid_inode s inode \<Longrightarrow> file_size s inode < 2 ^ 32"
  by (simp add: valid_inode_def)

lemma read_file_chunk:
  assumes "in_file n i inode s" "bytes \<noteq> 0" "unat bytes \<le> length buf"
  defines "t \<equiv> take (unat bytes) (file_rest n i inode s)"
  shows "\<exists>s'. read_file i (Some buf) bytes s = Ret (int (length t), Some (t @ drop (length t) buf), s') \<and>
    in_file n i inode s' \<and> file_rest n i inode s' = drop (length t) (file_rest n i inode s) \<and>
    only_fd n i s s' \<and> same_image s s'"
proof -
  let ?d = "fd_of n i s" and ?sz = "file_size s inode"
  have run: "running s n" and i: "i < length (fd (pcbs s n))" and v: "valid_inode s inode"
    and pos: "unat (filePosition ?d) \<le> ?sz" using assms(1) by (auto simp: in_file_def)
  obtain d where d: "read_dentry_by_name (fd_fileName ?d) s = Ret (Some d)" "inodeNum d = inode"
    using assms(1) by (auto simp: in_file_def)
  have get: "buf_get (fd (pcbs s n)) i = Ret ?d" using i by (simp add: fd_of_def)
  define q where "q = filePosition ?d + of_nat (length t)"
  let ?s' = "update_fd n i (\<lambda>d. d\<lparr>filePosition := q\<rparr>) s"
  have len: "length t = min (unat bytes) (?sz - unat (filePosition ?d))"
    by (simp add: t_def file_rest_def)
  have "unat q = unat (filePosition ?d) + length t"
    unfolding q_def using pos len file_size_small[OF v]
    by (simp add: unat_word_ariths unat_of_nat32)
  then have q: "unat q = unat (filePosition ?d) + length t" "unat q \<le> ?sz" using len pos by auto
  have fd': "fd_of n i ?s' = ?d\<lparr>filePosition := q\<rparr>" using i by (simp add: fd_of_def)
  note im = same_image_update_fd[of s n i "\<lambda>d. d\<lparr>filePosition := q\<rparr>"]
  have in': "in_file n i inode ?s'"
    using run i v q(2) d same_image_lookup[OF im] same_image_inode[OF im] fd'
    by (auto simp: in_file_def running_def)
  have rest': "file_rest n i inode ?s' = drop (length t) (file_rest n i inode s)"
    using fd' q(1) same_image_inode[OF im] by (simp add: file_rest_def add.commute)
  have "read_file i (Some buf) bytes s = Ret (int (length t), Some (t @ drop (length t) buf), ?s')"
  proof (cases "unat (filePosition ?d) = ?sz")
    case True
    then have t: "t = []" by (simp add: t_def file_rest_def)
    have "inode_length s (get_inodeptr inode s) = q"
      using t True by (simp add: q_def file_size_def word_unat_eq_iff)
    then show ?thesis using run get d read_data_eof[OF True] t by (simp add: read_file_def)
  next
    case False
    then have lt: "unat (filePosition ?d) < ?sz" using pos by simp
    have rd: "read_data inode (filePosition ?d) (Some buf) bytes s = Ret (int (length t), Some (t @ drop (length t) buf))"
      using read_data_fits[OF v lt assms(2), of buf] assms(3) len by (simp add: t_def file_rest_def)
    have "unat bytes \<noteq> 0" using assms(2) by (simp add: unat_eq_0)
    then have "length t \<noteq> 0" using lt len by simp
    then show ?thesis using run get d rd
      by (simp add: read_file_def q_def add.commute)
  qed
  moreover have "only_fd n i s ?s'" by (auto simp: only_fd_def)
  ultimately show ?thesis using in' rest' im by blast
qed

definition next_chunk :: "nat \<Rightarrow> nat \<Rightarrow> u8 list \<times> 'a kernel_scheme \<Rightarrow> (u8 list option \<times> u8 list \<times> 'a kernel_scheme) outcome" where
  "next_chunk i k bs =
     obind (read_file i (Some (fst bs)) (of_nat k) (snd bs)) (\<lambda>(cnt, b, s').
     Ret (if cnt = 0 then None else Some (take (nat cnt) (bytes_of b)), bytes_of b, s'))"

definition chunk_reading :: "nat \<Rightarrow> nat \<Rightarrow> nat \<Rightarrow> u32 \<Rightarrow> u8 list \<times> 'a kernel_scheme \<Rightarrow> bool" where
  "chunk_reading n i k inode bs \<longleftrightarrow>
     in_file n i inode (snd bs) \<and> 0 < k \<and> k < 2 ^ 32 \<and> k \<le> length (fst bs)"

definition chunk_todo :: "nat \<Rightarrow> nat \<Rightarrow> nat \<Rightarrow> u32 \<Rightarrow> u8 list \<times> 'a kernel_scheme \<Rightarrow> u8 list list" where
  "chunk_todo n i k inode bs = chunks k (file_rest n i inode (snd bs))"

interpretation file_source: item_source "next_chunk i k" "chunk_todo n i k inode" "chunk_reading n i k inode"
  "\<lambda>bs. file_rest n i inode (snd bs) = []" for n i k inode
proof
  fix bs :: "u8 list \<times> 'a kernel_scheme" and x xs
  assume ok: "chunk_reading n i k inode bs"
  obtain buf s where bs: "bs = (buf, s)" by (cases bs)
  let ?t = "take k (file_rest n i inode s)"
  have k: "0 < k" "unat (of_nat k :: u32) = k" "(of_nat k :: u32) \<noteq> 0" "k \<le> length buf"
    and inf: "in_file n i inode s"
    using ok by (auto simp: bs chunk_reading_def unat_of_nat32 simp flip: unat_eq_0)
  obtain s' where s': "read_file i (Some buf) (of_nat k) s = Ret (int (length ?t), Some (?t @ drop (length ?t) buf), s')"
    "in_file n i inode s'" "file_rest n i inode s' = drop (length ?t) (file_rest n i inode s)"
    using read_file_chunk[OF inf k(3)] k by auto
  { assume "chunk_todo n i k inode bs = []"
    then have "file_rest n i inode s = []"
      using k(1) by (cases "file_rest n i inode s = []") (auto simp: chunk_todo_def bs)
    with s' show "\<exists>s'. next_chunk i k bs = Ret (None, s') \<and> file_rest n i inode (snd s') = []"
      by (simp add: next_chunk_def bs) }
  { assume td: "chunk_todo n i k inode bs = x # xs"
    then have ne: "file_rest n i inode s \<noteq> []" by (auto simp: chunk_todo_def bs)
    then have x: "x = ?t" "xs = chunks k (drop k (file_rest n i inode s))"
      using td k(1) by (simp_all add: chunk_todo_def bs)
    have "length ?t \<noteq> 0" using ne k(1) by simp
    moreover have "drop (length ?t) (file_rest n i inode s) = drop k (file_rest n i inode s)"
      by (simp add: min_def)
    moreover have "take (min (length (file_rest n i inode s)) k) (file_rest n i inode s) = ?t"
      by (simp add: min_def)
    ultimately show "\<exists>s'. next_chunk i k bs = Ret (Some x, s') \<and> chunk_reading n i k inode s' \<and> chunk_todo n i k inode s' = xs"
      using s' x ok k by (simp add: next_chunk_def bs bytes_of_def chunk_reading_def chunk_todo_def) }
qed

section \<open>The descriptor table\<close>

definition fds_used :: "file_descriptor list \<Rightarrow> nat set" where
  "fds_used ds = {i. 2 \<le> i \<and> i < 8 \<and> flags (ds ! i) \<noteq> 0}"

definition fds_pick :: "file_descriptor list \<Rightarrow> nat option" where
  "fds_pick ds = first_free (\<lambda>d. flags d = 0) ds [2..<8]"

definition fds_mark :: "u32 \<Rightarrow> nat \<Rightarrow> file_descriptor list \<Rightarrow> file_descriptor list" where
  "fds_mark fl i ds = ds[i := (ds ! i)\<lparr>flags := fl\<rparr>]"

interpretation fd_pool: slot_pool "{2..<8}" fds_used fds_pick "fds_mark 1" "fds_mark 0" "\<lambda>ds. length ds = 8"
proof
  fix ds :: "file_descriptor list" and i :: nat
  assume len: "length ds = 8"
  { assume "fds_pick ds = Some i"
    then show "i \<in> {2..<8} - fds_used ds"
      using first_free_Some[of "\<lambda>d. flags d = 0" ds "[2..<8]" i] by (auto simp: fds_pick_def fds_used_def) }
  { assume "fds_pick ds = None"
    then show "{2..<8} \<subseteq> fds_used ds" by (force simp only: fds_pick_def fds_used_def first_free_None set_upt atLeastLessThan_iff mem_Collect_eq subset_iff) }
  assume "i \<in> {2..<8}"
  with len show "fds_used (fds_mark 1 i ds) = insert i (fds_used ds)"
    "fds_used (fds_mark 0 i ds) = fds_used ds - {i}" "length (fds_mark 1 i ds) = 8" "length (fds_mark 0 i ds) = 8"
    by (auto simp: fds_used_def fds_mark_def nth_list_update split: if_splits)
qed simp

lemma chunks_le: "0 < k \<Longrightarrow> c \<in> set (chunks k xs) \<Longrightarrow> length c \<le> k"
proof (induction k xs rule: chunks.induct)
  case (1 k xs)
  then show ?case by (cases "xs = []") auto
qed

lemma fds_used_only:
  assumes "only_fd n i s s'" "pcb_ok (pcbs s n)" "i \<in> {2..<8}" "flags (fd (pcbs s' n) ! i) = 1"
  shows "fds_used (fd (pcbs s' n)) = insert i (fds_used (fd (pcbs s n)))"
proof -
  from assms(1) obtain d where d: "fd (pcbs s' n) = (fd (pcbs s n))[i := d]" by (auto simp: only_fd_def)
  with assms(2-4) show ?thesis by (auto simp: fds_used_def pcb_ok_def nth_list_update)
qed

lemma fds_pick_least: "fds_pick ds = Some i \<Longrightarrow> 2 \<le> j \<Longrightarrow> j < i \<Longrightarrow> i < 8 \<Longrightarrow> j \<in> fds_used ds"
  using first_free_least[of "\<lambda>d. flags d = 0" ds 2 8 i j] by (simp add: fds_pick_def fds_used_def)

section \<open>Properties\<close>

text \<open>Program 1 runs, its descriptor 2 is open on the file \<open>f\<close>, and its argument is empty.\<close>

definition demo_fd :: "u32 \<Rightarrow> sys_ops option \<Rightarrow> file_descriptor" where
  "demo_fd fl ops = \<lparr>fd_fileName = 102 # replicate 31 0, inode_ptr = None, filePosition = 0, flags = fl, sysops_ptr = ops\<rparr>"

definition demo_pcb :: pcb where
  "demo_pcb = \<lparr>fd = [demo_fd 1 (Some Terminal_ops), demo_fd 1 (Some Terminal_ops), demo_fd 1 (Some File_ops)] @
       replicate 5 (demo_fd 0 None), prev_pcb = 0, pcb_esp = 0, pcb_ebp = 0, pcb_cr3 = No_directory, parent_pid = 0,
     argument = replicate 128 0\<rparr>"

definition demo_kernel :: kernel where
  "demo_kernel = kbd.extend demo_kbd (kernel.fields [-1, 0, -1, -1, -1, -1, -1] (\<lambda>_. demo_pcb) (\<lambda>_. 0) 0 0
     (\<lambda>_. replicate 64 0))"

definition demo_env :: "unit env" where
  "demo_env = \<lparr>env_dev = (\<lambda>_ _. 0), env_ticks = [], env_irqs = [], env_junk = replicate 40 0, env_esp = 0x7FDE00, env_ebp = 0x7FDE08, env_tables = demo_tables\<rparr>"

lemmas demo_extend = kernel.defs kbd.defs sched.defs paging.defs rtc.defs pic.defs fs.defs
  demo_kernel_def demo_kbd_def demo_sched_def demo_paging_def demo_rtc_def demo_pic_def demo_fs_def

lemma demo_kernel_simps [simp]:
  "pcbs demo_kernel n = demo_pcb" "openTasks demo_kernel = [-1, 0, -1, -1, -1, -1, -1]" "cr3 demo_kernel = Page_directory 1"
  "program_image demo_kernel n = replicate 64 0" "newterminal_flag demo_kernel = 0"
  by (simp_all add: demo_extend)

lemma demo_kernel_image: "same_image demo_fs demo_kernel"
  by (simp add: same_image_def demo_extend)

lemma demo_pcb_ok [simp]: "pcb_ok demo_pcb"
  by (auto simp: pcb_ok_def demo_pcb_def demo_fd_def)

lemma demo_running: "running demo_kernel 1"
  by (simp add: running_def)

lemma demo_fds_used: "fds_used (fd demo_pcb) = {2}"
proof -
  have "flags (fd demo_pcb ! i) \<noteq> 0 \<longleftrightarrow> i = 2" if "2 \<le> i" "i < 8" for i
  proof -
    from that consider "i = 2" | "i = 3" | "i = 4" | "i = 5" | "i = 6" | "i = 7" by linarith
    then show ?thesis by cases (simp_all add: demo_pcb_def demo_fd_def)
  qed
  then have "fds_used (fd demo_pcb) = {i. 2 \<le> i \<and> i < 8 \<and> i = 2}"
    unfolding fds_used_def by (intro Collect_cong) blast
  also have "\<dots> = {2}" by (rule set_eqI) (simp, linarith)
  finally show ?thesis .
qed

lemma demo_lookup: "read_dentry_by_name (102 # replicate 31 0) demo_kernel = Ret (Some (entry demo_fs 0))"
  using read_dentry_by_name_own[OF demo_distinct, of 0]
  by (simp add: same_image_lookup[OF demo_kernel_image] demo_fileName demo_cstr demo_terminated)

text \<open>
  C29: \<open>open\<close> of an existing file gives the lowest free descriptor from 2 to 7, marked as used, at
  position 0 and with the operations for the type of the file; with all six in use it returns \<open>-1\<close>
  and changes nothing.
\<close>

theorem open_lowest_free:
  assumes "running s n" "pcb_ok (pcbs s n)" "terminated name" "cstr name \<noteq> []" "length (cstr name) < 32"
    and "read_dentry_by_name name s = Ret (Some d)" "fileType d \<in> {0, 1, 2}"
  shows "if {2..<8} \<subseteq> fds_used (fd (pcbs s n)) then open_call env name s = Ret (-1, s)
    else \<exists>i s'. open_call env name s = Ret (int i, s') \<and> i \<in> {2..<8} - fds_used (fd (pcbs s n)) \<and>
      {2..<i} \<subseteq> fds_used (fd (pcbs s n)) \<and> fds_used (fd (pcbs s' n)) = insert i (fds_used (fd (pcbs s n))) \<and>
      filePosition (fd (pcbs s' n) ! i) = 0 \<and> sysops_ptr (fd (pcbs s' n) ! i) = Some (driver_for d)"
proof (cases "fds_pick (fd (pcbs s n))")
  case None
  have len: "length (fd (pcbs s n)) = 8" using assms(2) by (simp add: pcb_ok_def)
  have "buf_get name 0 = Ret (name ! 0)" "name ! 0 \<noteq> 0"
    using assms(3,4) by (cases name; auto simp: buf_get_def terminated_def cstr_def)+
  with None fd_pool.pick_full[OF len None] assms(1,6) show ?thesis by (simp add: open_call_def fds_pick_def)
next
  case (Some i)
  have len: "length (fd (pcbs s n)) = 8" using assms(2) by (simp add: pcb_ok_def)
  note i = fd_pool.pick_free[OF len Some]
  from open_call_found[OF assms, of i env] Some obtain s' where s': "open_call env name s = Ret (int i, s')" "only_fd n i s s'"
    "flags (fd (pcbs s' n) ! i) = 1" "filePosition (fd (pcbs s' n) ! i) = 0" "sysops_ptr (fd (pcbs s' n) ! i) = Some (driver_for d)"
    by (auto simp: fds_pick_def)
  have "{2..<i} \<subseteq> fds_used (fd (pcbs s n))" using fds_pick_least[OF Some] i by auto
  with i s' fds_used_only[OF s'(2) assms(2) _ s'(3)] show ?thesis by auto
qed

theorem open_lowest_free_witness:
  "\<exists>s'. open_call demo_env (102 # replicate 31 0) demo_kernel = Ret (3, s') \<and> fds_used (fd (pcbs s' 1)) = {2, 3}"
proof -
  have "(3 :: nat) \<in> {2..<8}" "(3 :: nat) \<notin> {2}" by simp_all
  then have "\<not> {2..<8} \<subseteq> {2 :: nat}" by blast
  then obtain i s' where r: "open_call demo_env (102 # replicate 31 0) demo_kernel = Ret (int i, s')" "i \<in> {2..<8} - {2}"
    "{2..<i} \<subseteq> {2}" "fds_used (fd (pcbs s' 1)) = insert i {2}"
    using open_lowest_free[OF demo_running, of "102 # replicate 31 0" "entry demo_fs 0" demo_env]
    by (auto simp: demo_lookup demo_entry_0 demo_terminated demo_cstr demo_fds_used)
  have "i = 3"
  proof (rule ccontr)
    assume "i \<noteq> 3"
    with r(2) have "3 \<in> {2..<i}" by auto
    with r(3) have "3 \<in> {2 :: nat}" by blast
    then show False by simp
  qed
  with r show ?thesis by auto
qed

text \<open>
  what \<open>open\<close> gave out \<open>close\<close> takes back: it returns 0 and the same descriptors are in use as before
  the \<open>open\<close>; \<open>close\<close> of a descriptor that is out of range, reserved or not open returns \<open>-1\<close> and
  changes nothing.
\<close>

lemma open_then_close:
  assumes "running s n" "pcb_ok (pcbs s n)"
  shows "(i < 2 \<or> 7 < i \<or> nat i \<notin> fds_used (fd (pcbs s n)) \<longrightarrow> close_call i s = Ret (-1, s)) \<and>
    (i \<in> {2..7} \<and> nat i \<in> fds_used (fd (pcbs s n)) \<longrightarrow>
       (\<exists>s'. close_call i s = Ret (0, s') \<and> fds_used (fd (pcbs s' n)) = fds_used (fd (pcbs s n)) - {nat i}))"
proof (intro conjI impI)
  assume "i < 2 \<or> 7 < i \<or> nat i \<notin> fds_used (fd (pcbs s n))"
  then show "close_call i s = Ret (-1, s)"
    by (intro close_call_bad[OF assms]) (auto simp: fds_used_def)
next
  assume i: "i \<in> {2..7} \<and> nat i \<in> fds_used (fd (pcbs s n))"
  then have "close_call (int (nat i)) s =
      Ret (0, update_fd n (nat i) (\<lambda>d. d\<lparr>flags := 0, sysops_ptr := None, filePosition := 0\<rparr>) s)"
    by (intro close_call_open[OF assms]) (auto simp: fds_used_def)
  moreover have "fds_used ((fd (pcbs s n))[nat i := (fd (pcbs s n) ! nat i)\<lparr>flags := 0, sysops_ptr := None, filePosition := 0\<rparr>]) =
      fds_used (fd (pcbs s n)) - {nat i}"
    using i assms(2) by (auto simp: fds_used_def pcb_ok_def nth_list_update split: if_splits)
  ultimately show "\<exists>s'. close_call i s = Ret (0, s') \<and> fds_used (fd (pcbs s' n)) = fds_used (fd (pcbs s n)) - {nat i}"
    using i by auto
qed

lemma open_then_close_witness:
  "close_call 3 demo_kernel = Ret (-1, demo_kernel) \<and> (\<exists>s'. close_call 2 demo_kernel = Ret (0, s') \<and> fds_used (fd (pcbs s' 1)) = {})"
  using open_then_close[OF demo_running, of 3] open_then_close[OF demo_running, of 2]
  by (simp add: demo_fds_used)

text \<open>
  C9: calling \<open>read_file\<close> on an open file with a count of \<open>k\<close> until it returns 0 yields chunks of at most
  \<open>k\<close> bytes that together are the rest of the file from the descriptor's position on.
\<close>

theorem read_file_until_end:
  assumes "in_file n i inode s" "0 < k" "k < 2 ^ 32" "k \<le> length buf"
  shows "\<exists>cs b s'. drain (next_chunk i k) (Suc (length (file_rest n i inode s))) (buf, s) = Some (Ret (cs, (b, s'))) \<and>
    concat cs = file_rest n i inode s \<and> (\<forall>c\<in>set cs. length c \<le> k) \<and> file_rest n i inode s' = []"
proof -
  have "length (chunks k (file_rest n i inode s)) < Suc (length (file_rest n i inode s))"
    using length_chunks[of k] by (simp add: less_Suc_eq_le)
  with file_source.drain_todo[of n i k inode "(buf, s)" "Suc (length (file_rest n i inode s))"] assms
  obtain b s' where "drain (next_chunk i k) (Suc (length (file_rest n i inode s))) (buf, s) =
      Some (Ret (chunks k (file_rest n i inode s), (b, s')))" "file_rest n i inode s' = []"
    by (auto simp: chunk_reading_def chunk_todo_def simp del: drain.simps)
  then show ?thesis using assms(2) by (intro exI[of _ "chunks k (file_rest n i inode s)"]) (auto simp: concat_chunks chunks_le simp del: drain.simps)
qed

theorem read_file_until_end_witness:
  "\<exists>cs b s'. drain (next_chunk 2 16) 41 (replicate 16 0, demo_kernel) = Some (Ret (cs, (b, s'))) \<and>
     concat cs = file_bytes demo_fs 0"
proof -
  have fd: "fd_fileName (fd_of 1 2 demo_kernel) = 102 # replicate 31 0" "filePosition (fd_of 1 2 demo_kernel) = 0"
    by (simp_all add: fd_of_def demo_pcb_def demo_fd_def)
  have "in_file 1 2 0 demo_kernel"
    using demo_running demo_lookup fd by (simp add: in_file_def same_image_inode[OF demo_kernel_image] demo_entry_0 demo_pcb_def)
  moreover have "file_rest 1 2 0 demo_kernel = file_bytes demo_fs 0"
    by (simp add: file_rest_def fd_of_def demo_pcb_def demo_fd_def same_image_inode[OF demo_kernel_image])
  ultimately show ?thesis using read_file_until_end[of 1 2 0 demo_kernel 16 "replicate 16 0"] by (auto simp del: drain.simps)
qed

text \<open>
  \<open>read\<close> and \<open>write\<close> refuse descriptors out of range, the wrong one of the two standard descriptors,
  and descriptors that are not open, with \<open>-1\<close> and without calling a driver.
\<close>

lemma read_write_bad_descriptor:
  assumes "running s n" "pcb_ok (pcbs s n)"
  shows "(i < 0 \<or> 7 < i \<or> i = 1 \<or> flags (fd (pcbs s n) ! nat i) = 0 \<longrightarrow> read_call env i buf cnt s = Ret (Some (-1, buf, s))) \<and>
    (i < 0 \<or> 7 < i \<or> i = 0 \<or> flags (fd (pcbs s n) ! nat i) = 0 \<longrightarrow> write_call env i buf cnt' s = Ret (-1, s))"
  using assms by (auto simp: read_call_def write_call_def buf_get_def pcb_ok_def)

lemma read_write_bad_descriptor_witness:
  "read_call demo_env 1 None 5 demo_kernel = Ret (Some (-1, None, demo_kernel)) \<and>
   write_call demo_env 8 None 5 demo_kernel = Ret (-1, demo_kernel)"
  using read_write_bad_descriptor[OF demo_running, of 1] read_write_bad_descriptor[OF demo_running, of 8] by simp

end
