(* ===== verification/Tasks.thy ===== *)
theory Tasks
  imports Syscall
begin

text \<open>
  Starting and ending programs: what \<open>execute\<close> and \<open>halt\<close> do to \<open>openTasks\<close>, the process control
  blocks, the program images and \<open>cr3\<close>, and the structure of the tasks in every state that the
  system calls reach on one terminal.
\<close>

section \<open>Frames\<close>

text \<open>
  What the task structure depends on: the directory in use, \<open>openTasks\<close> and the flag for a new
  terminal. Calls that neither start nor end a program leave it alone.
\<close>

definition task_view :: "'a kernel_scheme \<Rightarrow> pdir \<times> int list \<times> int" where
  "task_view s = (cr3 s, openTasks s, newterminal_flag s)"

lemma console_step_view:
  assumes "console_step s s'"
  shows "task_view s' = task_view s"
  using arg_cong[OF assms[unfolded console_step_def], of task_view] by (simp add: task_view_def)

lemma view_updates [simp]:
  "task_view (update_terminal k f s) = task_view s"
  "task_view (update_pcb n g s) = task_view s" "task_view (update_fd n i h s) = task_view s"
  "task_view (set_ops n i ops v s) = task_view s"
  "task_view (add_task_to_queue p s) = task_view s" "task_view (remove_task_from_queue p s) = task_view s"
  "task_view (cli s) = task_view s" "task_view (sti s) = task_view s" "task_view (outb d port s) = task_view s"
  by (simp_all add: task_view_def update_terminal_def update_pcb_def update_fd_def set_ops_def Let_def
    add_task_to_queue_def remove_task_from_queue_def port_defs split: option.splits)

lemma write_loop_step: "write_loop buf nbytes i s = Ret s' \<Longrightarrow> console_step s s'"
proof (induction buf nbytes i s rule: write_loop.induct)
  case (1 buf nbytes i s)
  have w: "console_step s (write_wrap len (write_newrow s))" for len
  proof -
    have "console_step s (write_newrow s)" by (simp add: write_newrow_def)
    moreover have "console_step x (write_wrap len x)" for x :: "'a console_scheme" by (simp add: write_wrap_def)
    ultimately show ?thesis using console_step_trans by blast
  qed
  show ?case
  proof (cases "i < length buf \<and> buf ! i \<noteq> 0 \<and> int i < nbytes")
    case True
    with "1.prems" obtain len where len: "strlen buf = Ret len"
      and rest: "write_loop buf nbytes (Suc i) (putc (buf ! i) (write_wrap len (write_newrow s))) = Ret s'"
      by (subst (asm) write_loop.simps) (auto simp: printf_char outcome_simps)
    have "console_step (putc (buf ! i) (write_wrap len (write_newrow s))) s'"
      using True rest len "1.IH"[of len "(2, putc (buf ! i) (write_wrap len (write_newrow s)))"]
      by (simp add: printf_char)
    with w[of len] show ?thesis using console_step_trans console_step_ops(1) by metis
  next
    case False
    with "1.prems" show ?thesis by (subst (asm) write_loop.simps) (auto split: if_splits)
  qed
qed

text \<open>
  A part of the state that keys leave alone and that depends neither on the clock's flag nor on the directory position is
  the same after a call that neither changes descriptors nor starts or ends a program.
\<close>

locale call_view = key_view view for view :: "'a kernel_scheme \<Rightarrow> 'v" +
  assumes view_clock: "view (s\<lparr>rtc_interrupt_flag := v\<rparr>) = view s"
    and view_position: "view (s\<lparr>currentDirIndex := k\<rparr>) = view s"
begin

lemma view_io: "view (s\<lparr>io := x\<rparr>) = view s"
  by (rule view_console) (simp add: console_step_def)

lemma view_rtc_write: "rtc_write dev i freq s = (r, s') \<Longrightarrow> view s' = view s"
  by (auto simp: rtc_write_def Let_def inb_def port_defs view_io split: if_splits prod.splits)

lemma view_rtc_read: "rtc_read dev ticks s = Some (r, s') \<Longrightarrow> view s' = view s"
proof (induction ticks arbitrary: s)
  case Nil
  then show ?case by (auto simp: view_clock split: if_splits)
next
  case (Cons tick ticks)
  have "view (rtc_irq dev s) = view s"
    by (simp add: rtc_irq_def send_eoi_def rtc_interrupt_def inb_def outb_def Let_def view_clock view_io)
  with Cons show ?case by (auto simp: view_clock split: if_splits)
qed

lemma view_terminal_write: "terminal_write buf nbytes s = Ret (r, s') \<Longrightarrow> view s' = view s"
  by (auto simp: terminal_write_def Let_def outcome_simps view_terminal split: if_splits dest!: write_loop_step view_console)

lemma view_wait_line:
  assumes "\<forall>irq\<in>set irqs. \<forall>s s'. irq s = Ret s' \<longrightarrow> view s' = view s"
  shows "wait_line irqs term s = Ret (Some s') \<Longrightarrow> view s' = view s"
  using assms
proof (induction irqs arbitrary: s)
  case Nil
  then show ?case by (auto split: if_splits)
next
  case (Cons irq irqs)
  then show ?case by (auto simp: outcome_simps split: if_splits)
qed

lemma view_terminal_read:
  assumes "\<forall>irq\<in>set irqs. \<forall>s s'. irq s = Ret s' \<longrightarrow> view s' = view s"
    and "terminal_read irqs buf s = Ret (Some (r, b, s'))"
  shows "view s' = view s"
proof -
  obtain k0 s1 where w: "wait_line irqs k0 (update_terminal k0 (\<lambda>t. t\<lparr>buffer_i := 0\<rparr>) s) = Ret (Some s1)"
    and k: "keyboard_read buf s1 = Ret (r, b, s')"
    using assms(2) by (auto simp: terminal_read_def Let_def outcome_simps split: if_splits option.splits)
  have "view s1 = view s" using view_wait_line[OF assms(1) w] by (simp add: view_terminal)
  moreover have "view (update_cursor y x s1) = view s1" for x y by (rule view_console) simp
  ultimately show ?thesis using k
    by (auto simp: keyboard_read_def Let_def outcome_simps view_terminal split: if_splits)
qed

lemma view_read_driver:
  assumes "\<forall>irq\<in>set (env_irqs env). \<forall>s s'. irq s = Ret s' \<longrightarrow> view s' = view s" "ops \<noteq> File_ops"
    and "read_driver env ops i buf nbytes s = Ret (Some (r, b, s'))"
  shows "view s' = view s"
proof (cases ops)
  case Rtc_ops
  with assms(3) show ?thesis by (auto simp: read_driver_def dest: view_rtc_read)
next
  case Terminal_ops
  with assms(3) show ?thesis
    by (auto simp: read_driver_def outcome_simps dest: view_terminal_read[OF assms(1)])
next
  case Directory_ops
  with assms(3) show ?thesis
    by (auto simp: read_driver_def read_directory_def outcome_simps view_position split: if_splits)
qed (use assms(2) in simp)

lemma view_write_call: "write_call env i buf nbytes s = Ret (r, s') \<Longrightarrow> view s' = view s"
proof -
  have "write_driver env ops i buf nbytes s = Ret (r, s') \<Longrightarrow> view s' = view s" for ops r s'
    by (cases ops) (auto simp: write_driver_def dest: view_rtc_write view_terminal_write)
  then show "write_call env i buf nbytes s = Ret (r, s') \<Longrightarrow> view s' = view s"
    by (auto simp: write_call_def outcome_simps split: if_splits option.splits)
qed

lemma view_open_driver: "open_driver env ops name s = Ret (v, s') \<Longrightarrow> view s' = view s"
  by (cases ops) (auto simp: open_driver_def rtc_open_def outcome_simps dest: view_rtc_write)

end

interpretation task_calls: call_view task_view
  by unfold_locales (simp_all add: console_step_view, simp_all add: task_view_def)

lemma read_call_view:
  assumes "\<forall>irq\<in>set (env_irqs env). \<forall>s s'. irq s = Ret s' \<longrightarrow> task_view s' = task_view s"
    and "read_call env i buf nbytes s = Ret (Some (r, b, s'))"
  shows "task_view s' = task_view s"
proof -
  have "task_view s' = task_view s" if "read_driver env ops (nat i) buf nbytes s = Ret (Some (r, b, s'))" for ops
  proof (cases "ops = File_ops")
    case True
    with that show ?thesis by (auto simp: read_driver_def read_file_def outcome_simps split: if_splits option.splits)
  next
    case False
    from task_calls.view_read_driver[OF assms(1) False that] show ?thesis .
  qed
  with assms(2) show ?thesis by (auto simp: read_call_def outcome_simps split: if_splits option.splits)
qed

lemma setup_fd_view: "setup_fd n i d name s = Ret (ops, s') \<Longrightarrow> task_view s' = task_view s"
  by (auto simp: setup_fd_def Let_def outcome_simps split: if_splits)

lemma open_at_view:
  assumes "open_at env n i d name s = Ret (r, s')"
  shows "task_view s' = task_view s"
proof -
  obtain ops s1 where su: "setup_fd n i d name (update_fd n i (\<lambda>d. d\<lparr>flags := 1\<rparr>) s) = Ret (ops, s1)"
    and rest: "(case ops of None \<Rightarrow> Ret (-1, s1)
      | Some ops \<Rightarrow> obind (open_driver env ops name s1) (\<lambda>(v, s2). Ret (if v = 0 then int i else -1, s2))) = Ret (r, s')"
    using assms by (auto simp: open_at_def outcome_simps)
  have "task_view s' = task_view s1"
    using rest by (auto simp: outcome_simps split: option.splits dest: task_calls.view_open_driver)
  with setup_fd_view[OF su] show ?thesis by simp
qed

lemma open_call_view: "open_call env name s = Ret (r, s') \<Longrightarrow> task_view s' = task_view s"
  by (auto simp: open_call_def outcome_simps split: if_splits option.splits dest: open_at_view)

lemma close_call_view: "close_call i s = Ret (r, s') \<Longrightarrow> task_view s' = task_view s"
  by (auto simp: close_call_def outcome_simps split: if_splits)

lemma close_all_view: "close_all is s = Ret s' \<Longrightarrow> task_view s' = task_view s"
  by (induction "is" arbitrary: s) (auto simp: outcome_simps dest: close_call_view)

section \<open>Starting and ending a program\<close>

lemma requeue_view [simp]: "task_view (requeue a b parent s) = task_view s"
  by (simp add: requeue_def Let_def)

lemma save_registers_view [simp]: "task_view (save_registers env cur s) = task_view s"
  by (simp add: save_registers_def)

lemma page_loader_view:
  assumes "page_loader f (int n) s = Ret (v, s')"
  shows "v = 0" "task_view s' = (Page_directory n, openTasks s, newterminal_flag s)"
  using assms by (auto simp: page_loader_def set_programpage_def Let_def outcome_simps task_view_def
    split: if_splits option.splits)

lemma start_program_view:
  assumes "start_program env f a e s = Ret (t, s')" and fl: "newterminal_flag s \<noteq> 1"
  shows "\<exists>cur new. find_programid s = Ret cur \<and> first_free (\<lambda>p. p = -1) (openTasks s) [1..<7] = Some new \<and>
    t = Enter_user e \<and> task_view s' = (Page_directory new, (openTasks s)[new := cur], newterminal_flag s)"
proof -
  obtain cur where cur: "find_programid s = Ret cur"
    using assms(1) by (auto simp: start_program_def outcome_simps)
  define s1 where "s1 = (if cur = 0 then s\<lparr>first_shell_entry_point := e\<rparr> else s)"
  have ot: "openTasks s1 = openTasks s" "cr3 s1 = cr3 s" "newterminal_flag s1 = newterminal_flag s"
    by (simp_all add: s1_def)
  obtain new where new: "first_free (\<lambda>p. p = -1) (openTasks s) [1..<7] = Some new"
    using assms(1) cur ot(1) by (auto simp: start_program_def s1_def[symmetric] split: option.splits)
  let ?s4 = "take_slot new cur s1"
  have v4: "task_view ?s4 = (cr3 s, (openTasks s)[new := cur], newterminal_flag s)"
    using fl ot by (simp add: take_slot_def claim_task_def Let_def) (simp add: task_view_def)
  obtain p v s7 where p: "init_pcb a (pcbs ?s4 new) = Ret p"
    and ld: "page_loader f (int new) (save_registers env cur (update_pcb new (\<lambda>_. p) ?s4)) = Ret (v, s7)"
    and t: "t = Enter_user e" and s': "s' = cli ((update_pcb new (\<lambda>p. p\<lparr>pcb_cr3 := cr3 s7, prev_pcb := cur, parent_pid := cur\<rparr>) s7)
        \<lparr>tss_esp0 := kernel_stack (of_nat new), tss_ss0 := KERNEL_DS\<rparr>)"
    using assms(1) cur ot(1) new
    by (auto simp: start_program_def s1_def[symmetric] Let_def outcome_simps)
  have "task_view (save_registers env cur (update_pcb new (\<lambda>_. p) ?s4)) = task_view ?s4" by simp
  then have "task_view s7 = (Page_directory new, (openTasks s)[new := cur], newterminal_flag s)"
    using page_loader_view(2)[OF ld] v4 by (simp add: task_view_def)
  moreover have "task_view s' = task_view s7" unfolding s' by (simp add: task_view_def update_pcb_def cli_def)
  ultimately show ?thesis using cur new t by (intro exI[of _ cur] exI[of _ new]) simp
qed

lemma invalid_command_step:
  "\<exists>k s'. printf (lit ''invalid command\<newline>'') [] s = Ret (k, s') \<and> console_step s s'"
proof -
  have "terminated (lit ''invalid command\<newline>'')" "of_char CHR ''%'' \<notin> set (cstr (lit ''invalid command\<newline>''))"
    by (simp_all add: lit_def terminated_def cstr_def)
  then show ?thesis using printf_plain console_step_fold by metis
qed

lemma execute_view:
  assumes "execute env cmd s = Ret (t, s')" and fl: "newterminal_flag s \<noteq> 1"
  shows "t = Return_error \<and> task_view s' = task_view s \<or>
    (\<exists>cur new e. find_programid s = Ret cur \<and> first_free (\<lambda>p. p = -1) (openTasks s) [1..<7] = Some new \<and>
      t = Enter_user e \<and> task_view s' = (Page_directory new, (openTasks s)[new := cur], newterminal_flag s))"
proof -
  obtain c r where c: "cmd = Some c" "parse_command c = Ret r"
    using assms(1) by (auto simp: execute_def outcome_simps split: option.splits)
  show ?thesis
  proof (cases r)
    case None
    with assms(1) c invalid_command_step[of s] show ?thesis
      by (auto simp: execute_def outcome_simps dest: console_step_view)
  next
    case (Some fa)
    obtain f a where fa: "r = Some (f, a)" using Some by (cases fa) simp
    then have "t = Return_error \<and> s' = s \<or> (\<exists>e. start_program env f a e s = Ret (t, s'))"
      using assms(1) c by (auto simp: execute_def outcome_simps Let_def split: if_splits)
    then show ?thesis using start_program_view[OF _ fl] by blast
  qed
qed

lemma halt_view:
  assumes "halt st s = Ret (t, s')"
  shows "\<exists>cur parent. find_programid s = Ret cur \<and> buf_get (openTasks s) (nat cur) = Ret parent \<and>
    (parent = 0 \<and> t = Enter_user (first_shell_entry_point s) \<and> task_view s' = task_view s \<or>
     1 \<le> parent \<and> parent \<le> 6 \<and>
       task_view s' = (Page_directory (nat parent), (openTasks s)[nat cur := -1], newterminal_flag s))"
proof -
  obtain cur parent where cp: "find_programid s = Ret cur" "buf_get (openTasks s) (nat cur) = Ret parent"
    using assms by (auto simp: halt_def outcome_simps)
  define s2 where "s2 = requeue cur parent parent (s\<lparr>curr_status := ucast st\<rparr>)"
  have v2: "task_view s2 = task_view s" "first_shell_entry_point s2 = first_shell_entry_point s"
    by (simp_all add: s2_def) (simp_all add: task_view_def requeue_def Let_def add_task_to_queue_def remove_task_from_queue_def split: option.splits)
  show ?thesis
  proof (cases "parent = 0")
    case True
    have "t = Enter_user (first_shell_entry_point s2)" "s' = cli s2"
      using assms cp True by (auto simp: halt_def s2_def Let_def)
    with True cp v2 show ?thesis by simp
  next
    case False
    let ?s3 = "update_terminal (old_terminal s2) (\<lambda>t. t\<lparr>program_id := word_of_int parent\<rparr>) s2"
    have v3: "task_view ?s3 = task_view s" using v2 by simp
    obtain s4 s6 p where s4: "set_programpage parent ?s3 = Ret s4"
      and s6: "close_all [2, 3, 4, 5, 6, 7] (s4\<lparr>openTasks := (openTasks s4)[nat cur := -1]\<rparr>) = Ret s6"
      and s': "s' = s6\<lparr>tss_esp0 := kernel_stack (word_of_int parent)\<rparr>" "pcb_of parent s' = Ret p"
      using assms cp False by (auto simp: halt_def s2_def[symmetric] Let_def outcome_simps simp del: close_all.simps)
    have "s4 = ?s3\<lparr>cr3 := Page_directory (nat parent)\<rparr>"
      using s4 by (auto simp: set_programpage_def split: if_splits)
    then have "task_view (s4\<lparr>openTasks := (openTasks s4)[nat cur := -1]\<rparr>) =
        (Page_directory (nat parent), (openTasks s)[nat cur := -1], newterminal_flag s)"
      using v3 by (simp add: task_view_def)
    then have "task_view s' = (Page_directory (nat parent), (openTasks s)[nat cur := -1], newterminal_flag s)"
      using close_all_view[OF s6] s'(1) by (simp add: task_view_def)
    moreover have "1 \<le> parent" "parent \<le> 6" using s'(2) by (auto simp: pcb_of_def split: if_splits)
    ultimately show ?thesis using cp by blast
  qed
qed

section \<open>The stack of programs\<close>

text \<open>
  On one terminal the programs form a stack: the running program, its parent, and so on, down to
  a program started from the kernel. \<open>chain ts ps\<close> says that \<open>ps\<close> follows the parent links.
\<close>

fun chain :: "int list \<Rightarrow> nat list \<Rightarrow> bool" where
  "chain ts [] = True"
| "chain ts [p] = (ts ! p = 0)"
| "chain ts (p # q # ps) = (ts ! p = int q \<and> chain ts (q # ps))"

definition used_slots :: "int list \<Rightarrow> nat set" where
  "used_slots ts = {i. 1 \<le> i \<and> i \<le> 6 \<and> ts ! i \<noteq> -1}"

definition top :: "nat list \<Rightarrow> nat" where
  "top ps = (case ps of [] \<Rightarrow> 0 | p # _ \<Rightarrow> p)"

definition stack_view :: "pdir \<times> int list \<times> int \<Rightarrow> nat list \<Rightarrow> bool" where
  "stack_view v ps \<longleftrightarrow> (case v of (d, ts, flag) \<Rightarrow>
     d = Page_directory (top ps) \<and> flag \<noteq> 1 \<and> length ts = 7 \<and> ts ! 0 = -1 \<and>
     distinct ps \<and> set ps = used_slots ts \<and> chain ts ps)"

definition task_inv :: "'a kernel_scheme \<Rightarrow> bool" where
  "task_inv s \<longleftrightarrow> (\<exists>ps. stack_view (task_view s) ps)"

inductive syscall_step :: "'a kernel_scheme \<Rightarrow> 'a kernel_scheme \<Rightarrow> bool" where
  step_execute: "execute env cmd s = Ret (t, s') \<Longrightarrow> syscall_step s s'"
| step_halt: "halt status s = Ret (t, s') \<Longrightarrow> syscall_step s s'"
| step_read: "env_irqs env = map key_irq ks \<Longrightarrow> read_call env i buf nbytes s = Ret (Some (r, b, s')) \<Longrightarrow> syscall_step s s'"
| step_write: "write_call env i buf n s = Ret (r, s') \<Longrightarrow> syscall_step s s'"
| step_open: "open_call env name s = Ret (r, s') \<Longrightarrow> syscall_step s s'"
| step_close: "close_call i s = Ret (r, s') \<Longrightarrow> syscall_step s s'"
| step_vidmap: "vidmap env a s = Ret (r, s') \<Longrightarrow> syscall_step s s'"

inductive_cases syscall_stepE: "syscall_step s s'"

text \<open>The state in which the kernel starts the first shell, and what is reached from there.\<close>

definition booted :: "'a kernel_scheme \<Rightarrow> bool" where
  "booted s \<longleftrightarrow> cr3 s = Page_directory 0 \<and> openTasks s = replicate 7 (-1) \<and> newterminal_flag s = 0"

inductive reachable :: "'a kernel_scheme \<Rightarrow> bool" where
  reach_boot: "booted s \<Longrightarrow> reachable s"
| reach_step: "reachable s \<Longrightarrow> syscall_step s s' \<Longrightarrow> reachable s'"

lemma chain_update: "p \<notin> set ps \<Longrightarrow> chain (ts[p := x]) ps = chain ts ps"
  by (induction ts ps rule: chain.induct) auto

lemma chain_push:
  assumes "chain ts ps" "new \<notin> set ps" "new < length ts"
  shows "chain (ts[new := int (top ps)]) (new # ps)"
  using assms by (cases ps) (auto simp: top_def chain_update)

lemma chain_pop: "chain ts (p # q # ps) \<Longrightarrow> p \<notin> set (q # ps) \<Longrightarrow> chain (ts[p := x]) (q # ps)"
  by (simp add: chain_update)

lemma used_slots_push: "1 \<le> new \<Longrightarrow> new \<le> 6 \<Longrightarrow> length ts = 7 \<Longrightarrow> used_slots (ts[new := int x]) = insert new (used_slots ts)"
  by (auto simp: used_slots_def nth_list_update split: if_splits)

lemma used_slots_pop: "p \<le> 6 \<Longrightarrow> length ts = 7 \<Longrightarrow> used_slots (ts[p := -1]) = used_slots ts - {p}"
  by (auto simp: used_slots_def nth_list_update split: if_splits)

lemma stack_push:
  assumes "stack_view (d, ts, flag) ps" "first_free (\<lambda>p. p = -1) ts [1..<7] = Some new"
  shows "stack_view (Page_directory new, ts[new := int (top ps)], flag) (new # ps)"
proof -
  have new: "1 \<le> new" "new \<le> 6" "ts ! new = -1" using first_free_Some[OF assms(2)] by auto
  then have "new \<notin> set ps" using assms(1) by (auto simp: stack_view_def used_slots_def)
  with new assms(1) show ?thesis
    by (auto simp: stack_view_def chain_push used_slots_push top_def[of "new # ps"])
qed

lemma stack_pop:
  assumes "stack_view (d, ts, flag) (p # q # ps)"
  shows "stack_view (Page_directory q, ts[p := -1], flag) (q # ps)"
proof -
  have "p \<in> used_slots ts" using assms by (auto simp: stack_view_def)
  then have "p \<noteq> 0" "p \<le> 6" by (auto simp: used_slots_def)
  with assms show ?thesis
    by (auto simp: stack_view_def top_def used_slots_pop chain_update)
qed

lemma find_programid_stack: "stack_view (task_view s) ps \<Longrightarrow> find_programid s = Ret (int (top ps))"
proof -
  assume v: "stack_view (task_view s) ps"
  then have "top ps \<le> 6" by (cases ps) (auto simp: top_def stack_view_def task_view_def used_slots_def)
  with v show ?thesis by (simp add: stack_view_def task_view_def find_programid_def)
qed

lemma execute_stack:
  assumes "execute env cmd s = Ret (t, s')" "stack_view (task_view s) ps"
  shows "t = Return_error \<and> stack_view (task_view s') ps \<or>
    (\<exists>new. t \<noteq> Return_error \<and> stack_view (task_view s') (new # ps))"
proof -
  have fl: "newterminal_flag s \<noteq> 1" using assms(2) by (simp add: stack_view_def task_view_def)
  from execute_view[OF assms(1) fl] show ?thesis
    using find_programid_stack[OF assms(2)] stack_push assms(2) by (fastforce simp: task_view_def)
qed

lemma halt_stack:
  assumes "halt st s = Ret (t, s')" "stack_view (task_view s) ps"
  shows "(\<exists>p. ps = [p] \<and> stack_view (task_view s') ps) \<or> (\<exists>p q qs. ps = p # q # qs \<and> stack_view (task_view s') (q # qs))"
proof -
  obtain parent where par: "buf_get (openTasks s) (top ps) = Ret parent"
    "parent = 0 \<and> task_view s' = task_view s \<or>
     1 \<le> parent \<and> parent \<le> 6 \<and>
       task_view s' = (Page_directory (nat parent), (openTasks s)[top ps := -1], newterminal_flag s)"
    using halt_view[OF assms(1)] find_programid_stack[OF assms(2)] by auto
  have st: "stack_view (cr3 s, openTasks s, newterminal_flag s) ps" using assms(2) by (simp add: task_view_def)
  then have len: "length (openTasks s) = 7" "openTasks s ! 0 = -1" "set ps = used_slots (openTasks s)"
    by (auto simp: stack_view_def)
  show ?thesis
  proof (cases ps)
    case Nil
    with par len show ?thesis by (simp add: top_def)
  next
    case (Cons p qs)
    then have "p \<le> 6" using len(3) by (auto simp: used_slots_def)
    then have pv: "parent = openTasks s ! p" using par(1) Cons len(1) by (simp add: top_def)
    show ?thesis
    proof (cases qs)
      case Nil
      then have "parent = 0" using pv st Cons by (auto simp: stack_view_def)
      with par Nil Cons assms(2) show ?thesis by auto
    next
      case (Cons q rs)
      have ps: "ps = p # q # rs" using \<open>ps = p # qs\<close> Cons by simp
      have "q \<in> used_slots (openTasks s)" using len(3) ps by auto
      then have "q \<noteq> 0" by (simp add: used_slots_def)
      moreover have "parent = int q" using pv st ps by (simp add: stack_view_def)
      ultimately have "task_view s' = (Page_directory q, (openTasks s)[p := -1], newterminal_flag s)"
        using par(2) ps by (simp add: top_def)
      with stack_pop[OF st[unfolded ps]] ps show ?thesis by simp
    qed
  qed
qed

lemma task_inv_view: "task_view s' = task_view s \<Longrightarrow> task_inv s \<Longrightarrow> task_inv s'"
  by (simp add: task_inv_def)

lemma task_inv_step:
  assumes "syscall_step s s'" "task_inv s"
  shows "task_inv s'"
  using assms(1)
proof (cases rule: syscall_step.cases)
  case (step_execute env cmd t)
  then show ?thesis using assms(2) execute_stack unfolding task_inv_def by blast
next
  case (step_halt status t)
  then show ?thesis using assms(2) halt_stack unfolding task_inv_def by blast
next
  case (step_read env ks i buf nbytes r b)
  have "\<forall>irq\<in>set (env_irqs env). \<forall>s s'. irq s = Ret s' \<longrightarrow> task_view s' = task_view s"
    using step_read(1) task_calls.view_key_irq by auto
  then have "task_view s' = task_view s" using step_read(2) by (rule read_call_view)
  then show ?thesis using assms(2) by (simp add: task_inv_def)
next
  case (step_vidmap env a r)
  then have "task_view s' = task_view s" by (auto simp: vidmap_def task_view_def outcome_simps split: if_splits)
  then show ?thesis using assms(2) by (simp add: task_inv_def)
qed (use assms(2) in \<open>blast intro: task_inv_view task_calls.view_write_call open_call_view close_call_view\<close>)+

lemma booted_inv: "booted s \<Longrightarrow> task_inv s"
  unfolding task_inv_def
  by (rule exI[of _ "[]"]) (auto simp: booted_def stack_view_def task_view_def top_def used_slots_def nth_Cons' numeral_eq_Suc)

lemma reachable_inv: "reachable s \<Longrightarrow> task_inv s"
  by (induction rule: reachable.induct) (auto intro: booted_inv task_inv_step)

section \<open>What a program finds when it starts\<close>

lemma requeue_frame [simp]:
  "pcbs (requeue a b par s) = pcbs s" "program_image (requeue a b par s) = program_image s"
  "mem (requeue a b par s) = mem s" "bootHead (requeue a b par s) = bootHead s"
  "curr_status (requeue a b par s) = curr_status s" "cr3 (requeue a b par s) = cr3 s"
  "openTasks (requeue a b par s) = openTasks s" "newterminal_flag (requeue a b par s) = newterminal_flag s"
  "first_shell_entry_point (requeue a b par s) = first_shell_entry_point s"
  by (simp_all add: requeue_def Let_def add_task_to_queue_def remove_task_from_queue_def split: option.splits)

lemma update_terminal_frame [simp]:
  "pcbs (update_terminal k f s) = pcbs s" "program_image (update_terminal k f s) = program_image s"
  "mem (update_terminal k f s) = mem s" "bootHead (update_terminal k f s) = bootHead s"
  "curr_status (update_terminal k f s) = curr_status s" "cr3 (update_terminal k f s) = cr3 s"
  "openTasks (update_terminal k f s) = openTasks s" "newterminal_flag (update_terminal k f s) = newterminal_flag s"
  by (simp_all add: update_terminal_def)

lemma claim_task_frame [simp]:
  "pcbs (claim_task n c s) = pcbs s" "program_image (claim_task n c s) = program_image s"
  "mem (claim_task n c s) = mem s" "bootHead (claim_task n c s) = bootHead s" "cr3 (claim_task n c s) = cr3 s"
  by (simp_all add: claim_task_def)

lemma take_slot_frame [simp]:
  "pcbs (take_slot n c s) = pcbs s" "program_image (take_slot n c s) = program_image s"
  "mem (take_slot n c s) = mem s" "bootHead (take_slot n c s) = bootHead s" "cr3 (take_slot n c s) = cr3 s"
  by (simp_all add: take_slot_def Let_def)

lemma update_pcb_frame [simp]:
  "pcbs (update_pcb n f s) = (pcbs s)(n := f (pcbs s n))" "program_image (update_pcb n f s) = program_image s"
  "mem (update_pcb n f s) = mem s" "bootHead (update_pcb n f s) = bootHead s" "cr3 (update_pcb n f s) = cr3 s"
  "openTasks (update_pcb n f s) = openTasks s" "curr_status (update_pcb n f s) = curr_status s"
  by (simp_all add: update_pcb_def)

text \<open>A fresh control block: standard input and output on the terminal, the argument in place.\<close>

lemma clear_flags:
  assumes "length ds = 8"
  shows "length (fold (\<lambda>i ds. ds[i := (ds ! i)\<lparr>flags := 0\<rparr>]) [2..<7] ds) = 8"
    "j < 8 \<Longrightarrow> fold (\<lambda>i ds. ds[i := (ds ! i)\<lparr>flags := 0\<rparr>]) [2..<7] ds ! j =
      (if 2 \<le> j \<and> j < 7 then (ds ! j)\<lparr>flags := 0\<rparr> else ds ! j)"
proof -
  have u: "[2..<7] = [2, 3, 4, 5, 6::nat]" by (simp add: upt_rec)
  show "length (fold (\<lambda>i ds. ds[i := (ds ! i)\<lparr>flags := 0\<rparr>]) [2..<7] ds) = 8"
    using assms by (simp add: u)
  assume "j < 8"
  then have "j = 0 \<or> j = 1 \<or> j = 2 \<or> j = 3 \<or> j = 4 \<or> j = 5 \<or> j = 6 \<or> j = 7" by linarith
  then show "fold (\<lambda>i ds. ds[i := (ds ! i)\<lparr>flags := 0\<rparr>]) [2..<7] ds ! j =
      (if 2 \<le> j \<and> j < 7 then (ds ! j)\<lparr>flags := 0\<rparr> else ds ! j)"
    using assms by (elim disjE) (simp_all add: u)
qed

definition fresh_pcb :: "u8 list \<Rightarrow> pcb \<Rightarrow> bool" where
  "fresh_pcb a p \<longleftrightarrow> pcb_ok p \<and> terminated (argument p) \<and> cstr (argument p) = cstr a \<and>
     (\<forall>i<2. flags (fd p ! i) = 1 \<and> sysops_ptr (fd p ! i) = Some Terminal_ops) \<and>
     (\<forall>i. 2 \<le> i \<and> i < 7 \<longrightarrow> flags (fd p ! i) = 0)"

lemma init_pcb_fresh:
  assumes ok: "pcb_ok p" and a: "terminated a" "length (cstr a) < 128"
  shows "\<exists>p'. init_pcb a p = Ret p' \<and> fresh_pcb a p'"
proof -
  let ?std = "\<lambda>d. d\<lparr>flags := 1, sysops_ptr := Some Terminal_ops\<rparr>"
  let ?ds = "(fd p)[0 := ?std (fd p ! 0), 1 := ?std (fd p ! 1)]"
  let ?r = "fold (\<lambda>i ds. ds[i := (ds ! i)\<lparr>flags := 0\<rparr>]) [2..<7] ?ds"
  have len: "length (fd p) = 8" "length (argument p) = 128" using ok by (simp_all add: pcb_ok_def)
  let ?a = "cstr a @ 0 # drop (Suc (length (cstr a))) (argument p)"
  have cp: "strcpy (argument p) a = Ret ?a" using strcpy_fits[OF a(1)] a(2) len(2) by simp
  note cl = clear_flags[of ?ds]
  have nm: "length (fd_fileName (?r ! j)) = 32" if "j < 8" for j
    using that cl(2)[of j] len ok by (auto simp: pcb_ok_def nth_list_update)
  have "pcb_ok (p\<lparr>fd := ?r, argument := ?a\<rparr>)"
    using cl(1) len nm a(2) by (auto simp: pcb_ok_def in_set_conv_nth)
  moreover have "flags (?r ! i) = 1 \<and> sysops_ptr (?r ! i) = Some Terminal_ops" if "i < 2" for i
    using that cl(2)[of i] len by (cases i) (auto simp: nth_list_update less_Suc_eq)
  moreover have "flags (?r ! i) = 0" if "2 \<le> i" "i < 7" for i
    using that cl(2)[of i] len by simp
  ultimately have "fresh_pcb a (p\<lparr>fd := ?r, argument := ?a\<rparr>)"
    unfolding fresh_pcb_def using cstr_split[OF cstr_no_NUL, of a] by (simp add: terminated_split)
  moreover have "init_pcb a p = Ret (p\<lparr>fd := ?r, argument := ?a\<rparr>)"
    using cp by (simp add: init_pcb_def Let_def)
  ultimately show ?thesis by blast
qed

lemma page_loader_loads:
  assumes d: "read_dentry_by_name f s = Ret (Some d)" and v: "valid_inode s (inodeNum d)"
    and size: "file_size s (inodeNum d) \<le> length (program_image s n)" and n: "n \<le> 6"
  shows "page_loader f (int n) s = Ret (0, s\<lparr>cr3 := Page_directory n,
    program_image := (program_image s)(n := file_bytes s (inodeNum d) @ drop (file_size s (inodeNum d)) (program_image s n))\<rparr>)"
proof -
  let ?i = "inodeNum d"
  let ?s1 = "s\<lparr>cr3 := Page_directory n\<rparr>"
  have im: "same_image s ?s1" by (simp add: same_image_def)
  have len: "unat (inode_length s (get_inodeptr ?i s)) = file_size s ?i" by (simp add: file_size_def)
  have "read_data ?i 0 (Some (program_image s n)) (inode_length s (get_inodeptr ?i s)) s =
      Ret (int (file_size s ?i), Some (file_bytes s ?i @ drop (file_size s ?i) (program_image s n)))"
  proof (cases "file_size s ?i = 0")
    case True
    then have "unat (0 :: u32) = file_size s ?i" by simp
    from read_data_eof[OF this] show ?thesis using True by (simp add: file_bytes_def)
  next
    case False
    then have "unat (0 :: u32) < file_size s ?i" "inode_length s (get_inodeptr ?i s) \<noteq> 0" using len by auto
    from read_data_fits[OF v this, of "program_image s n"] show ?thesis using size len by simp
  qed
  then have rd: "read_data ?i 0 (Some (program_image s n)) (inode_length s (get_inodeptr ?i s)) ?s1 =
      Ret (int (file_size s ?i), Some (file_bytes s ?i @ drop (file_size s ?i) (program_image s n)))"
    using same_image_read[OF im] by simp
  have "n = 0 \<or> n = 1 \<or> n = 2 \<or> n = 3 \<or> n = 4 \<or> n = 5 \<or> n = 6" using n by linarith
  then have "set_programpage (int n) s = Ret ?s1" by (auto simp: set_programpage_def)
  then show ?thesis using d rd by (simp add: page_loader_def Let_def bytes_of_def)
qed

text \<open>
  The state in which a program starts: it runs in its own directory, its image is loaded, its
  control block is fresh and names its parent, whose registers have been saved; no other control
  block or image has changed.
\<close>

definition started :: "'a env \<Rightarrow> nat \<Rightarrow> nat \<Rightarrow> u8 list \<Rightarrow> u8 list \<Rightarrow> 'a kernel_scheme \<Rightarrow> 'a kernel_scheme \<Rightarrow> bool" where
  "started env cur new a img s s' \<longleftrightarrow>
     running s' new \<and> openTasks s' = (openTasks s)[new := int cur] \<and>
     program_image s' = (program_image s)(new := img @ drop (length img) (program_image s new)) \<and>
     fresh_pcb a (pcbs s' new) \<and> parent_pid (pcbs s' new) = int cur \<and>
     tss_esp0 s' = kernel_stack (of_nat new) \<and> mem s' = mem s \<and>
     (\<forall>m. m \<noteq> new \<and> (m \<noteq> cur \<or> cur = 0) \<longrightarrow> pcbs s' m = pcbs s m) \<and>
     (cur \<noteq> 0 \<longrightarrow> pcbs s' cur = (pcbs s cur)\<lparr>pcb_cr3 := cr3 s, pcb_esp := env_esp env, pcb_ebp := env_ebp env\<rparr>)"

lemma fresh_pcb_links:
  "fresh_pcb a (p\<lparr>pcb_cr3 := x, prev_pcb := y, parent_pid := z\<rparr>) = fresh_pcb a p"
  by (simp add: fresh_pcb_def pcb_ok_def)

lemma start_program_started:
  assumes cur: "find_programid s = Ret (int cur)" "cur \<noteq> new" and fl: "newterminal_flag s \<noteq> 1"
    and new: "first_free (\<lambda>p. p = -1) (openTasks s) [1..<7] = Some new" and ok: "pcb_ok (pcbs s new)"
    and a: "terminated a" "length (cstr a) < 128"
    and d: "read_dentry_by_name f s = Ret (Some d)" and v: "valid_inode s (inodeNum d)"
    and size: "file_size s (inodeNum d) \<le> length (program_image s new)"
  shows "\<exists>s'. start_program env f a e s = Ret (Enter_user e, s') \<and>
    started env cur new a (file_bytes s (inodeNum d)) s s'"
proof -
  have n: "1 \<le> new" "new \<le> 6" using first_free_Some[OF new] by auto
  let ?s1 = "if cur = 0 then s\<lparr>first_shell_entry_point := e\<rparr> else s"
  have s1: "openTasks ?s1 = openTasks s" "pcbs ?s1 = pcbs s" "program_image ?s1 = program_image s" "cr3 ?s1 = cr3 s"
    "mem ?s1 = mem s" "bootHead ?s1 = bootHead s" "newterminal_flag ?s1 = newterminal_flag s" by simp_all
  let ?s4 = "take_slot new (int cur) ?s1"
  have ot: "openTasks ?s4 = (openTasks s)[new := int cur]"
    using fl s1 by (simp add: take_slot_def claim_task_def Let_def)
  obtain p where p: "init_pcb a (pcbs s new) = Ret p" "fresh_pcb a p" using init_pcb_fresh[OF ok a] by blast
  define s6 where "s6 = save_registers env (int cur) (update_pcb new (\<lambda>_. p) ?s4)"
  have f6: "program_image s6 = program_image s" "mem s6 = mem s" "bootHead s6 = bootHead s"
    "openTasks s6 = (openTasks s)[new := int cur]"
    "pcbs s6 = (if cur = 0 then (pcbs s)(new := p) else (pcbs s)(new := p, cur := (pcbs s cur)\<lparr>pcb_cr3 := cr3 s, pcb_esp := env_esp env, pcb_ebp := env_ebp env\<rparr>))"
    using ot cur(2) s1 by (auto simp: s6_def save_registers_def)
  have im: "same_image s s6" by (simp add: same_image_def f6)
  have "page_loader f (int new) s6 = Ret (0, s6\<lparr>cr3 := Page_directory new,
    program_image := (program_image s)(new := file_bytes s (inodeNum d) @ drop (file_size s (inodeNum d)) (program_image s new))\<rparr>)"
    using page_loader_loads[of f s6 d new] d v size n(2) same_image_lookup[OF im] same_image_inode[OF im] f6(1) by simp
  then have "start_program env f a e s = Ret (Enter_user e, cli ((update_pcb new (\<lambda>p. p\<lparr>pcb_cr3 := Page_directory new, prev_pcb := int cur,
      parent_pid := int cur\<rparr>) (s6\<lparr>cr3 := Page_directory new, program_image := (program_image s)(new := file_bytes s (inodeNum d) @
        drop (file_size s (inodeNum d)) (program_image s new))\<rparr>))\<lparr>tss_esp0 := kernel_stack (of_nat new), tss_ss0 := KERNEL_DS\<rparr>))"
    (is "_ = Ret (_, ?s9)")
    using cur(1) new p(1) s1(1,2) by (simp add: start_program_def Let_def s6_def)
  moreover have "started env cur new a (file_bytes s (inodeNum d)) s ?s9"
    unfolding started_def running_def using n f6 p(2) cur(2)
    by (auto simp: cli_def fresh_pcb_links)
  ultimately show ?thesis by blast
qed

section \<open>Returning to the parent\<close>

lemma halt_returns:
  assumes cur: "find_programid s = Ret (int cur)" and ts: "length (openTasks s) = 7" "cur < 7"
    and par: "openTasks s ! cur = int par" "1 \<le> par" "par \<le> 6" and ok: "pcb_ok (pcbs s par)"
  shows "\<exists>s'. halt st s = Ret (Return_status (ucast st) (pcb_esp (pcbs s par)) (pcb_ebp (pcbs s par)), s') \<and>
    running s' par \<and> openTasks s' = (openTasks s)[cur := -1] \<and> program_image s' = program_image s \<and>
    (\<forall>m. m \<noteq> par \<longrightarrow> pcbs s' m = pcbs s m) \<and>
    (\<forall>i<8. flags (fd (pcbs s' par) ! i) = (if 2 \<le> i then 0 else flags (fd (pcbs s par) ! i)))"
proof -
  define s2 where "s2 = requeue (int cur) (int par) (int par) (s\<lparr>curr_status := ucast st\<rparr>)"
  define s5 where "s5 = (update_terminal (old_terminal s2) (\<lambda>t. t\<lparr>program_id := of_nat par\<rparr>) s2)
    \<lparr>cr3 := Page_directory par, openTasks := (openTasks s)[cur := -1]\<rparr>"
  have f2: "openTasks s2 = openTasks s" "pcbs s2 = pcbs s" "curr_status s2 = ucast st" "program_image s2 = program_image s"
    by (simp_all add: s2_def)
  have f5: "pcbs s5 = pcbs s" "curr_status s5 = ucast st" "openTasks s5 = (openTasks s)[cur := -1]"
    "program_image s5 = program_image s" "running s5 par"
    using f2 par by (simp_all add: s5_def running_def)
  have ok5: "pcb_ok (pcbs s5 par)" using ok f5 by simp
  have rng: "set [2, 3, 4, 5, 6, 7] \<subseteq> {2..7 :: int}" by simp
  obtain p where p: "close_all [2, 3, 4, 5, 6, 7] s5 = Ret (s5\<lparr>pcbs := (pcbs s5)(par := p)\<rparr>)"
    "pcb_esp p = pcb_esp (pcbs s par)" "pcb_ebp p = pcb_ebp (pcbs s par)"
    "\<forall>i<8. flags (fd p ! i) = (if int i \<in> set [2, 3, 4, 5, 6, 7] then 0 else flags (fd (pcbs s par) ! i))"
    using close_all_free[OF f5(5) ok5 rng] f5(1) by auto
  have "par = 1 \<or> par = 2 \<or> par = 3 \<or> par = 4 \<or> par = 5 \<or> par = 6" using par by linarith
  then have page: "set_programpage (int par) x = Ret (x\<lparr>cr3 := Page_directory par\<rparr>)" for x :: "'a kernel_scheme"
    by (auto simp: set_programpage_def)
  let ?s' = "s5\<lparr>pcbs := (pcbs s5)(par := p), tss_esp0 := kernel_stack (word_of_int (int par))\<rparr>"
  have "halt st s = Ret (Return_status (ucast st) (pcb_esp (pcbs s par)) (pcb_ebp (pcbs s par)), ?s')"
    using cur ts par p(1-3) f5(2) page f2(1)
    by (simp add: halt_def s2_def[symmetric] Let_def s5_def[symmetric] pcb_of_def del: close_all.simps)
  moreover have "running ?s' par" using f5(5) by (simp add: running_def)
  moreover have "int i \<in> set [2, 3, 4, 5, 6, 7] \<longleftrightarrow> 2 \<le> i" if "i < 8" for i
    using that by auto
  ultimately show ?thesis using f5 p(4) by (intro exI[of _ ?s']) auto
qed

text \<open>
  After a program has ended, its parent is back in its own directory with the registers it had
  when it called \<open>execute\<close>, and the slots are as they were; whatever the program did in between, as
  long as it left the slots and the parent's control block alone.
\<close>

lemma execute_halt:
  assumes st: "started env cur new a img s s1" and run: "running s cur" and ok: "pcb_ok (pcbs s cur)"
    and slot: "openTasks s ! new = -1" "length (openTasks s) = 7" "new < 7"
    and child: "running s2 new" "openTasks s2 = openTasks s1" "pcbs s2 cur = pcbs s1 cur"
  shows "\<exists>s3. halt status s2 = Ret (Return_status (ucast status) (env_esp env) (env_ebp env), s3) \<and>
    cr3 s3 = cr3 s \<and> openTasks s3 = openTasks s"
proof -
  have c: "1 \<le> cur" "cur \<le> 6" "cr3 s = Page_directory cur" using run by (simp_all add: running_def)
  have p: "pcbs s2 cur = (pcbs s cur)\<lparr>pcb_cr3 := cr3 s, pcb_esp := env_esp env, pcb_ebp := env_ebp env\<rparr>"
    using st child(3) c by (simp add: started_def)
  have ot: "openTasks s2 = (openTasks s)[new := int cur]" using st child(2) by (simp add: started_def)
  have ok2: "pcb_ok (pcbs s2 cur)" using ok p by (simp add: pcb_ok_def)
  have id2: "find_programid s2 = Ret (int new)" using child(1) by simp
  have "length (openTasks s2) = 7" "openTasks s2 ! new = int cur" using ot slot by simp_all
  from halt_returns[OF id2 this(1) slot(3) this(2) c(1,2) ok2, of status]
  moreover have "(openTasks s)[new := -1] = openTasks s" using slot(1) by (metis list_update_id)
  ultimately show ?thesis using p ot c(3) by (auto simp: running_def)
qed

section \<open>Commands\<close>

definition word_char :: "u8 \<Rightarrow> bool" where
  "word_char c \<longleftrightarrow> c \<noteq> 10 \<and> c \<noteq> SPACE \<and> c \<noteq> 0"

lemma skip_spaces_run: "c \<noteq> SPACE \<Longrightarrow> skip_spaces (replicate k SPACE @ c # cs) = Ret (c # cs)"
  by (induction k) auto

lemma parse_word_run:
  assumes "\<forall>c\<in>set w. word_char c" "\<not> word_char c" "len + length w \<le> limit" "len + length w \<le> length buf"
  shows "parse_word limit buf len (w @ c # cs) =
    Ret (Some (take len buf @ w @ drop (len + length w) buf, len + length w, c # cs))"
  using assms
proof (induction w arbitrary: buf len)
  case Nil
  then show ?case by (auto simp: word_char_def)
next
  case (Cons x w)
  then have len: "len < length buf" by simp
  have "parse_word limit (buf[len := x]) (Suc len) (w @ c # cs) =
    Ret (Some (take (Suc len) (buf[len := x]) @ w @ drop (Suc len + length w) (buf[len := x]), Suc len + length w, c # cs))"
    using Cons.prems by (intro Cons.IH) auto
  then show ?case using Cons.prems len by (simp add: word_char_def take_Suc_update)
qed

text \<open>A name of at most 31 characters and an argument of at most 127 are separated.\<close>

lemma parse_command_words:
  assumes nm: "\<forall>c\<in>set nm. word_char c" "nm \<noteq> []" "length nm < 32"
    and ar: "\<forall>c\<in>set ar. word_char c" "length ar < 128"
  shows "parse_command (replicate i SPACE @ nm @ replicate (Suc j) SPACE @ ar @ [0]) =
    Ret (Some (nm @ replicate (32 - length nm) 0, ar @ replicate (128 - length ar) 0))"
proof -
  obtain x xs where x: "nm = x # xs" using nm(2) by (cases nm) auto
  have sk: "skip_spaces (replicate i SPACE @ nm @ replicate (Suc j) SPACE @ ar @ [0]) =
      Ret (nm @ replicate (Suc j) SPACE @ ar @ [0])"
    using skip_spaces_run[of x i] nm(1) x by (simp add: word_char_def)
  have w1: "parse_word 32 (replicate 32 0) 0 (nm @ SPACE # replicate j SPACE @ ar @ [0]) =
      Ret (Some (nm @ replicate (32 - length nm) 0, length nm, SPACE # replicate j SPACE @ ar @ [0]))"
    using parse_word_run[OF nm(1), of SPACE 0 32 "replicate 32 0"] nm(3) by (simp add: word_char_def)
  have t1: "buf_set (nm @ replicate (32 - length nm) 0) (length nm) 0 = Ret (nm @ replicate (32 - length nm) 0)"
    using nm(3) by (cases "32 - length nm") (simp_all add: list_update_append)
  obtain y ys where y: "ar @ [0] = y # ys" "y \<noteq> SPACE"
    using ar(1) by (cases ar) (auto simp: word_char_def)
  have sk2: "skip_spaces (SPACE # replicate j SPACE @ ar @ [0]) = Ret (ar @ [0])"
    using skip_spaces_run[of y "Suc j" ys] y by simp
  have w2: "parse_word 128 (replicate 128 0) 0 (ar @ [0]) = Ret (Some (ar @ replicate (128 - length ar) 0, length ar, [0]))"
    using parse_word_run[OF ar(1), of 0 0 128 "replicate 128 0" "[]"] ar(2) by (simp add: word_char_def)
  have t2: "buf_set (ar @ replicate (128 - length ar) 0) (length ar) 0 = Ret (ar @ replicate (128 - length ar) 0)"
    using ar(2) by (cases "128 - length ar") (simp_all add: list_update_append)
  show ?thesis using sk w1 t1 sk2 w2 t2 by (simp add: parse_command_def)
qed

text \<open>An executable: at least 40 bytes, the ELF magic number first; the entry point at byte 24.\<close>

definition is_elf :: "u8 list \<Rightarrow> bool" where
  "is_elf bs \<longleftrightarrow> 40 \<le> length bs \<and> bs ! 0 = 0x7f \<and> bs ! 1 = 0x45 \<and> bs ! 2 = 0x4c \<and> bs ! 3 = 0x46"

definition elf_entry :: "u8 list \<Rightarrow> u32" where
  "elf_entry bs = push_bit 24 (ucast (bs ! 27)) + push_bit 16 (ucast (bs ! 26)) + push_bit 8 (ucast (bs ! 25)) + ucast (bs ! 24)"

lemma read_header:
  assumes "read_dentry_by_name f s = Ret (Some d)" "valid_inode s (inodeNum d)" "40 \<le> file_size s (inodeNum d)"
    and "length junk = 40"
  shows "read_file_sys_helper f (Some junk) 40 s = Ret (40, Some (take 40 (file_bytes s (inodeNum d))))"
proof -
  have lt: "unat (0 :: u32) < file_size s (inodeNum d)" using assms(3) by simp
  have "length (take (unat (40 :: u32)) (drop (unat (0 :: u32)) (file_bytes s (inodeNum d)))) = 40"
    using assms(3) by simp
  then have "read_data (inodeNum d) 0 (Some junk) 40 s = Ret (40, Some (take 40 (file_bytes s (inodeNum d))))"
    using read_data_fits[OF assms(2) lt, of 40 junk] assms(4) by simp
  then show ?thesis using assms(1) by (simp add: read_file_sys_helper_def)
qed

lemma execute_elf:
  assumes cmd: "parse_command c = Ret (Some (f, a))" and d: "read_dentry_by_name f s = Ret (Some d)"
    and v: "valid_inode s (inodeNum d)" and elf: "is_elf (file_bytes s (inodeNum d))" and junk: "length (env_junk env) = 40"
  shows "execute env (Some c) s = start_program env f a (elf_entry (file_bytes s (inodeNum d))) s"
proof -
  let ?b = "file_bytes s (inodeNum d)"
  have len: "40 \<le> file_size s (inodeNum d)" "40 \<le> length ?b" using elf by (simp_all add: is_elf_def)
  note h = read_header[OF d v len(1) junk]
  have "\<not> (take 40 ?b ! 0 \<noteq> 0x7f \<or> take 40 ?b ! 1 \<noteq> 0x45 \<or> take 40 ?b ! 2 \<noteq> 0x4c \<or> take 40 ?b ! 3 \<noteq> 0x46)"
    using elf by (simp add: is_elf_def)
  moreover have "length (take 40 ?b) = 40" using len by simp
  moreover have "open_file f s = Ret 0" using d by (simp add: open_file_def)
  ultimately show ?thesis using cmd h
    by (simp add: execute_def bytes_of_def elf_entry_def)
qed

lemma execute_no_file:
  "parse_command c = Ret (Some (f, a)) \<Longrightarrow> read_dentry_by_name f s = Ret None \<Longrightarrow>
     execute env (Some c) s = Ret (Return_error, s)"
  by (simp add: execute_def open_file_def)

text \<open>What stands in the header buffer afterwards: a file of less than 40 bytes leaves the rest of it as it was on the stack.\<close>

definition elf_header :: "u8 list \<Rightarrow> u8 list \<Rightarrow> u8 list" where
  "elf_header bs junk = take 40 bs @ drop (length bs) junk"

lemma read_header_any:
  assumes d: "read_dentry_by_name f s = Ret (Some d)" and v: "valid_inode s (inodeNum d)" and junk: "length junk = 40"
  shows "\<exists>r. read_file_sys_helper f (Some junk) 40 s = Ret (r, Some (elf_header (file_bytes s (inodeNum d)) junk))"
proof (cases "file_size s (inodeNum d) = 0")
  case True
  then have "read_data (inodeNum d) 0 (Some junk) 40 s = Ret (0, Some junk)" using read_data_eof[of 0] by simp
  moreover have "elf_header (file_bytes s (inodeNum d)) junk = junk" using True by (simp add: elf_header_def flip: length_0_conv)
  ultimately show ?thesis using d by (simp add: read_file_sys_helper_def)
next
  case False
  let ?t = "take 40 (file_bytes s (inodeNum d))"
  have "read_data (inodeNum d) 0 (Some junk) 40 s = Ret (int (length ?t), Some (?t @ drop (length ?t) junk))"
    using read_data_fits[OF v, of 0 40 junk] False junk by simp
  moreover have "?t @ drop (length ?t) junk = elf_header (file_bytes s (inodeNum d)) junk"
    using junk by (auto simp: elf_header_def min_def)
  ultimately show ?thesis using d False by (auto simp: read_file_sys_helper_def)
qed

lemma execute_not_elf:
  assumes "parse_command c = Ret (Some (f, a))" and d: "read_dentry_by_name f s = Ret (Some d)"
    and v: "valid_inode s (inodeNum d)" and junk: "length (env_junk env) = 40"
    and elf: "take 4 (elf_header (file_bytes s (inodeNum d)) (env_junk env)) \<noteq> [0x7f, 0x45, 0x4c, 0x46]"
  shows "execute env (Some c) s = Ret (Return_error, s)"
proof -
  let ?h = "elf_header (file_bytes s (inodeNum d)) (env_junk env)"
  obtain r where h: "read_file_sys_helper f (Some (env_junk env)) 40 s = Ret (r, Some ?h)" using read_header_any[OF d v junk] by blast
  have len: "length ?h = 40" using junk by (simp add: elf_header_def)
  then have "take 4 ?h = [?h ! 0, ?h ! 1, ?h ! 2, ?h ! 3]" by (intro nth_equalityI) (auto simp: less_Suc_eq eval_nat_numeral)
  moreover have "open_file f s = Ret 0" using d by (simp add: open_file_def)
  ultimately show ?thesis using assms(1) h elf len
    by (auto simp: execute_def bytes_of_def)
qed

lemma getargs_argument:
  assumes "running s n" "fresh_pcb a (pcbs s n)" "length (cstr a) < length buf" "int (length (cstr a)) < nbytes"
  shows "getargs buf nbytes s = Ret (0, cstr a @ 0 # drop (Suc (length (cstr a))) buf)"
  using assms strcpy_fits[of "argument (pcbs s n)" buf]
  by (simp add: getargs_def fresh_pcb_def strlen_eq)

section \<open>The slots of openTasks\<close>

definition task_used :: "int list \<Rightarrow> nat set" where
  "task_used ts = {i. 1 \<le> i \<and> i < 7 \<and> ts ! i \<noteq> -1}"

definition task_pick :: "int list \<Rightarrow> nat option" where
  "task_pick ts = first_free (\<lambda>p. p = -1) ts [1..<7]"

definition task_link :: "int \<Rightarrow> nat \<Rightarrow> int list \<Rightarrow> int list" where
  "task_link p i ts = ts[i := p]"

interpretation task_pool: slot_pool "{1..<7}" task_used task_pick "task_link 0" "task_link (-1)" "\<lambda>ts. length ts = 7"
proof
  fix ts :: "int list" and i :: nat
  assume len: "length ts = 7"
  { assume "task_pick ts = Some i"
    then show "i \<in> {1..<7} - task_used ts"
      using first_free_Some[of "\<lambda>p. p = -1" ts "[1..<7]" i] by (auto simp: task_pick_def task_used_def) }
  { assume "task_pick ts = None"
    then show "{1..<7} \<subseteq> task_used ts" by (auto simp: task_pick_def task_used_def first_free_None) }
  assume "i \<in> {1..<7}"
  with len show "task_used (task_link 0 i ts) = insert i (task_used ts)"
    "task_used (task_link (-1) i ts) = task_used ts - {i}" "length (task_link 0 i ts) = 7" "length (task_link (-1) i ts) = 7"
    by (auto simp: task_used_def task_link_def nth_list_update split: if_splits)
qed simp

text \<open>
  Command \<open>c\<close> names an executable file with directory entry \<open>d\<close> and has argument \<open>a\<close>; program \<open>cur\<close> is
  running and slot \<open>new\<close> is the first free one.
\<close>

definition executable :: "'a env \<Rightarrow> u8 list \<Rightarrow> u8 list \<Rightarrow> dentry \<Rightarrow> nat \<Rightarrow> nat \<Rightarrow> 'a kernel_scheme \<Rightarrow> bool" where
  "executable env c a d cur new s \<longleftrightarrow>
     (\<exists>f. parse_command c = Ret (Some (f, a)) \<and> read_dentry_by_name f s = Ret (Some d)) \<and>
     valid_inode s (inodeNum d) \<and> is_elf (file_bytes s (inodeNum d)) \<and>
     file_size s (inodeNum d) \<le> length (program_image s new) \<and> terminated a \<and> length (cstr a) < 128 \<and>
     find_programid s = Ret (int cur) \<and> newterminal_flag s \<noteq> 1 \<and> task_pick (openTasks s) = Some new \<and> cur \<noteq> new \<and>
     pcb_ok (pcbs s new) \<and> length (env_junk env) = 40"

lemma execute_started:
  assumes "executable env c a d cur new s"
  shows "\<exists>s'. execute env (Some c) s = Ret (Enter_user (elf_entry (file_bytes s (inodeNum d))), s') \<and>
    started env cur new a (file_bytes s (inodeNum d)) s s'"
proof -
  from assms obtain f where f: "parse_command c = Ret (Some (f, a))" "read_dentry_by_name f s = Ret (Some d)"
    by (auto simp: executable_def)
  from execute_elf[OF f] start_program_started[of s cur new a f d env] f(2) assms show ?thesis
    by (auto simp: executable_def task_pick_def)
qed

section \<open>Properties\<close>

text \<open>The command \<open>f -x\<close> in the example kernel.\<close>

definition demo_command :: "u8 list" where
  "demo_command = [102, SPACE, 45, 120, 0]"

definition demo_argument :: "u8 list" where
  "demo_argument = [45, 120] @ replicate 126 0"

lemma demo_parse: "parse_command demo_command = Ret (Some (102 # replicate 31 0, demo_argument))"
  using parse_command_words[of "[102]" "[45, 120]" 0 0] by (simp add: demo_command_def demo_argument_def word_char_def)

lemma demo_argument_cstr: "terminated demo_argument" "cstr demo_argument = [45, 120]"
  by (simp_all add: demo_argument_def terminated_def cstr_def)

lemma demo_elf: "is_elf (file_bytes demo_fs 0)" "elf_entry (file_bytes demo_fs 0) = 0x08048018"
  by (simp_all add: is_elf_def elf_entry_def file_bytes_def demo_file_byte demo_image_def)

lemma demo_executable: "executable demo_env demo_command demo_argument (entry demo_fs 0) 1 2 demo_kernel"
proof -
  have "task_pick [-1, 0, -1, -1, -1, -1, -1] = Some 2" by (simp add: task_pick_def upt_rec first_free.simps)
  then show ?thesis
    using demo_parse demo_lookup demo_elf demo_argument_cstr find_programid_running[OF demo_running]
    by (auto simp: executable_def demo_entry_0 same_image_inode[OF demo_kernel_image] demo_env_def)
qed



text \<open>
  C1: when a program started by \<open>execute\<close> halts, having left \<open>openTasks\<close> and its parent's control block
  alone, \<open>halt\<close> returns the status from the parent's \<open>execute\<close>, on the stack \<open>execute\<close> was left with
  and with the parent's page directory, and the slot is free again.
\<close>

theorem execute_halt_roundtrip:
  assumes "executable env c a d cur new s" "running s cur" "pcb_ok (pcbs s cur)" "length (openTasks s) = 7"
    and "execute env (Some c) s = Ret (t, s1)"
    and "running s2 new" "openTasks s2 = openTasks s1" "pcbs s2 cur = pcbs s1 cur"
  shows "\<exists>s3. halt status s2 = Ret (Return_status (ucast status) (env_esp env) (env_ebp env), s3) \<and>
    cr3 s3 = cr3 s \<and> openTasks s3 = openTasks s"
proof -
  from execute_started[OF assms(1)] assms(5) have st: "started env cur new a (file_bytes s (inodeNum d)) s s1" by auto
  have "openTasks s ! new = -1" "new < 7"
    using assms(1) first_free_Some[of "\<lambda>p. p = -1" "openTasks s" "[1..<7]" new] by (auto simp: executable_def task_pick_def)
  then show ?thesis using execute_halt[OF st assms(2,3) _ assms(4)] assms(6-8) by blast
qed

theorem execute_halt_roundtrip_witness:
  "\<exists>s1 s3. execute demo_env (Some demo_command) demo_kernel = Ret (Enter_user 0x08048018, s1) \<and>
     halt 7 s1 = Ret (Return_status 7 0x7FDE00 0x7FDE08, s3) \<and> openTasks s3 = openTasks demo_kernel"
proof -
  from execute_started[OF demo_executable] obtain s1 where
    s1: "execute demo_env (Some demo_command) demo_kernel = Ret (Enter_user 0x08048018, s1)" "running s1 2"
    by (auto simp: started_def demo_entry_0 same_image_inode[OF demo_kernel_image] demo_elf)
  from execute_halt_roundtrip[OF demo_executable demo_running _ _ s1(1) s1(2), of 7] s1(1) show ?thesis
    by (auto simp: demo_env_def)
qed

text \<open>
  C35: \<open>execute\<close> of a name that is not in the file system, or of a file whose header does not begin with the ELF magic, returns
  \<open>-1\<close> and changes nothing. The header is what is in the buffer of 40 bytes after reading: for a shorter file its end is what the
  stack held before, so that a file of less than four bytes is refused unless these bytes complete the magic.
\<close>

theorem execute_refuses:
  assumes "parse_command c = Ret (Some (f, a))"
    and "read_dentry_by_name f s = Ret None \<or> (\<exists>d. read_dentry_by_name f s = Ret (Some d) \<and> valid_inode s (inodeNum d) \<and>
      length (env_junk env) = 40 \<and> take 4 (elf_header (file_bytes s (inodeNum d)) (env_junk env)) \<noteq> [0x7f, 0x45, 0x4c, 0x46])"
  shows "execute env (Some c) s = Ret (Return_error, s)"
  using assms(2) execute_no_file[OF assms(1)] execute_not_elf[OF assms(1)] by blast

theorem execute_refuses_witness: "execute demo_env (Some [103, SPACE, 0]) demo_kernel = Ret (Return_error, demo_kernel)"
proof -
  have p: "parse_command [103, SPACE, 0] = Ret (Some (103 # replicate 31 0, replicate 128 0))"
    using parse_command_words[of "[103]" "[]" 0 0] by (simp add: word_char_def)
  have "\<not> same_prefix (103 # replicate 31 0) (fileName (entry demo_fs i)) 31" if "i < 63" for i
    using demo_fileName[OF that] by (auto simp: same_prefix_def cstr_def)
  then have "find (\<lambda>d. same_prefix (103 # replicate 31 0) (fileName d) 31) (map (entry demo_fs) [0..<63]) = None"
    by (auto simp: find_None_iff)
  then have "read_dentry_by_name (103 # replicate 31 0) demo_kernel = Ret None"
    using read_dentry_by_name_find[of "103 # replicate 31 0" demo_fs]
    by (simp add: same_image_lookup[OF demo_kernel_image] terminated_def cstr_def)
  with execute_refuses[OF p] show ?thesis by blast
qed

text \<open>
  with all six program slots in use \<open>execute\<close> of an executable file does not report an error: the
  search reads \<open>openTasks[7]\<close>, past the end of the array.
\<close>

lemma execute_no_slot:
  assumes "parse_command c = Ret (Some (f, a))" "read_dentry_by_name f s = Ret (Some d)" "valid_inode s (inodeNum d)"
    and "is_elf (file_bytes s (inodeNum d))" "length (env_junk env) = 40" "find_programid s = Ret cur"
    and "length (openTasks s) = 7" "\<forall>i\<in>{1..6}. openTasks s ! i \<noteq> -1"
  shows "execute env (Some c) s = Undef"
proof -
  have "task_pick (openTasks s) = None"
    using assms(7,8) by (subst task_pool.pick_eq_None) (auto simp: task_used_def)
  then show ?thesis using execute_elf[OF assms(1-5)] assms(6) by (simp add: start_program_def task_pick_def)
qed

lemma execute_no_slot_witness:
  "execute demo_env (Some demo_command) (demo_kernel\<lparr>openTasks := [-1, 0, 1, 2, 3, 4, 5]\<rparr>) = Undef"
proof -
  let ?s = "demo_kernel\<lparr>openTasks := [-1, 0, 1, 2, 3, 4, 5]\<rparr>"
  have im: "same_image demo_fs ?s" using demo_kernel_image by (simp add: same_image_def)
  have "read_dentry_by_name (102 # replicate 31 0) ?s = Ret (Some (entry demo_fs 0))"
    using demo_lookup by (simp add: same_image_lookup[OF im] same_image_lookup[OF demo_kernel_image])
  moreover have "i = 1 \<or> i = 2 \<or> i = 3 \<or> i = 4 \<or> i = 5 \<or> i = 6" if "i \<in> {1..6}" for i :: nat using that by auto
  then have "\<forall>i\<in>{1..6}. openTasks ?s ! i \<noteq> -1" by force
  ultimately show ?thesis
    using execute_no_slot[OF demo_parse, of ?s "entry demo_fs 0" demo_env 1] demo_elf
    by (simp add: demo_entry_0 same_image_inode[OF im] demo_env_def find_programid_def)
qed

lemma demo_pcb_registers: "pcb_esp demo_pcb = 0" "pcb_ebp demo_pcb = 0"
  by (simp_all add: demo_pcb_def)

text \<open>
  C36: \<open>halt\<close> returns to the parent with its file descriptors 2 to 7 closed: they are closed after the
  parent's page directory is loaded, so it is the parent's descriptors that are closed.
\<close>

theorem halt_closes_parent:
  assumes "find_programid s = Ret (int cur)" "length (openTasks s) = 7" "cur < 7"
    and "openTasks s ! cur = int par" "1 \<le> par" "par \<le> 6" "pcb_ok (pcbs s par)"
  shows "\<exists>s'. halt st s = Ret (Return_status (ucast st) (pcb_esp (pcbs s par)) (pcb_ebp (pcbs s par)), s') \<and>
    running s' par \<and> openTasks s' = (openTasks s)[cur := -1] \<and> fds_used (fd (pcbs s' par)) = {} \<and>
    (par \<noteq> cur \<longrightarrow> pcbs s' cur = pcbs s cur)"
  using halt_returns[OF assms, of st] by (fastforce simp: fds_used_def)

theorem halt_closes_parent_witness:
  "\<exists>s'. halt 3 (demo_kernel\<lparr>cr3 := Page_directory 2, openTasks := [-1, 0, 1, -1, -1, -1, -1]\<rparr>) = Ret (Return_status 3 0 0, s') \<and>
     running s' 1 \<and> fds_used (fd (pcbs s' 1)) = {}"
  using halt_closes_parent[of "demo_kernel\<lparr>cr3 := Page_directory 2, openTasks := [-1, 0, 1, -1, -1, -1, -1]\<rparr>" 2 1 3]
  by (auto simp: find_programid_def demo_pcb_registers)

lemma getargs_started:
  assumes "executable env c a d cur new s" "execute env (Some c) s = Ret (t, s')" "int (length (cstr a)) < nbytes \<Longrightarrow> length (cstr a) < length buf"
  shows "getargs buf nbytes s' =
    (if int (length (cstr a)) < nbytes then Ret (0, cstr a @ 0 # drop (Suc (length (cstr a))) buf) else Ret (-1, buf))"
proof -
  from execute_started[OF assms(1)] assms(2) have st: "running s' new" "fresh_pcb a (pcbs s' new)"
    by (auto simp: started_def)
  have "strlen (argument (pcbs s' new)) = Ret (length (cstr a))" using st(2) by (simp add: fresh_pcb_def strlen_eq)
  then have "getargs buf nbytes s' = Ret (-1, buf)" if "\<not> int (length (cstr a)) < nbytes"
    using st(1) that by (simp add: getargs_def)
  with getargs_argument[OF st] assms(3) show ?thesis by auto
qed

text \<open>
  C34: \<open>getargs\<close> in a program started by \<open>execute\<close> copies the argument of the command, with its NUL, into
  a buffer with room for it, and refuses a smaller \<open>nbytes\<close>.
\<close>

theorem getargs_of_execute:
  assumes "executable env c a d cur new s" "execute env (Some c) s = Ret (t, s')" "length (cstr a) < length buf"
  shows "getargs buf nbytes s' =
    (if int (length (cstr a)) < nbytes then Ret (0, cstr a @ 0 # drop (Suc (length (cstr a))) buf) else Ret (-1, buf))"
  by (rule getargs_started[OF assms])

theorem getargs_of_execute_witness:
  "\<exists>s'. execute demo_env (Some demo_command) demo_kernel = Ret (Enter_user 0x08048018, s') \<and>
     getargs [1, 1, 1, 9] 4 s' = Ret (0, [45, 120, 0, 9])"
proof -
  from execute_started[OF demo_executable] obtain s1 where
    s1: "execute demo_env (Some demo_command) demo_kernel = Ret (Enter_user 0x08048018, s1)"
    by (auto simp: demo_entry_0 same_image_inode[OF demo_kernel_image] demo_elf)
  with getargs_of_execute[OF demo_executable s1, of "[1, 1, 1, 9]" 4] show ?thesis
    by (simp add: demo_argument_cstr)
qed

text \<open>
  \<open>execute\<close> splits a command of a name and an argument, set off by any number of blanks, into the
  two of them.
\<close>

lemma parse_command_splits:
  assumes "\<forall>c\<in>set nm. word_char c" "nm \<noteq> []" "length nm < 32" "\<forall>c\<in>set ar. word_char c" "length ar < 128"
  shows "parse_command (replicate i SPACE @ nm @ replicate (Suc j) SPACE @ ar @ [0]) =
    Ret (Some (nm @ replicate (32 - length nm) 0, ar @ replicate (128 - length ar) 0))"
  using assms by (rule parse_command_words)

lemma parse_command_splits_example:
  "parse_command [32, 102, 32, 32, 45, 0] = Ret (Some (102 # replicate 31 0, 45 # replicate 127 0))"
  using parse_command_splits[of "[102]" "[45]" 1 1] by (simp add: word_char_def)

end
