(* ===== verification/Keyboard.thy ===== *)
theory Keyboard
  imports Tasks
begin

text \<open>
  The keyboard handler and the switching of terminals of \<open>terminal.c\<close>, and the interrupt handlers of
  \<open>i8259.c\<close> that call them. \<open>kbdus\<close> has 128 entries and is indexed with the raw scan code, also on the
  release of a key, when it is 128 or more: the byte found behind the array is a parameter, \<open>past\<close>
  for \<open>kbdus\<close> and \<open>past_shift\<close> for \<open>kbdus_shift\<close>. A handler ends by returning, by leaving through
  \<open>int_ret_helper\<close> with the frame of another terminal, or, when \<open>execute\<close> has started a shell on a new
  terminal, by entering user mode.
\<close>

section \<open>Definitions\<close>

definition keys :: "string \<Rightarrow> u8 list" where
  "keys t = map of_char t"

definition kbdus :: "u8 list" where
  "kbdus = [0, 27] @ keys ''1234567890-='' @ [8, 9] @ keys ''qwertyuiop[]'' @ [10, 0] @
     keys ''asdfghjkl;'' @ [39, 96, 0, 92] @ keys ''zxcvbnm,./'' @ [0] @ keys ''*'' @ [0] @ keys '' '' @ [0] @
     replicate 10 0 @ [0, 0, 0, 0, 0] @ keys ''-'' @ [0, 0, 0] @ keys ''+'' @ replicate 49 0"

definition kbdus_shift :: "u8 list" where
  "kbdus_shift = [0, 27] @ keys ''!@#$%^&*()_+'' @ [0, 9] @ keys ''QWERTYUIOP{}'' @ [0, 0] @
     keys ''ASDFGHJKL:'' @ [34, 126, 0, 124] @ keys ''ZXCVBNM<>?'' @ [0] @ keys ''*'' @ [0] @ keys '' '' @ [0] @
     replicate 10 0 @ [0, 0, 0, 0, 0] @ keys ''-'' @ [0, 0, 0] @ keys ''+'' @ replicate 49 0"

definition table_byte :: "u8 list \<Rightarrow> (u8 \<Rightarrow> u8) \<Rightarrow> u8 \<Rightarrow> u8" where
  "table_byte table past scancode =
     (if unat scancode < length table then table ! unat scancode else past scancode)"

datatype irq_exit = Irq_return | Irq_switch u32 u32 | Irq_user u32

definition save_terminal :: "nat \<Rightarrow> 'a kernel_scheme \<Rightarrow> 'a kernel_scheme outcome" where
  "save_terminal term s =
     (let s1 = update_terminal term (\<lambda>t. t\<lparr>term_cr3 := cr3 s, term_esp := esp_0 s, term_ebp := ebp_0 s,
                 kernel_esp := tss_esp0 s\<rparr>) s
      in obind (find_programid s1) (\<lambda>pid.
         let s2 = update_terminal term (\<lambda>t. t\<lparr>program_id := word_of_int pid, term_x := get_cursor_x s1,
                    term_y := get_cursor_y s1\<rparr>) s1;
             s3 = s2\<lparr>mem := memcpy (mem s2) (term_buffer (int term)) VIDEO 0x1000\<rparr>
         in Ret (non_video_mapping (sint (program_id (terminals s3 ! term))) (int term) s3)))"

definition new_terminal :: "'a env \<Rightarrow> nat \<Rightarrow> 'a kernel_scheme \<Rightarrow> (irq_exit \<times> 'a kernel_scheme) outcome" where
  "new_terminal env term s =
     (let s1 = update_terminal term (\<lambda>t. t\<lparr>active := 1\<rparr>) s;
          s2 = s1\<lparr>newterminal_flag := 1\<rparr>;
          s3 = add_task_to_queue (Some (int term)) s2;
          s4 = send_eoi 1 s3
      in obind (execute env (Some (lit ''shell'')) s4) (\<lambda>(t, s5).
         Ret (case t of Enter_user e \<Rightarrow> Irq_user e | _ \<Rightarrow> Irq_return, s5)))"

definition show_terminal :: "nat \<Rightarrow> terminal \<Rightarrow> 'a kernel_scheme \<Rightarrow> irq_exit \<times> 'a kernel_scheme" where
  "show_terminal term term_new s =
     (let s1 = video_mapping (sint (program_id term_new)) s;
          s2 = set_cursor (term_x term_new) (term_y term_new) s1;
          s3 = (send_eoi 1 s2)\<lparr>cr3 := term_cr3 term_new\<rparr>;
          s4 = s3\<lparr>mem := memcpy (mem s3) VIDEO (term_buffer (int term)) 0x1000\<rparr>;
          s5 = s4\<lparr>tss_esp0 := kernel_stack (program_id (terminals s4 ! term)), tss_ss0 := KERNEL_DS\<rparr>
      in (Irq_switch (term_ebp term_new) (term_esp term_new), s5))"

definition terminal_switch :: "'a env \<Rightarrow> int \<Rightarrow> 'a kernel_scheme \<Rightarrow> (irq_exit \<times> 'a kernel_scheme) outcome" where
  "terminal_switch env term s =
     (if term < 0 \<or> term > 2 \<or> int (old_terminal s) = term then Ret (Irq_return, s)
      else obind (save_terminal (old_terminal s) s) (\<lambda>s1.
           let s2 = clear (s1\<lparr>old_terminal := nat term\<rparr>);
               term_new = terminals s2 ! nat term
           in if active term_new = 0 then new_terminal env (nat term) s2
              else Ret (show_terminal (nat term) term_new s2)))"

text \<open>The key without modifier role, lines 323 to 388: control-L, or a character to type.\<close>

definition key_action :: "(u8 \<Rightarrow> u8) \<Rightarrow> u8 \<Rightarrow> u8 \<Rightarrow> 'a kernel_scheme \<Rightarrow> 'a kernel_scheme outcome" where
  "key_action past_shift scancode toPrint s =
     (if ctrl s then Ret (if scancode = 0x26 then pressed_clear s else s)
      else if scancode \<noteq> 0x3A
      then let shifted = table_byte kbdus_shift past_shift scancode;
               (c, s1) = (if 97 \<le> toPrint \<and> toPrint \<le> 122
                          then (if capslock s \<and> shift s then toPrint
                                else if capslock s \<or> shift s then shifted else toPrint, s)
                          else if toPrint = 8 \<and> scancode = 0x0E then (0, backspace_pressed s)
                          else (if shift s then shifted else toPrint, s))
           in if scancode AND 0x80 = 0 \<and> c \<noteq> 0 then key_typed c s1 else Ret s1
      else Ret s)"

text \<open>Lines 272 to 279: the terminal shown becomes active, and a full line gets room for a newline.\<close>

definition key_ready :: "u8 \<Rightarrow> 'a kernel_scheme \<Rightarrow> 'a kernel_scheme" where
  "key_ready c s =
     (let s1 = update_terminal (old_terminal s) (\<lambda>t. t\<lparr>active := 1\<rparr>) s
      in if buffer_i (shown s1) = NUM_CHARS \<and> c = 10
         then update_terminal (old_terminal s1) (\<lambda>t. t\<lparr>line_buffer := (line_buffer t)[buffer_i t - 1 := c],
                buffer_i := buffer_i t - 1\<rparr>) s1
         else s1)"

text \<open>Lines 288 to 388: the other modifiers, alt with a function key, or a key to act on.\<close>

definition key_dispatch :: "'a env \<Rightarrow> (u8 \<Rightarrow> u8) \<Rightarrow> u8 \<Rightarrow> u8 \<Rightarrow> 'a kernel_scheme \<Rightarrow> (irq_exit \<times> 'a kernel_scheme) outcome" where
  "key_dispatch env past_shift scancode toPrint s =
     (if scancode = 0x2A \<or> scancode = 0x36 then Ret (Irq_return, s\<lparr>shift := True\<rparr>)
      else if scancode = 0xAA \<or> scancode = 0xB6 then Ret (Irq_return, s\<lparr>shift := False\<rparr>)
      else if scancode = 0x1D then Ret (Irq_return, s\<lparr>ctrl := True\<rparr>)
      else if scancode = 0x9D then Ret (Irq_return, s\<lparr>ctrl := False\<rparr>)
      else if scancode = 0xBA then Ret (Irq_return, s\<lparr>capslock := \<not> capslock s\<rparr>)
      else if alt s \<and> scancode = 0xBB then terminal_switch env 0 s
      else if alt s \<and> scancode = 0xBC then terminal_switch env 1 s
      else if alt s \<and> scancode = 0xBD then terminal_switch env 2 s
      else obind (key_action past_shift scancode toPrint s) (\<lambda>s1. Ret (Irq_return, s1)))"

definition terminal_key_pressed :: "'a env \<Rightarrow> (u8 \<Rightarrow> u8) \<Rightarrow> (u8 \<Rightarrow> u8) \<Rightarrow> u8 \<Rightarrow> 'a kernel_scheme \<Rightarrow> (irq_exit \<times> 'a kernel_scheme) outcome" where
  "terminal_key_pressed env past past_shift scancode s =
     (let toPrint = table_byte kbdus past scancode;
          s1 = key_ready toPrint s;
          s2 = (if scancode = 0x38 then s1\<lparr>alt := True\<rparr> else s1);
          s3 = (if scancode = 0xB8 then s2\<lparr>alt := False\<rparr> else s2)
      in key_dispatch env past_shift scancode toPrint s3)"

section \<open>Interrupt handlers\<close>

definition irq0 :: "'a kernel_scheme \<Rightarrow> (irq_exit \<times> 'a kernel_scheme) outcome" where
  "irq0 s = obind (switch_task s) (\<lambda>(l, s1).
     Ret (case l of Return \<Rightarrow> Irq_return | Int_ret ebp esp \<Rightarrow> Irq_switch ebp esp, s1))"

definition irq1 :: "'a env \<Rightarrow> (u8 \<Rightarrow> u8) \<Rightarrow> (u8 \<Rightarrow> u8) \<Rightarrow> 'a kernel_scheme \<Rightarrow> (irq_exit \<times> 'a kernel_scheme) outcome" where
  "irq1 env past past_shift s =
     (let (scancode, s1) = inb (env_dev env) 0x60 s in terminal_key_pressed env past past_shift scancode s1)"

definition irq8 :: "'a env \<Rightarrow> 'a kernel_scheme \<Rightarrow> (irq_exit \<times> 'a kernel_scheme) outcome" where
  "irq8 env s = Ret (Irq_return, rtc_interrupt (env_dev env) s)"

definition irq_functions :: "'a env \<Rightarrow> (u8 \<Rightarrow> u8) \<Rightarrow> (u8 \<Rightarrow> u8) \<Rightarrow> ('a kernel_scheme \<Rightarrow> (irq_exit \<times> 'a kernel_scheme) outcome) option list" where
  "irq_functions env past past_shift =
     [Some irq0, Some (irq1 env past past_shift), None, None, None, None, None, None, Some (irq8 env),
      None, None, None, None, None, None, None]"

text \<open>The end of interrupt is sent when the handler comes back to \<open>irq_handler\<close>.\<close>

definition irq_handler :: "'a env \<Rightarrow> (u8 \<Rightarrow> u8) \<Rightarrow> (u8 \<Rightarrow> u8) \<Rightarrow> nat \<Rightarrow> 'a kernel_scheme \<Rightarrow> (irq_exit \<times> 'a kernel_scheme) outcome" where
  "irq_handler env past past_shift irq_num s =
     obind (buf_get (irq_functions env past past_shift) irq_num) (\<lambda>handler.
     obind (case handler of None \<Rightarrow> Ret (Irq_return, s) | Some f \<Rightarrow> f s) (\<lambda>(e, s1).
     Ret (e, if e = Irq_return then send_eoi (of_nat irq_num) s1 else s1)))"

section \<open>From scan codes to the line\<close>

text \<open>The modifiers, which no key but their own changes.\<close>

definition mods :: "'a kbd_scheme \<Rightarrow> bool \<times> bool \<times> bool \<times> bool" where
  "mods s = (shift s, ctrl s, capslock s, alt s)"

lemma console_step_mods:
  assumes "console_step s s'"
  shows "mods s' = mods s"
  using arg_cong[OF assms[unfolded console_step_def], of mods] by (simp add: mods_def)

interpretation mods_key: key_view mods
  by unfold_locales (simp_all add: console_step_mods, simp_all add: mods_def update_terminal_def)

text \<open>What a key means, by the state of shift and caps lock.\<close>

definition key_of :: "bool \<Rightarrow> bool \<Rightarrow> u8 \<Rightarrow> key option" where
  "key_of sh cp scancode =
     (let plain = kbdus ! unat scancode; shifted = kbdus_shift ! unat scancode;
          c = (if 97 \<le> plain \<and> plain \<le> 122 then if sh \<noteq> cp then shifted else plain else if sh then shifted else plain)
      in if scancode = 0x0E then Some Backspace else if c = 0 then None else Some (Char c))"

fun decode :: "bool \<Rightarrow> bool \<Rightarrow> u8 list \<Rightarrow> key list" where
  "decode sh cp [] = []"
| "decode sh cp (c # cs) =
     (if c = 0x2A \<or> c = 0x36 then decode True cp cs
      else if c = 0xAA \<or> c = 0xB6 then decode False cp cs
      else if c = 0xBA then decode sh (\<not> cp) cs
      else if 0x80 \<le> c \<or> c = 0x3A then decode sh cp cs
      else case key_of sh cp c of None \<Rightarrow> decode sh cp cs | Some k \<Rightarrow> k # decode sh cp cs)"

lemma length_kbdus [simp]: "length kbdus = 128" "length kbdus_shift = 128"
  by (simp_all add: kbdus_def kbdus_shift_def keys_def)

lemma nth_unique:
  assumes "c \<notin> set (take k xs)" "c \<notin> set (drop (Suc k) xs)" "k < length xs" "xs ! k = c" "i < length xs"
  shows "xs ! i = c \<longleftrightarrow> i = k"
proof (cases i k rule: linorder_cases)
  case less
  then have "xs ! i \<in> set (take k xs)" using nth_mem[of i "take k xs"] assms(3) by simp
  with assms(1) less show ?thesis by auto
next
  case greater
  then have "xs ! i \<in> set (drop (Suc k) xs)" using nth_mem[of "i - Suc k" "drop (Suc k) xs"] assms(5) by simp
  with assms(2) greater show ?thesis by auto
qed (use assms in auto)

lemma kbdus_special:
  "i < 128 \<Longrightarrow> kbdus ! i = 8 \<longleftrightarrow> i = 14" "i < 128 \<Longrightarrow> kbdus ! i = 10 \<longleftrightarrow> i = 28" "8 \<notin> set kbdus_shift" "10 \<notin> set kbdus_shift"
proof -
  have "8 \<notin> set (take 14 kbdus)" "8 \<notin> set (drop 15 kbdus)" "kbdus ! 14 = 8"
    "10 \<notin> set (take 28 kbdus)" "10 \<notin> set (drop 29 kbdus)" "kbdus ! 28 = 10"
    by (simp_all add: kbdus_def keys_def)
  then show "i < 128 \<Longrightarrow> kbdus ! i = 8 \<longleftrightarrow> i = 14" "i < 128 \<Longrightarrow> kbdus ! i = 10 \<longleftrightarrow> i = 28"
    using nth_unique[of 8 14 kbdus i] nth_unique[of 10 28 kbdus i] by simp_all
  show "8 \<notin> set kbdus_shift" "10 \<notin> set kbdus_shift" by (simp_all add: kbdus_shift_def keys_def)
qed

lemma key_irq_more:
  assumes "term_wf s" "k \<noteq> Char 8"
  shows "\<exists>s'. key_irq k s = Ret s' \<and> term_wf s' \<and> typed s' = edit (typed s) k \<and> old_terminal s' = old_terminal s \<and> mods s' = mods s"
  using key_irq_edit[OF assms] mods_key.view_key_irq by blast

lemma key_ready_line:
  assumes wf: "term_wf s"
  shows "term_wf (key_ready c s)" "old_terminal (key_ready c s) = old_terminal s" "mods (key_ready c s) = mods s"
    "typed (key_ready c s) = (if c = 10 then take 127 (typed s) else typed s)"
proof -
  let ?s1 = "update_terminal (old_terminal s) (\<lambda>t. t\<lparr>active := 1\<rparr>) s"
  note w = shown_wf[OF wf]
  have o: "old_terminal ?s1 = old_terminal s" "mods ?s1 = mods s" by (simp_all add: update_terminal_def mods_def)
  have wf1: "term_wf ?s1" by (rule term_wf_update[OF wf]) (use w in auto)
  have t1: "typed ?s1 = typed s" "shown ?s1 = (shown s)\<lparr>active := 1\<rparr>" by (simp_all add: typed_def shown_update[OF wf])
  note w1 = shown_wf[OF wf1]
  let ?f = "\<lambda>t. t\<lparr>line_buffer := (line_buffer t)[buffer_i t - 1 := c], buffer_i := buffer_i t - 1\<rparr>"
  have wf2: "term_wf (update_terminal (old_terminal ?s1) ?f ?s1)"
    by (rule term_wf_update[OF wf1]) (use w1 in auto)
  show "term_wf (key_ready c s)" using wf1 wf2 by (auto simp: key_ready_def Let_def)
  show "old_terminal (key_ready c s) = old_terminal s" "mods (key_ready c s) = mods s"
    using o by (simp_all add: key_ready_def Let_def mods_def update_terminal_def)
  show "typed (key_ready c s) = (if c = 10 then take 127 (typed s) else typed s)"
  proof (cases "buffer_i (shown s) = NUM_CHARS")
    case True
    with w t1 shown_update[OF wf1, of ?f] show ?thesis by (auto simp: key_ready_def Let_def typed_def)
  next
    case False
    with w have "buffer_i (shown s) \<le> 127" by linarith
    with False t1 show ?thesis by (simp add: key_ready_def Let_def typed_def min_absorb2)
  qed
qed

fun mods_after :: "bool \<Rightarrow> bool \<Rightarrow> u8 list \<Rightarrow> bool \<times> bool" where
  "mods_after sh cp [] = (sh, cp)"
| "mods_after sh cp (c # cs) =
     (if c = 0x2A \<or> c = 0x36 then mods_after True cp cs
      else if c = 0xAA \<or> c = 0xB6 then mods_after False cp cs
      else if c = 0xBA then mods_after sh (\<not> cp) cs else mods_after sh cp cs)"

lemma unat_u8_eq: "c = 14 \<longleftrightarrow> unat c = 14" "c = 28 \<longleftrightarrow> unat c = 28" for c :: u8
  using word_unat_eq_iff[of c 14] word_unat_eq_iff[of c 28] by simp_all

lemma key_of_cases:
  assumes "unat c < 128" "c \<noteq> 0x1C"
  shows "key_of sh cp c \<noteq> Some (Char 8)" "key_of sh cp c \<noteq> Some (Char 10)"
proof -
  have "kbdus_shift ! unat c \<in> set kbdus_shift" using assms(1) by (intro nth_mem) simp
  then have "kbdus_shift ! unat c \<noteq> 8" "kbdus_shift ! unat c \<noteq> 10" using kbdus_special(3,4) by metis+
  then show "key_of sh cp c \<noteq> Some (Char 8)" "key_of sh cp c \<noteq> Some (Char 10)"
    using kbdus_special(1,2)[OF assms(1)] assms(2) by (auto simp: key_of_def Let_def unat_u8_eq)
qed

lemma high_bit: "c AND 0x80 = 0 \<longleftrightarrow> unat c < 128" for c :: u8
proof -
  have "c AND 0x80 = 0 \<longleftrightarrow> \<not> bit c 7" using and_exp_eq_0_iff_not_bit[of c 7] by simp
  also have "bit c 7 \<longleftrightarrow> odd (unat c div 128)"
    using bit_unsigned_iff[of c 7, where 'a = nat] by (simp add: bit_iff_odd[of "unat c"])
  also have "\<dots> \<longleftrightarrow> 128 \<le> unat c" using unsigned_less[of c, where 'a = nat]
    by (cases "unat c < 128") (simp_all add: le_div_geq)
  finally show ?thesis by (simp add: not_le)
qed

lemma alt_off: "\<not> alt s \<Longrightarrow> s\<lparr>alt := False\<rparr> = s"
  by (cases s) simp

lemma mods_updates [simp]:
  "term_wf (s\<lparr>shift := b\<rparr>) = term_wf s" "typed (s\<lparr>shift := b\<rparr>) = typed s"
  "term_wf (s\<lparr>capslock := b\<rparr>) = term_wf s" "typed (s\<lparr>capslock := b\<rparr>) = typed s"
  "term_wf (s\<lparr>ctrl := b\<rparr>) = term_wf s" "typed (s\<lparr>ctrl := b\<rparr>) = typed s"
  by (simp_all add: term_wf_def typed_def shown_def)

text \<open>A scan code below 128 that is no modifier types the key it stands for.\<close>

lemma key_action_key:
  assumes low: "unat c < 128" and caps: "c \<noteq> 0x3A" and ctrl: "\<not> ctrl s"
  shows "key_action past_shift c (kbdus ! unat c) s =
    (case key_of (shift s) (capslock s) c of None \<Rightarrow> Ret s | Some k \<Rightarrow> key_irq k s)"
proof (cases "c = 0x0E")
  case True
  have "kbdus ! 14 = 8" using kbdus_special(1)[of 14] by simp
  with True ctrl show ?thesis by (simp add: key_action_def key_of_def Let_def)
next
  case False
  then have "kbdus ! unat c \<noteq> 8" using kbdus_special(1)[OF low] by (simp add: unat_u8_eq)
  with False low caps ctrl show ?thesis
    by (simp add: key_action_def key_of_def Let_def table_byte_def high_bit)
qed

lemma key_pressed_dispatch:
  assumes "c \<noteq> 0x38" "\<not> alt (key_ready (table_byte kbdus past c) s)"
  shows "terminal_key_pressed env past past_shift c s =
    key_dispatch env past_shift c (table_byte kbdus past c) (key_ready (table_byte kbdus past c) s)"
  using assms(1) alt_off[OF assms(2)] unfolding terminal_key_pressed_def Let_def by (simp only: if_False if_cancel)

lemma key_dispatch_plain:
  assumes wf: "term_wf s" and md: "mods s = (sh, False, cp, False)" and c: "c \<notin> {0x1C, 0x1D, 0x38}"
    and p: "unat c < 128 \<longrightarrow> p = kbdus ! unat c"
  shows "\<exists>s'. key_dispatch env past_shift c p s = Ret (Irq_return, s') \<and> term_wf s' \<and>
    old_terminal s' = old_terminal s \<and> typed s' = foldl edit (typed s) (decode sh cp [c]) \<and>
    mods s' = (fst (mods_after sh cp [c]), False, snd (mods_after sh cp [c]), False)"
proof -
  have m: "shift s = sh" "\<not> ctrl s" "capslock s = cp" "\<not> alt s" using md by (auto simp: mods_def)
  consider "c = 0x2A \<or> c = 0x36 \<or> c = 0xAA \<or> c = 0xB6 \<or> c = 0xBA \<or> c = 0x9D"
    | "c \<noteq> 0x2A" "c \<noteq> 0x36" "c \<noteq> 0xAA" "c \<noteq> 0xB6" "c \<noteq> 0xBA" "c \<noteq> 0x9D" by blast
  then show ?thesis
  proof cases
    case 1
    then show ?thesis using wf m by (elim disjE) (simp_all add: key_dispatch_def mods_def)
  next
    case 2
    then have k: "key_dispatch env past_shift c p s = obind (key_action past_shift c p s) (\<lambda>s1. Ret (Irq_return, s1))"
      using c m(4) by (simp add: key_dispatch_def)
    have dec: "decode sh cp [c] = (if unat c < 128 \<and> c \<noteq> 0x3A then case key_of sh cp c of None \<Rightarrow> [] | Some k \<Rightarrow> [k] else [])"
      "mods_after sh cp [c] = (sh, cp)"
      using 2 by (simp_all add: word_le_nat_alt not_less split: option.split)
    show ?thesis
    proof (cases "unat c < 128 \<and> c \<noteq> 0x3A")
      case False
      then have "key_action past_shift c p s = Ret s"
        using m(2) high_bit[of c] by (auto simp: key_action_def Let_def)
      with k dec False wf md show ?thesis by simp
    next
      case True
      then have a: "key_action past_shift c p s = (case key_of sh cp c of None \<Rightarrow> Ret s | Some k \<Rightarrow> key_irq k s)"
        using key_action_key[of c s past_shift] m p by simp
      show ?thesis
      proof (cases "key_of sh cp c")
        case None
        with a k dec True wf md show ?thesis by simp
      next
        case (Some ky)
        then have "ky \<noteq> Char 8" using key_of_cases(1)[of c sh cp] True c by auto
        from key_irq_more[OF wf this] Some a k dec True md show ?thesis by auto
      qed
    qed
  qed
qed

lemma key_pressed_plain:
  assumes wf: "term_wf s" and md: "mods s = (sh, False, cp, False)" and c: "c \<notin> {0x1C, 0x1D, 0x38}"
    and past: "128 \<le> unat c \<longrightarrow> past c \<noteq> 10"
  shows "\<exists>s'. terminal_key_pressed env past past_shift c s = Ret (Irq_return, s') \<and> term_wf s' \<and>
    old_terminal s' = old_terminal s \<and> typed s' = foldl edit (typed s) (decode sh cp [c]) \<and>
    mods s' = (fst (mods_after sh cp [c]), False, snd (mods_after sh cp [c]), False)"
proof -
  let ?p = "table_byte kbdus past c"
  have "?p \<noteq> 10" using c past kbdus_special(2)[of "unat c"] by (auto simp: table_byte_def unat_u8_eq)
  then have s: "term_wf (key_ready ?p s)" "old_terminal (key_ready ?p s) = old_terminal s"
      "mods (key_ready ?p s) = (sh, False, cp, False)" "typed (key_ready ?p s) = typed s"
    using key_ready_line[OF wf, of ?p] md by simp_all
  then have "terminal_key_pressed env past past_shift c s = key_dispatch env past_shift c ?p (key_ready ?p s)"
    using c by (intro key_pressed_dispatch) (auto simp: mods_def)
  with key_dispatch_plain[OF s(1,3) c, of ?p env past_shift] s show ?thesis by (simp add: table_byte_def)
qed

text \<open>Enter without shift ends the line, in its last place when the line is full.\<close>

lemma key_pressed_enter:
  assumes wf: "term_wf s" and md: "mods s = (False, False, cp, False)"
  shows "\<exists>s'. terminal_key_pressed env past past_shift 0x1C s = Ret (Irq_return, s') \<and> term_wf s' \<and>
    old_terminal s' = old_terminal s \<and> typed s' = take 127 (typed s) @ [10]"
proof -
  have p: "table_byte kbdus past 0x1C = 10" using kbdus_special(2)[of 28] by (simp add: table_byte_def)
  let ?s = "key_ready 10 s"
  have s: "term_wf ?s" "old_terminal ?s = old_terminal s" "mods ?s = (False, False, cp, False)" "typed ?s = take 127 (typed s)"
    using key_ready_line[OF wf, of 10] md by simp_all
  have "key_of False cp 0x1C = Some (Char 10)" using kbdus_special(2)[of 28] by (simp add: key_of_def)
  then have "key_action past_shift 0x1C 10 ?s = key_irq (Char 10) ?s"
    using key_action_key[of "0x1C" ?s past_shift] s(3) kbdus_special(2)[of 28] by (simp add: mods_def)
  moreover obtain s' where "key_irq (Char 10) ?s = Ret s'" "term_wf s'" "typed s' = edit (typed ?s) (Char 10)"
      "old_terminal s' = old_terminal ?s"
    using key_irq_edit[OF s(1), of "Char 10"] by auto
  moreover have "terminal_key_pressed env past past_shift 0x1C s = key_dispatch env past_shift 0x1C 10 ?s"
    using key_pressed_dispatch[of "0x1C" past s env past_shift] s(3) p by (simp add: mods_def)
  ultimately show ?thesis using s by (simp add: key_dispatch_def mods_def)
qed

section \<open>What a scan code leaves alone\<close>

locale line_view = key_view view for view :: "'a kernel_scheme \<Rightarrow> 'v" +
  assumes view_mods: "view (s\<lparr>shift := b\<rparr>) = view s" "view (s\<lparr>ctrl := b\<rparr>) = view s" "view (s\<lparr>capslock := b\<rparr>) = view s"
    "view (s\<lparr>alt := b\<rparr>) = view s"
begin

lemma view_pressed_clear: "view (pressed_clear s) = view s"
proof -
  have "console_step s (set_cursor 0 0 (clear s))"
    using console_step_trans[OF console_step_ops(4) console_step_ops(2)] by blast
  then show ?thesis using view_console by (simp add: pressed_clear_def Let_def view_terminal)
qed

lemma view_key_ready: "view (key_ready c s) = view s"
  by (simp add: key_ready_def Let_def view_terminal)

lemma view_key_action: "key_action past_shift c p s = Ret s' \<Longrightarrow> view s' = view s"
  by (auto simp: key_action_def Let_def view_pressed_clear view_backspace split: if_splits dest!: view_key_typed)

lemma view_key_dispatch: "\<not> alt s \<Longrightarrow> key_dispatch env past_shift c p s = Ret (e, s') \<Longrightarrow> view s' = view s"
  by (auto simp: key_dispatch_def view_mods outcome_simps split: if_splits dest!: view_key_action)

lemma view_key_pressed:
  assumes "\<not> alt s" "c \<noteq> 0x38" "terminal_key_pressed env past past_shift c s = Ret (e, s')"
  shows "view s' = view s"
proof -
  have "\<not> alt (key_ready p s)" for p using assms(1) by (simp add: key_ready_def Let_def update_terminal_def)
  then show ?thesis
    using assms key_pressed_dispatch[OF assms(2)] view_key_dispatch view_key_ready by metis
qed

end

text \<open>
  In particular the programs: the page directory in use, the directories and tables, their control blocks, their terminals and the terminal shown.
\<close>

definition prog_view :: "'a kernel_scheme \<Rightarrow> pdir \<times> (nat \<Rightarrow> nat \<Rightarrow> u32) \<times> (nat \<Rightarrow> nat \<Rightarrow> u32) \<times> (nat \<Rightarrow> pcb) \<times> u32 list \<times> nat" where
  "prog_view s = (cr3 s, page_directories s, page1_tables s, pcbs s, map program_id (terminals s), old_terminal s)"

lemma prog_view_console:
  assumes "console_step s s'"
  shows "prog_view s' = prog_view s"
  using arg_cong[OF assms[unfolded console_step_def], of prog_view] by (simp add: prog_view_def)

lemma prog_view_terminal: "(\<And>t. program_id (f t) = program_id t) \<Longrightarrow> prog_view (update_terminal k f s) = prog_view s"
  by (simp add: prog_view_def update_terminal_def map_update) (metis length_map list_update_id map_update nth_map list_update_beyond not_le)

interpretation prog_line: line_view prog_view
  by unfold_locales (simp_all add: prog_view_console prog_view_terminal, simp_all add: prog_view_def)

text \<open>A keyboard interrupt while a program waits, for a key that does not leave the terminal.\<close>

definition key_interrupt :: "'a env \<Rightarrow> (u8 \<Rightarrow> u8) \<Rightarrow> (u8 \<Rightarrow> u8) \<Rightarrow> u8 \<Rightarrow> 'a kernel_scheme \<Rightarrow> 'a kernel_scheme outcome" where
  "key_interrupt env past past_shift scancode s =
     obind (terminal_key_pressed env past past_shift scancode s) (\<lambda>(e, s1). if e = Irq_return then Ret s1 else Undef)"

text \<open>A scan code that changes neither the line's end nor control nor alt.\<close>

definition line_code :: "(u8 \<Rightarrow> u8) \<Rightarrow> u8 \<Rightarrow> bool" where
  "line_code past c \<longleftrightarrow> c \<notin> {0x1C, 0x1D, 0x38} \<and> (128 \<le> unat c \<longrightarrow> past c \<noteq> 10)"

lemma decode_Cons: "decode sh cp (c # cs) = decode sh cp [c] @ decode (fst (mods_after sh cp [c])) (snd (mods_after sh cp [c])) cs"
  by (simp split: option.split)

lemma mods_after_Cons: "mods_after sh cp (c # cs) = mods_after (fst (mods_after sh cp [c])) (snd (mods_after sh cp [c])) cs"
  by simp

declare decode.simps(2) [simp del] mods_after.simps(2) [simp del]

lemma decode_plain:
  assumes "c \<noteq> 0x1C" "k \<in> set (decode sh cp [c])"
  shows "plain_key k"
proof -
  have "unat c < 128" "key_of sh cp c = Some k"
    using assms(2) by (auto simp: decode.simps(2) word_le_nat_alt not_le split: if_splits option.splits)
  with key_of_cases[OF _ assms(1), of sh cp] show ?thesis
    by (cases k) (auto simp: plain_key_def)
qed

lemma edits_no_newline: "\<forall>k\<in>set ks. plain_key k \<Longrightarrow> 10 \<notin> set l \<Longrightarrow> 10 \<notin> set (foldl edit l ks)"
  by (induction ks arbitrary: l) (simp_all add: edit_no_newline)

lemma not_line_ready: "term_wf s \<Longrightarrow> 10 \<notin> set (typed s) \<Longrightarrow> \<not> line_ready (old_terminal s) s"
  using line_ready_shown last_in_set by metis

lemma wait_line_scancodes:
  assumes "term_wf s" "mods s = (sh, False, cp, False)" "10 \<notin> set (typed s)" "\<forall>c\<in>set scs. line_code past c"
    and "\<not> fst (mods_after sh cp scs)"
  shows "\<exists>s'. wait_line (map (key_interrupt env past past_shift) (scs @ [0x1C])) (old_terminal s) s = Ret (Some s') \<and>
    term_wf s' \<and> typed s' = take 127 (foldl edit (typed s) (decode sh cp scs)) @ [10] \<and> old_terminal s' = old_terminal s \<and>
    prog_view s' = prog_view s"
  using assms
proof (induction scs arbitrary: s sh cp)
  case Nil
  then obtain s' where s': "terminal_key_pressed env past past_shift 0x1C s = Ret (Irq_return, s')" "term_wf s'"
      "old_terminal s' = old_terminal s" "typed s' = take 127 (typed s) @ [10]"
    using key_pressed_enter[of s cp env past past_shift] by auto
  moreover have "line_ready (old_terminal s) s'" using line_ready_shown[of s'] s' by simp
  moreover have "prog_view s' = prog_view s" using prog_line.view_key_pressed[OF _ _ s'(1)] Nil.prems(2) by (simp add: mods_def)
  ultimately show ?case using not_line_ready[OF Nil.prems(1,3)] by (simp add: key_interrupt_def)
next
  case (Cons c scs)
  have c: "c \<notin> {0x1C, 0x1D, 0x38}" "128 \<le> unat c \<longrightarrow> past c \<noteq> 10" using Cons.prems(4) by (auto simp: line_code_def)
  obtain s1 where s1: "terminal_key_pressed env past past_shift c s = Ret (Irq_return, s1)" "term_wf s1"
      "old_terminal s1 = old_terminal s" "typed s1 = foldl edit (typed s) (decode sh cp [c])"
      "mods s1 = (fst (mods_after sh cp [c]), False, snd (mods_after sh cp [c]), False)"
    using key_pressed_plain[OF Cons.prems(1,2) c(1), of past] c(2) by blast
  have "10 \<notin> set (typed s1)" unfolding s1(4)
    using c(1) Cons.prems(3) decode_plain by (intro edits_no_newline) blast+
  from this obtain s' where "wait_line (map (key_interrupt env past past_shift) (scs @ [0x1C])) (old_terminal s1) s1 = Ret (Some s')"
      "term_wf s'" "old_terminal s' = old_terminal s1" "prog_view s' = prog_view s1" "typed s' = take 127 (foldl edit (typed s1)
        (decode (fst (mods_after sh cp [c])) (snd (mods_after sh cp [c])) scs)) @ [10]"
    using Cons.IH[OF s1(2,5)] Cons.prems(4,5) mods_after_Cons[of sh cp c scs] by auto
  moreover have "key_interrupt env past past_shift c s = Ret s1" using s1(1) by (simp add: key_interrupt_def)
  moreover have "prog_view s1 = prog_view s" using prog_line.view_key_pressed[OF _ _ s1(1)] Cons.prems(2) c(1) by (simp add: mods_def)
  ultimately show ?case using s1 not_line_ready[OF Cons.prems(1,3)]
    by (auto simp: decode_Cons[of sh cp c scs])
qed

section \<open>Switching terminals\<close>

lemma far_apart:
  assumes "n \<le> unat (b - a)" "unat (b - a) + n \<le> 2 ^ 32" "i < n"
  shows "\<not> in_range a n (b + of_nat i)"
proof -
  have "unat (of_nat i :: u32) = i" using assms by (intro unat_of_nat32) linarith
  then have "unat ((b - a) + of_nat i) = unat (b - a) + i"
    using assms by (simp add: unat_word_ariths)
  then show ?thesis using assms(1) by (simp add: in_range_def algebra_simps)
qed

lemma buffers_apart:
  assumes "a < 3" "b < 3" "a \<noteq> b" "i < 4096"
  shows "\<not> in_range (term_buffer (int a)) 4096 (term_buffer (int b) + of_nat i)"
proof -
  have "a = 0 \<or> a = 1 \<or> a = 2" "b = 0 \<or> b = 1 \<or> b = 2" using assms by linarith+
  then show ?thesis using assms(3,4) by (intro far_apart) (auto simp: term_buffer_def)
qed

lemma buffer_off_screen: "a < 3 \<Longrightarrow> i < 4096 \<Longrightarrow> n \<le> 4096 \<Longrightarrow> \<not> in_range VIDEO n (term_buffer (int a) + of_nat i)"
  using far_apart[of 4096 "term_buffer (int a)" VIDEO i] by (auto simp: term_buffer_def in_range_def)

lemma save_restore_copy:
  "memcpy m (term_buffer a) VIDEO 0x1000 = blit m (term_buffer a) VIDEO 4096"
  "memcpy m VIDEO (term_buffer a) 0x1000 = blit m VIDEO (term_buffer a) 4096"
  by (simp_all add: memcpy_eq_blit upward_ok_def term_buffer_def)

lemma blit_bytes_outside: "(\<And>i. i < k \<Longrightarrow> \<not> in_range d n (a + of_nat i)) \<Longrightarrow> mem_bytes (blit m d s n) a k = mem_bytes m a k"
  by (simp add: mem_bytes_def blit_outside)

lemma clear_bytes_outside: "(\<And>i. i < k \<Longrightarrow> \<not> in_range VIDEO 4000 (a + of_nat i)) \<Longrightarrow> mem_bytes (mem (clear s)) a k = mem_bytes (mem s) a k"
  by (simp add: mem_bytes_def clear_screen(3))

text \<open>What \<open>save_terminal\<close> records of the program and the cursor.\<close>

definition snapshot :: "'a kernel_scheme \<Rightarrow> u32 \<Rightarrow> terminal \<Rightarrow> terminal" where
  "snapshot s pid t = t\<lparr>term_cr3 := cr3 s, term_esp := esp_0 s, term_ebp := ebp_0 s, kernel_esp := tss_esp0 s,
     program_id := pid, term_x := screen_x s, term_y := screen_y s\<rparr>"

lemma find_programid_range: "find_programid s = Ret pid \<Longrightarrow> cr3 s = Page_directory (nat pid) \<and> 0 \<le> pid \<and> pid \<le> 6"
  by (auto simp: find_programid_def split: pdir.splits if_splits)

lemma update_terminal_fields:
  "find_programid (update_terminal k f s) = find_programid s" "mem (update_terminal k f s) = mem s"
  "terminals (update_terminal k f s) = (terminals s)[k := f (terminals s ! k)]" "old_terminal (update_terminal k f s) = old_terminal s"
  "screen_x (update_terminal k f s) = screen_x s" "screen_y (update_terminal k f s) = screen_y s"
  "page1_tables (update_terminal k f s) = page1_tables s"
  by (simp_all add: update_terminal_def find_programid_def)

lemma mapping_fields:
  "mem (video_mapping p s) = mem s" "mem (non_video_mapping p k s) = mem s"
  "terminals (video_mapping p s) = terminals s" "terminals (non_video_mapping p k s) = terminals s"
  "old_terminal (video_mapping p s) = old_terminal s" "old_terminal (non_video_mapping p k s) = old_terminal s"
  by (simp_all add: video_mapping_def non_video_mapping_def set_video_entry_def)

lemma save_terminal_saves:
  assumes "find_programid s = Ret pid" "length (terminals s) = 3" "term < 3"
  shows "\<exists>s'. save_terminal term s = Ret s' \<and> mem s' = blit (mem s) (term_buffer (int term)) VIDEO 4096 \<and>
    terminals s' = (terminals s)[term := snapshot s (word_of_int pid) (terminals s ! term)] \<and>
    old_terminal s' = old_terminal s"
  using assms by (simp add: save_terminal_def Let_def save_restore_copy update_terminal_fields mapping_fields snapshot_def
    get_cursor_x_def get_cursor_y_def)

lemma show_terminal_fields:
  "fst (show_terminal b t s) = Irq_switch (term_ebp t) (term_esp t)"
  "mem (snd (show_terminal b t s)) = blit (mem s) VIDEO (term_buffer (int b)) 4096"
  "screen_x (snd (show_terminal b t s)) = term_x t" "screen_y (snd (show_terminal b t s)) = term_y t"
  "cr3 (snd (show_terminal b t s)) = term_cr3 t" "terminals (snd (show_terminal b t s)) = terminals s"
  "old_terminal (snd (show_terminal b t s)) = old_terminal s"
  "tss_esp0 (snd (show_terminal b t s)) = kernel_stack (program_id (terminals s ! b))"
proof -
  have c: "terminals (set_cursor x y u) = terminals u" "old_terminal (set_cursor x y u) = old_terminal u" for x y and u :: "'a kernel_scheme"
    using console_step_terminals[OF console_step_ops(2), of x y u] by simp_all
  have e: "terminals (send_eoi n u) = terminals u" "old_terminal (send_eoi n u) = old_terminal u" "mem (send_eoi n u) = mem u"
    "screen_x (send_eoi n u) = screen_x u" "screen_y (send_eoi n u) = screen_y u" for n and u :: "'a kernel_scheme"
    by (simp_all add: send_eoi_def outb_def)
  show "fst (show_terminal b t s) = Irq_switch (term_ebp t) (term_esp t)"
    "mem (snd (show_terminal b t s)) = blit (mem s) VIDEO (term_buffer (int b)) 4096"
    "screen_x (snd (show_terminal b t s)) = term_x t" "screen_y (snd (show_terminal b t s)) = term_y t"
    "cr3 (snd (show_terminal b t s)) = term_cr3 t" "terminals (snd (show_terminal b t s)) = terminals s"
    "old_terminal (snd (show_terminal b t s)) = old_terminal s"
    "tss_esp0 (snd (show_terminal b t s)) = kernel_stack (program_id (terminals s ! b))"
    by (simp_all add: show_terminal_def Let_def save_restore_copy mapping_fields c e)
qed

text \<open>
  What \<open>terminal_switch\<close> to a terminal that has been used does: the screen, the cursor, the page
  directory and the stack pointers come from that terminal.
\<close>

lemma terminal_switch_shows:
  assumes pid: "find_programid s = Ret pid" and len: "length (terminals s) = 3"
    and o: "old_terminal s < 3" "b < 3" "b \<noteq> old_terminal s" and act: "active (terminals s ! b) \<noteq> 0"
  defines "t \<equiv> terminals s ! b"
  shows "\<exists>s'. terminal_switch env (int b) s = Ret (Irq_switch (term_ebp t) (term_esp t), s') \<and>
    mem_bytes (mem s') VIDEO 4096 = mem_bytes (mem s) (term_buffer (int b)) 4096 \<and>
    mem_bytes (mem s') (term_buffer (int (old_terminal s))) 4096 = mem_bytes (mem s) VIDEO 4096 \<and>
    screen_x s' = term_x t \<and> screen_y s' = term_y t \<and> cr3 s' = term_cr3 t \<and> tss_esp0 s' = kernel_stack (program_id t) \<and>
    terminals s' = (terminals s)[old_terminal s := snapshot s (word_of_int pid) (terminals s ! old_terminal s)] \<and>
    old_terminal s' = b"
proof -
  obtain s1 where s1: "save_terminal (old_terminal s) s = Ret s1"
      "mem s1 = blit (mem s) (term_buffer (int (old_terminal s))) VIDEO 4096"
      "terminals s1 = (terminals s)[old_terminal s := snapshot s (word_of_int pid) (terminals s ! old_terminal s)]"
      "old_terminal s1 = old_terminal s"
    using save_terminal_saves[OF pid len o(1)] by blast
  let ?s2 = "clear (s1\<lparr>old_terminal := b\<rparr>)"
  have t2: "terminals ?s2 = terminals s1" "old_terminal ?s2 = b"
    using console_step_terminals[OF console_step_ops(4), of "s1\<lparr>old_terminal := b\<rparr>"] by simp_all
  then have tb: "terminals ?s2 ! b = t" using s1(3) o by (simp add: t_def)
  let ?r = "show_terminal b t ?s2"
  have m: "mem (snd ?r) = blit (mem ?s2) VIDEO (term_buffer (int b)) 4096"
    by (rule show_terminal_fields)
  have buf: "mem_bytes (mem ?s2) (term_buffer (int k)) 4096 = mem_bytes (mem s1) (term_buffer (int k)) 4096" if "k < 3" for k
    using that buffer_off_screen by (simp add: clear_bytes_outside)
  have "mem_bytes (mem (snd ?r)) VIDEO 4096 = mem_bytes (mem s) (term_buffer (int b)) 4096"
    using m buf[OF o(2)] s1(2) o buffers_apart[of "old_terminal s" b] by (simp add: blit_mem_bytes blit_bytes_outside)
  moreover have "mem_bytes (mem (snd ?r)) (term_buffer (int (old_terminal s))) 4096 = mem_bytes (mem s) VIDEO 4096"
    using m buf[OF o(1)] s1(2) buffer_off_screen[OF o(1)] by (simp add: blit_mem_bytes blit_bytes_outside)
  moreover have "terminal_switch env (int b) s = Ret ?r"
    using o s1(1) tb act by (simp add: terminal_switch_def t_def Let_def)
  then have "terminal_switch env (int b) s = Ret (Irq_switch (term_ebp t) (term_esp t), snd ?r)"
    using show_terminal_fields(1)[of b t ?s2] by (metis prod.collapse)
  ultimately show ?thesis using t2 tb s1(3)
    by (intro exI[of _ "snd ?r"]) (simp add: show_terminal_fields)
qed

text \<open>Reading a line that the scan codes spell.\<close>

lemma terminal_read_codes:
  assumes "term_wf s" "find_programid s = Ret pid" "find_terminal pid s = int (old_terminal s)"
    and md: "mods s = (sh, False, cp, False)"
    and scs: "\<forall>c\<in>set scs. line_code past c" "\<not> fst (mods_after sh cp scs)" and buf: "NUM_CHARS < length buf"
    and line: "line = take 127 (foldl edit [] (decode sh cp scs)) @ [10]"
  shows "\<exists>s'. terminal_read (map (key_interrupt env past past_shift) (scs @ [0x1C])) buf s =
    Ret (Some (int (length line), line @ 0 # drop (Suc (length line)) buf, s')) \<and> typed s' = [] \<and> term_wf s' \<and> prog_view s' = prog_view s"
proof -
  let ?s = "update_terminal (old_terminal s) (\<lambda>t. t\<lparr>buffer_i := 0\<rparr>) s"
  have wf: "term_wf ?s" by (rule term_wf_update[OF assms(1)]) (use shown_wf[OF assms(1)] in auto)
  have e: "typed ?s = []" by (simp add: typed_def shown_update[OF assms(1)])
  have o: "old_terminal ?s = old_terminal s" "mods ?s = (sh, False, cp, False)" "prog_view ?s = prog_view s"
    using md prog_view_terminal[of "\<lambda>t. t\<lparr>buffer_i := 0\<rparr>"] by (auto simp: update_terminal_def mods_def)
  obtain s1 where s1: "wait_line (map (key_interrupt env past past_shift) (scs @ [0x1C])) (old_terminal ?s) ?s = Ret (Some s1)"
      "term_wf s1" "typed s1 = line" "prog_view s1 = prog_view ?s"
    using wait_line_scancodes[OF wf o(2) _ scs] e line by auto
  have len: "length (typed s1) < length buf" using s1(3) buf by (simp add: line)
  obtain s' where s': "keyboard_read buf s1 = Ret (int (length line), line @ 0 # drop (Suc (length line)) buf, s')" "typed s' = []" "term_wf s'"
    using keyboard_read_line[OF s1(2) len] s1(3) by auto
  have "prog_view s' = prog_view s1"
    using s'(1) prog_view_console[OF console_step_ops(6), of "get_cursor_y s1" "get_cursor_x s1" s1]
    by (auto simp: keyboard_read_def Let_def outcome_simps prog_view_terminal split: if_splits)
  with s' s1 assms(2,3) o show ?thesis by (auto simp: terminal_read_def)
qed

section \<open>Properties\<close>

text \<open>
  C6: \<open>terminal_read\<close> of a program on the terminal shown returns the line that the scan codes arriving
  after the call spell, when neither control nor alt is held at the start or pressed in the course of the line and the codes end with the
  first press of Enter, at which shift is not held. They are read with shift and caps lock as the user presses and releases them:
  characters are appended, up to 128 of them, backspace takes the last one back, other codes add nothing, and the Enter ends the line, in
  place of the last character when the line is full; the result has a NUL behind it and the line buffer is
  empty again. For the releases of keys this holds as long as the byte behind the key table that is read for them is not a newline. Lines with
  control, alt or shift and Enter pressed are not covered.
\<close>

theorem terminal_read_scancodes:
  assumes "term_wf s" "find_programid s = Ret pid" "find_terminal pid s = int (old_terminal s)"
    and "shift s = sh" "\<not> ctrl s" "capslock s = cp" "\<not> alt s"
    and "\<forall>c\<in>set scs. line_code past c" "\<not> fst (mods_after sh cp scs)" "NUM_CHARS < length buf"
    and "line = take 127 (foldl edit [] (decode sh cp scs)) @ [10]"
  shows "\<exists>s'. terminal_read (map (key_interrupt env past past_shift) (scs @ [0x1C])) buf s =
    Ret (Some (int (length line), line @ 0 # drop (Suc (length line)) buf, s')) \<and> typed s' = []"
  using terminal_read_codes[OF assms(1-3) _ assms(8-11)] assms(4-7) by (fastforce simp: mods_def)

lemma kbdus_hi: "kbdus ! 0x23 = 104" "kbdus_shift ! 0x23 = 72" "kbdus ! 0x17 = 105" "kbdus_shift ! 0x17 = 73"
  by (simp_all add: kbdus_def kbdus_shift_def keys_def)

lemma decode_hi:
  "decode False False [0x2A, 0x23, 0xA3, 0xAA, 0x23, 0x0E, 0x17, 0x97] = [Char 72, Char 104, Backspace, Char 105]"
  by (simp add: decode.simps(2) key_of_def kbdus_hi)

lemma demo_kernel_kbd:
  "term_wf demo_kernel" "find_programid demo_kernel = Ret 1" "find_terminal 1 demo_kernel = 0" "old_terminal demo_kernel = 0"
  "mods demo_kernel = (False, False, False, False)"
  by (simp_all add: demo_kernel_def kbd.defs term_wf_def find_programid_def find_terminal_def mods_def upt_rec demo_terminal_def
    demo_kbd_def demo_sched_def sched.defs paging.defs demo_paging_def rtc.defs demo_rtc_def pic.defs demo_pic_def fs.defs demo_fs_def)

theorem terminal_read_scancodes_witness:
  "\<exists>s'. terminal_read (map (key_interrupt demo_env (\<lambda>_. 0) (\<lambda>_. 0)) [0x2A, 0x23, 0xA3, 0xAA, 0x23, 0x0E, 0x17, 0x97, 0x1C])
     (replicate 129 1) demo_kernel = Ret (Some (3, [72, 105, 10, 0] @ replicate 125 1, s')) \<and> typed s' = []"
proof -
  have "\<forall>c\<in>set [0x2A, 0x23, 0xA3, 0xAA, 0x23, 0x0E, 0x17, 0x97]. line_code (\<lambda>_. 0) c" by (simp add: line_code_def)
  moreover have "\<not> fst (mods_after False False [0x2A, 0x23, 0xA3, 0xAA, 0x23, 0x0E, 0x17, 0x97])"
    by (simp add: mods_after.simps(2))
  moreover have "shift demo_kernel = False" "\<not> ctrl demo_kernel" "capslock demo_kernel = False" "\<not> alt demo_kernel"
    using demo_kernel_kbd(5) by (simp_all add: mods_def)
  ultimately show ?thesis
    using terminal_read_scancodes[OF demo_kernel_kbd(1,2), of False False "[0x2A, 0x23, 0xA3, 0xAA, 0x23, 0x0E, 0x17, 0x97]" "\<lambda>_. 0"
      "replicate 129 1" "[72, 105, 10]" demo_env "\<lambda>_. 0"]
    unfolding decode_hi by (simp add: demo_kernel_kbd)
qed

text \<open>
  C10: switching from a terminal to another one that is in use and, later, back shows the old terminal
  as it was: all 4096 bytes of video memory, the cursor, the page directory, and the stack frame of the
  interrupt that left it, whatever happened in between, as long as the terminal's record and its
  buffer were left alone. Memory is addressed physically; the switch relies on video memory staying
  reachable at its address until \<open>cr3\<close> is loaded.
\<close>

theorem terminal_switch_back:
  assumes "find_programid s = Ret pid" "length (terminals s) = 3" "old_terminal s = a" "a < 3" "b < 3" "b \<noteq> a"
    and "active (terminals s ! a) \<noteq> 0" "active (terminals s ! b) \<noteq> 0"
    and sw: "terminal_switch env (int b) s = Ret (e, s1)"
    and "old_terminal s2 = b" "length (terminals s2) = 3" "find_programid s2 = Ret q"
    and "terminals s2 ! a = terminals s1 ! a" "mem_bytes (mem s2) (term_buffer (int a)) 4096 = mem_bytes (mem s1) (term_buffer (int a)) 4096"
  shows "e = Irq_switch (term_ebp (terminals s ! b)) (term_esp (terminals s ! b)) \<and>
    (\<exists>s3. terminal_switch env (int a) s2 = Ret (Irq_switch (ebp_0 s) (esp_0 s), s3) \<and>
       mem_bytes (mem s3) VIDEO 4096 = mem_bytes (mem s) VIDEO 4096 \<and>
       screen_x s3 = screen_x s \<and> screen_y s3 = screen_y s \<and> cr3 s3 = cr3 s \<and> old_terminal s3 = a \<and>
       tss_esp0 s3 = kernel_stack (word_of_int pid))"
proof -
  have out: "e = Irq_switch (term_ebp (terminals s ! b)) (term_esp (terminals s ! b))"
    "mem_bytes (mem s1) (term_buffer (int a)) 4096 = mem_bytes (mem s) VIDEO 4096"
    "terminals s1 ! a = snapshot s (word_of_int pid) (terminals s ! a)"
    using terminal_switch_shows[of s pid b env] assms(1-8) sw by auto
  moreover have "active (terminals s2 ! a) \<noteq> 0" using out(3) assms(7,13) by (simp add: snapshot_def)
  ultimately show ?thesis
    using terminal_switch_shows[of s2 q a env] assms(4-6,10-14) by (auto simp: snapshot_def)
qed

definition demo_two :: kernel where
  "demo_two = demo_kernel\<lparr>terminals := [(terminals demo_kernel ! 0)\<lparr>active := 1\<rparr>,
     (terminals demo_kernel ! 1)\<lparr>active := 1, program_id := 2, term_cr3 := Page_directory 2\<rparr>, terminals demo_kernel ! 2]\<rparr>"

lemma demo_two_simps:
  "find_programid demo_two = Ret 1" "old_terminal demo_two = 0" "length (terminals demo_two) = 3"
  "active (terminals demo_two ! 0) \<noteq> 0" "active (terminals demo_two ! 1) \<noteq> 0" "term_cr3 (terminals demo_two ! 1) = Page_directory 2"
  using demo_kernel_kbd by (simp_all add: demo_two_def find_programid_def)

text \<open>Between the two switches the second terminal's program writes an A into the corner of the screen.\<close>

theorem terminal_switch_back_witness:
  "\<exists>e s1 s3. terminal_switch demo_env 1 demo_two = Ret (e, s1) \<and>
     terminal_switch demo_env 0 (s1\<lparr>mem := (mem s1)(VIDEO := 65)\<rparr>) = Ret (Irq_switch (ebp_0 demo_two) (esp_0 demo_two), s3) \<and>
     mem_bytes (mem s3) VIDEO 4096 = mem_bytes (mem demo_two) VIDEO 4096 \<and> cr3 s3 = Page_directory 1"
proof -
  obtain e s1 where s1: "terminal_switch demo_env 1 demo_two = Ret (e, s1)" "cr3 s1 = Page_directory 2" "old_terminal s1 = 1"
      "length (terminals s1) = 3"
    using terminal_switch_shows[of demo_two 1 1 demo_env] demo_two_simps by auto
  let ?s2 = "s1\<lparr>mem := (mem s1)(VIDEO := 65)\<rparr>"
  have "term_buffer 0 + of_nat i \<noteq> VIDEO" if "i < 4096" for i
    using buffer_off_screen[of 0 i 1] that by (auto simp: in_range_def)
  then have "mem_bytes (mem ?s2) (term_buffer 0) 4096 = mem_bytes (mem s1) (term_buffer 0) 4096" by (simp add: mem_bytes_def)
  moreover have "find_programid ?s2 = Ret 2" using s1(2) by (simp add: find_programid_def)
  moreover have "cr3 demo_two = Page_directory 1" by (simp add: demo_two_def)
  ultimately show ?thesis
    using terminal_switch_back[of demo_two 1 0 1 demo_env e s1 ?s2 2] demo_two_simps s1 by auto
qed

text \<open>
  \<open>irq_handler\<close> acknowledges the interrupt exactly when the handler comes back: it sends the
  end-of-interrupt command of the line to the controllers, last, and nothing when the handler left for
  another terminal or for a new program. Lines without a handler are only acknowledged, and a line
  number beyond the table of 16 is undefined.
\<close>

lemma irq_handler_acknowledges:
  "irq_handler env past past_shift irq_num s =
     (if irq_num \<in> {0, 1, 8}
      then obind (if irq_num = 0 then irq0 s else if irq_num = 1 then irq1 env past past_shift s else irq8 env s)
        (\<lambda>(e, s1). Ret (e, if e = Irq_return then send_eoi (of_nat irq_num) s1 else s1))
      else if irq_num < 16 then Ret (Irq_return, send_eoi (of_nat irq_num) s) else Undef)"
proof (cases "irq_num < 16")
  case False
  then show ?thesis by (simp add: irq_handler_def irq_functions_def buf_get_def)
next
  case True
  then have "irq_num \<in> set [0..<16]" by simp
  then consider "irq_num \<in> {0, 1, 8}" | "irq_num \<in> {2, 3, 4, 5, 6, 7, 9, 10, 11, 12, 13, 14, 15}"
    by (auto simp: upt_rec)
  then show ?thesis by cases (auto simp: irq_handler_def irq_functions_def buf_get_def)
qed

end
