(* ===== verification/Idt.thy ===== *)
theory Idt
  imports Keyboard
begin

text \<open>
  The interrupt descriptor table and the exception handlers of \<open>idt.c\<close>, the descriptor types of
  \<open>x86_desc.h\<close>, and the entry code of \<open>idt_linkage.S\<close> up to the C functions it calls. The addresses of
  the entry points are chosen by the linker: a parameter \<open>addr\<close>. An exception handler prints a message and
  spins; its definition gives the state in which it spins.
\<close>

section \<open>Exception handlers\<close>

definition exception_screen :: "string \<Rightarrow> 'a console_scheme \<Rightarrow> 'a console_scheme outcome" where
  "exception_screen message s = obind (printf (lit message) [] (clear s)) (\<lambda>r. Ret (snd r))"

definition divide_by_zero :: "'a console_scheme \<Rightarrow> 'a console_scheme outcome" where
  "divide_by_zero = exception_screen ''divide by zero exception\<newline>''"

definition debug :: "'a console_scheme \<Rightarrow> 'a console_scheme outcome" where
  "debug = exception_screen '' debug exceptiond\<newline>''"

definition nmi :: "'a console_scheme \<Rightarrow> 'a console_scheme outcome" where
  "nmi = exception_screen ''non-maskable interrupt\<newline>''"

definition breakpoint :: "'a console_scheme \<Rightarrow> 'a console_scheme outcome" where
  "breakpoint = exception_screen ''breakpoint exception\<newline>''"

definition overflow :: "'a console_scheme \<Rightarrow> 'a console_scheme outcome" where
  "overflow = exception_screen ''overflow exception\<newline>''"

definition bound_range :: "'a console_scheme \<Rightarrow> 'a console_scheme outcome" where
  "bound_range = exception_screen ''bound range exception\<newline>''"

definition invalid_op :: "'a console_scheme \<Rightarrow> 'a console_scheme outcome" where
  "invalid_op = exception_screen ''invalid opcode exception\<newline>''"

definition device_na :: "'a console_scheme \<Rightarrow> 'a console_scheme outcome" where
  "device_na = exception_screen ''device not avaliable exception\<newline>''"

definition double_fault :: "'a console_scheme \<Rightarrow> 'a console_scheme outcome" where
  "double_fault = exception_screen ''double fault exception\<newline>''"

definition coprocessor_seg_overrun :: "'a console_scheme \<Rightarrow> 'a console_scheme outcome" where
  "coprocessor_seg_overrun = exception_screen ''coprocessor segmentation overrun exception\<newline>''"

definition invalid_tss :: "'a console_scheme \<Rightarrow> 'a console_scheme outcome" where
  "invalid_tss = exception_screen ''invalid task state segment exception\<newline>''"

definition seg_not_present :: "'a console_scheme \<Rightarrow> 'a console_scheme outcome" where
  "seg_not_present = exception_screen ''segment not present exception\<newline>''"

definition stack_seg_fault :: "'a console_scheme \<Rightarrow> 'a console_scheme outcome" where
  "stack_seg_fault = exception_screen ''stack segmentation fault \<newline>''"

definition general_protection :: "'a console_scheme \<Rightarrow> 'a console_scheme outcome" where
  "general_protection = exception_screen ''general protection fault\<newline>''"

text \<open>A page fault also prints the address that was accessed, from \<open>cr2\<close>.\<close>

definition page_fault :: "u32 \<Rightarrow> 'a console_scheme \<Rightarrow> 'a console_scheme outcome" where
  "page_fault cr2 s =
     obind (printf (lit ''page fault \<newline>'') [] (clear s)) (\<lambda>r1.
     obind (printf (lit ''addr:%x\<newline>'') [Val cr2] (snd r1)) (\<lambda>r2. Ret (snd r2)))"

definition reserved :: "'a console_scheme \<Rightarrow> 'a console_scheme outcome" where
  "reserved = exception_screen ''reserved exception \<newline>''"

definition math_fault :: "'a console_scheme \<Rightarrow> 'a console_scheme outcome" where
  "math_fault = exception_screen ''math fault\<newline>''"

definition alignment_check :: "'a console_scheme \<Rightarrow> 'a console_scheme outcome" where
  "alignment_check = exception_screen ''alignment check\<newline>''"

definition machine_check :: "'a console_scheme \<Rightarrow> 'a console_scheme outcome" where
  "machine_check = exception_screen ''machine check\<newline>''"

definition floating_point :: "'a console_scheme \<Rightarrow> 'a console_scheme outcome" where
  "floating_point = exception_screen ''floating point excecption\<newline>''"

section \<open>The descriptor table\<close>

record idt_desc =
  offset_15_00 :: u16
  seg_selector :: u16
  reserved4 :: u8
  reserved3 :: "1 word"
  reserved2 :: "1 word"
  reserved1 :: "1 word"
  gate_size :: "1 word"
  reserved0 :: "1 word"
  dpl :: "2 word"
  present :: "1 word"
  offset_31_16 :: u16

definition SET_IDT_ENTRY :: "idt_desc \<Rightarrow> u32 \<Rightarrow> idt_desc" where
  "SET_IDT_ENTRY str handler =
     str\<lparr>offset_31_16 := ucast (drop_bit 16 (handler AND 0xFFFF0000)), offset_15_00 := ucast (handler AND 0xFFFF)\<rparr>"

abbreviation "KERNEL_CS \<equiv> (0x10 :: u16)"

datatype linkage =
    Exception_linkage nat
  | Irq_wrapper nat
  | Syscall_wrapper

text \<open>The entries that are given a handler, in the order of the code.\<close>

definition idt_handlers :: "(nat \<times> linkage) list" where
  "idt_handlers = map (\<lambda>i. (i, Exception_linkage i)) [0..<20] @
     [(32, Irq_wrapper 0), (33, Irq_wrapper 1), (40, Irq_wrapper 8), (0x80, Syscall_wrapper)]"

text \<open>
  \<open>exception\<close> is a local variable whose offset fields are not assigned: they hold what \<open>junk\<close> holds.
\<close>

definition exception_gate :: "idt_desc \<Rightarrow> idt_desc" where
  "exception_gate junk = junk\<lparr>seg_selector := KERNEL_CS, reserved4 := 0, reserved3 := 0, reserved2 := 1, reserved1 := 1,
     gate_size := 1, reserved0 := 0, dpl := 0, present := 1\<rparr>"

definition idt_initialize :: "(linkage \<Rightarrow> u32) \<Rightarrow> idt_desc \<Rightarrow> idt_desc list \<Rightarrow> idt_desc list" where
  "idt_initialize addr junk idt =
     (let interrupt = exception_gate junk;
          syscall = interrupt\<lparr>dpl := 3, reserved3 := 1\<rparr>;
          idt1 = fold (\<lambda>i t. t[i := exception_gate junk]) [0..<32] idt;
          idt2 = fold (\<lambda>i t. t[i := interrupt]) [32..<41] idt1;
          idt3 = idt2[0x80 := syscall]
      in fold (\<lambda>(i, l) t. t[i := SET_IDT_ENTRY (t ! i) (addr l)]) idt_handlers idt3)"

section \<open>Entry code\<close>

text \<open>What each linkage calls; \<open>cr2\<close> is the register the page fault handler reads.\<close>

definition exception_handler :: "u32 \<Rightarrow> nat \<Rightarrow> 'a console_scheme \<Rightarrow> 'a console_scheme outcome" where
  "exception_handler cr2 n =
     [divide_by_zero, debug, nmi, breakpoint, overflow, bound_range, invalid_op, device_na, double_fault,
      coprocessor_seg_overrun, invalid_tss, seg_not_present, stack_seg_fault, general_protection, page_fault cr2,
      reserved, math_fault, alignment_check, machine_check, floating_point] ! n"

text \<open>Only the keyboard's wrapper stores the stack pointers for a switch.\<close>

definition irq0_wrapper :: "'a env \<Rightarrow> (u8 \<Rightarrow> u8) \<Rightarrow> (u8 \<Rightarrow> u8) \<Rightarrow> 'a kernel_scheme \<Rightarrow> (irq_exit \<times> 'a kernel_scheme) outcome" where
  "irq0_wrapper env past past_shift s = irq_handler env past past_shift 0 s"

definition irq1_wrapper :: "'a env \<Rightarrow> (u8 \<Rightarrow> u8) \<Rightarrow> (u8 \<Rightarrow> u8) \<Rightarrow> u32 \<Rightarrow> u32 \<Rightarrow> 'a kernel_scheme \<Rightarrow> (irq_exit \<times> 'a kernel_scheme) outcome" where
  "irq1_wrapper env past past_shift esp ebp s = irq_handler env past past_shift 1 (s\<lparr>esp_0 := esp, ebp_0 := ebp\<rparr>)"

definition irq8_wrapper :: "'a env \<Rightarrow> (u8 \<Rightarrow> u8) \<Rightarrow> (u8 \<Rightarrow> u8) \<Rightarrow> 'a kernel_scheme \<Rightarrow> (irq_exit \<times> 'a kernel_scheme) outcome" where
  "irq8_wrapper env past past_shift s = irq_handler env past past_shift 8 s"

text \<open>
  The system call entry: \<open>eax\<close> selects the call, \<open>ebx\<close>, \<open>ecx\<close> and \<open>edx\<close> are its arguments. \<open>ptr\<close> gives the
  bytes behind a pointer of the program, \<open>None\<close> for the null pointer. A call returns a value and a buffer, waits
  forever, or passes control to another program.
\<close>

datatype call_exit = Returned int "u8 list option" | Waiting | Transferred transfer

definition returned :: "u8 list option \<Rightarrow> (int \<times> 's) outcome \<Rightarrow> (call_exit \<times> 's) outcome" where
  "returned buf r = obind r (\<lambda>(v, s). Ret (Returned v buf, s))"

definition transferred :: "(transfer \<times> 's) outcome \<Rightarrow> (call_exit \<times> 's) outcome" where
  "transferred r = obind r (\<lambda>(t, s). Ret (if t = Return_error then Returned (-1) None else Transferred t, s))"

definition syscall_array :: "'a env \<Rightarrow> (u32 \<Rightarrow> u8 list option) \<Rightarrow> u32 \<Rightarrow> u32 \<Rightarrow> u32 \<Rightarrow> ('a kernel_scheme \<Rightarrow> (call_exit \<times> 'a kernel_scheme) outcome) list" where
  "syscall_array env ptr ebx ecx edx =
     [\<lambda>s. Undef,
      \<lambda>s. transferred (halt (ucast ebx) s),
      \<lambda>s. transferred (execute env (ptr ebx) s),
      \<lambda>s. obind (read_call env (sint ebx) (ptr ecx) edx s) (\<lambda>r.
            case r of None \<Rightarrow> Ret (Waiting, s) | Some (v, buf, s1) \<Rightarrow> Ret (Returned v buf, s1)),
      \<lambda>s. returned (ptr ecx) (write_call env (sint ebx) (ptr ecx) (sint edx) s),
      \<lambda>s. case ptr ebx of None \<Rightarrow> Undef | Some name \<Rightarrow> returned None (open_call env name s),
      \<lambda>s. returned None (close_call (sint ebx) s),
      \<lambda>s. case ptr ebx of None \<Rightarrow> Undef | Some buf \<Rightarrow> obind (getargs buf (sint ecx) s) (\<lambda>(v, b). Ret (Returned v (Some b), s)),
      \<lambda>s. returned None (vidmap env ebx s)]"

definition syscall_wrapper :: "'a env \<Rightarrow> (u32 \<Rightarrow> u8 list option) \<Rightarrow> u32 \<Rightarrow> u32 \<Rightarrow> u32 \<Rightarrow> u32 \<Rightarrow> 'a kernel_scheme \<Rightarrow> (call_exit \<times> 'a kernel_scheme) outcome" where
  "syscall_wrapper env ptr eax ebx ecx edx s =
     (if sint eax < 1 \<or> sint eax > 8 then Ret (Returned (-1) None, s)
      else (syscall_array env ptr ebx ecx edx ! nat (sint eax)) s)"

section \<open>What the processor finds in the table\<close>

text \<open>
  The processor takes the handler's address from the two offset fields, and refuses a gate that is not
  present; an \<open>int\<close> instruction in user mode is refused unless the gate's privilege level is 3.
\<close>

definition gate_offset :: "idt_desc \<Rightarrow> u32" where
  "gate_offset d = push_bit 16 (ucast (offset_31_16 d)) OR ucast (offset_15_00 d)"

definition deliver :: "bool \<Rightarrow> idt_desc list \<Rightarrow> nat \<Rightarrow> u32 option" where
  "deliver user_int idt n =
     (let d = idt ! n in if present d = 0 \<or> user_int \<and> dpl d \<noteq> 3 then None else Some (gate_offset d))"

lemma bit_low16: "bit (0xFFFF :: int) n \<longleftrightarrow> n < 16"
proof -
  have "(0xFFFF :: int) = mask 16" by (simp add: mask_eq_exp_minus_1)
  then show ?thesis by (simp only: bit_mask_iff) simp
qed

lemma gate_offset_set: "gate_offset (SET_IDT_ENTRY d h) = h"
  by (rule bit_word_eqI)
    (auto simp: gate_offset_def SET_IDT_ENTRY_def bit_or_iff bit_push_bit_iff bit_unsigned_iff bit_drop_bit_eq bit_and_iff
      bit_low16)

lemma gate_fields [simp]:
  "present (SET_IDT_ENTRY d h) = present d" "dpl (SET_IDT_ENTRY d h) = dpl d" "reserved3 (SET_IDT_ENTRY d h) = reserved3 d"
  "seg_selector (SET_IDT_ENTRY d h) = seg_selector d" "present (exception_gate d) = 1" "dpl (exception_gate d) = 0"
  "reserved3 (exception_gate d) = 0" "seg_selector (exception_gate d) = KERNEL_CS"
  by (simp_all add: SET_IDT_ENTRY_def exception_gate_def)

lemma fold_range_length [simp]: "length (fold (\<lambda>i t. t[i := c]) is t) = length t"
  by (induction "is" arbitrary: t) simp_all

lemma fold_range_nth:
  "k < length t \<Longrightarrow> fold (\<lambda>i t. t[i := c]) is t ! k = (if k \<in> set is then c else t ! k)"
  by (induction "is" arbitrary: t) (auto simp: nth_list_update)

lemma fold_entries_nth:
  assumes "distinct (map fst es)" "k < length t"
  shows "fold (\<lambda>(i, l) t. t[i := f (t ! i) l]) es t ! k = (case map_of es k of None \<Rightarrow> t ! k | Some l \<Rightarrow> f (t ! k) l)"
  using assms
proof (induction es arbitrary: t)
  case (Cons e es)
  obtain i l where e: "e = (i, l)" by (cases e)
  have "map_of es i = None" using Cons.prems(1) e by (simp add: map_of_eq_None_iff)
  with Cons e show ?case by (auto simp: nth_list_update split: option.split)
qed auto

lemma idt_handlers_distinct: "distinct (map fst idt_handlers)"
  by (simp add: idt_handlers_def upt_rec)

text \<open>The handlers by vector.\<close>

definition vector_linkage :: "nat \<Rightarrow> linkage option" where
  "vector_linkage n =
     (if n < 20 then Some (Exception_linkage n) else if n \<in> {32, 33, 40} then Some (Irq_wrapper (n - 32))
      else if n = 0x80 then Some Syscall_wrapper else None)"

lemma map_of_handlers: "map_of idt_handlers n = vector_linkage n"
proof -
  have "map_of (map (\<lambda>i. (i, Exception_linkage i)) [0..<20]) n = (if n < 20 then Some (Exception_linkage n) else None)"
    by (simp only: map_of_map_restrict) (simp add: restrict_map_def)
  then show ?thesis by (auto simp only: idt_handlers_def map_of_append map_add_def) (auto simp: vector_linkage_def)
qed

lemma idt_initialize_nth:
  fixes junk :: idt_desc
  assumes "length idt = 256" "n < 256"
  defines "g \<equiv> if n = 0x80 then (exception_gate junk)\<lparr>dpl := 3, reserved3 := 1\<rparr>
    else if n < 41 then exception_gate junk else idt ! n"
  shows "idt_initialize addr junk idt ! n = (case vector_linkage n of None \<Rightarrow> g | Some l \<Rightarrow> SET_IDT_ENTRY g (addr l))"
proof -
  let ?t = "(fold (\<lambda>i t. t[i := exception_gate junk]) [32..<41] (fold (\<lambda>i t. t[i := exception_gate junk]) [0..<32] idt))
      [0x80 := (exception_gate junk)\<lparr>dpl := 3, reserved3 := 1\<rparr>]"
  have len: "n < length ?t" using assms(1,2) by (simp only: length_list_update fold_range_length)
  have "set [32..<41] = {32..<41::nat}" "set [0..<32] = {0..<32::nat}" by (rule set_upt)+
  then have g: "?t ! n = g"
    using assms(1,2) by (simp only: nth_list_update fold_range_nth fold_range_length) (auto simp: g_def)
  show ?thesis
    unfolding idt_initialize_def Let_def fold_entries_nth[OF idt_handlers_distinct len, where f = "\<lambda>d l. SET_IDT_ENTRY d (addr l)"] g map_of_handlers by (rule refl)
qed

section \<open>What an exception shows\<close>

lemma lookup_not_newline: "d < 36 \<Longrightarrow> \<not> is_newline (lookup ! d)"
proof -
  assume "d < 36"
  moreover have "\<forall>c\<in>set (take 36 lookup). \<not> is_newline c" "36 \<le> length lookup"
    by (simp_all add: lookup_def lit_def is_newline_def)
  ultimately show ?thesis by (metis in_set_conv_nth length_take min.absorb2 nth_take)
qed

lemma denotes_no_newline: "denotes 16 t v \<Longrightarrow> \<forall>c\<in>set t. \<not> is_newline c"
  by (force simp: denotes_def lookup_not_newline)

lemma printf_addr:
  "\<exists>n t. printf (lit ''addr:%x\<newline>'') [Val v] s = Ret (n, putc 10 (fold putc (map of_char ''addr:'' @ t) s)) \<and>
     length t \<le> 8 \<and> denotes 16 t (unat v)"
proof -
  have "unat v < 16 ^ 8" using unat_lt32[of v] by simp
  then obtain t where "print_unsigned v 16 64 (fold putc (map of_char ''addr:'') s) = Ret (fold putc t (fold putc (map of_char ''addr:'') s))"
      "length t \<le> 8" "denotes 16 t (unat v)"
    using print_unsigned_digits[of 16 v 8 64 "fold putc (map of_char ''addr:'') s"] by auto
  then show ?thesis by (simp add: printf_def lit_def next_val_def) blast
qed

lemma fold_putc_cursor:
  assumes "on_screen s" "screen_x s + int (length t) < NUM_COLS" "\<forall>c\<in>set t. \<not> is_newline c"
  shows "screen_x (fold putc t s) = screen_x s + int (length t) \<and> screen_y (fold putc t s) = screen_y s"
  using assms
proof (induction t arbitrary: s)
  case (Cons c t)
  have "on_screen (putc c s)" "screen_x (putc c s) = screen_x s + 1" "screen_y (putc c s) = screen_y s"
    using Cons.prems putc_on_screen[of c s] putc_cursor[of c s] by auto
  with Cons.IH[of "putc c s"] Cons.prems show ?case by auto
qed simp

text \<open>The screen with a text at a cell, all else blank.\<close>

definition overlay :: "u8 list \<Rightarrow> nat \<Rightarrow> u8 list \<Rightarrow> u8 list" where
  "overlay cells k t = take k cells @ t @ drop (k + length t) cells"

section \<open>Properties\<close>

text \<open>The table as \<open>x86_desc.S\<close> reserves it.\<close>

definition blank_idt :: "idt_desc list" where
  "blank_idt = replicate 256 (idt_desc.make 0 0 0 0 0 0 0 0 0 0 0)"

text \<open>
  After \<open>idt_initialize\<close> the processor finds the linkage of exception \<open>n\<close> at vector \<open>n\<close> for the 20
  exceptions, the timer, keyboard and clock wrappers at 32, 33 and 40, and the system call wrapper at 0x80,
  at whatever addresses the linker put them; interrupts stay disabled in all of them but the system call, and the
  vectors from 41 on, 0x80 apart, are not present. Vectors 20 to 31 and 34 to 39 are left out: they are marked present
  with an offset that was never set.
\<close>

lemma idt_delivers:
  assumes "n < 256" "n \<notin> {20..31} \<union> {34..39}"
  shows "deliver False (idt_initialize addr junk blank_idt) n = map_option addr (vector_linkage n) \<and>
    (vector_linkage n \<noteq> None \<longrightarrow> (reserved3 (idt_initialize addr junk blank_idt ! n) = 0 \<longleftrightarrow> n \<noteq> 0x80) \<and>
       seg_selector (idt_initialize addr junk blank_idt ! n) = KERNEL_CS)"
proof -
  have "length blank_idt = 256" by (simp add: blank_idt_def)
  note i = idt_initialize_nth[OF this assms(1), of addr junk]
  show ?thesis
  proof (cases "vector_linkage n")
    case None
    then have "41 \<le> n" "n \<noteq> 0x80" using assms by (auto simp: vector_linkage_def split: if_splits)
    with None i assms(1) show ?thesis by (simp add: deliver_def blank_idt_def idt_desc.defs)
  next
    case (Some l)
    then have "n < 41 \<or> n = 0x80" by (auto simp: vector_linkage_def split: if_splits)
    with Some i show ?thesis
      by (auto simp: deliver_def gate_offset_set)
  qed
qed

lemma idt_delivers_keyboard:
  "deliver False (idt_initialize (\<lambda>l. if l = Irq_wrapper 1 then 0x401234 else 0) (idt_desc.make 7 0 0 0 0 0 0 0 0 0 9) blank_idt) 33
     = Some 0x401234"
  using idt_delivers[of 33 "\<lambda>l. if l = Irq_wrapper 1 then 0x401234 else 0" "idt_desc.make 7 0 0 0 0 0 0 0 0 0 9"]
  by (simp add: vector_linkage_def)

text \<open>
  C31: a program in user mode can raise no vector with an \<open>int\<close> instruction but 0x80, which enters the system call wrapper;
  the processor refuses every other gate.
\<close>

theorem idt_user_gate:
  assumes "n < 256"
  shows "deliver True (idt_initialize addr junk blank_idt) n = (if n = 0x80 then Some (addr Syscall_wrapper) else None)"
proof -
  have "length blank_idt = 256" by (simp add: blank_idt_def)
  note i = idt_initialize_nth[OF this assms, of addr junk]
  show ?thesis
  proof (cases "n = 0x80")
    case True
    with i show ?thesis by (simp add: deliver_def vector_linkage_def gate_offset_set)
  next
    case False
    with i assms have "dpl (idt_initialize addr junk blank_idt ! n) = 0"
      by (auto simp: blank_idt_def idt_desc.defs split: option.split)
    with False show ?thesis by (simp add: deliver_def)
  qed
qed

theorem idt_user_gate_witness:
  "deliver True (idt_initialize (\<lambda>_. 0x401234) (idt_desc.make 7 0 0 0 0 0 0 0 0 0 9) blank_idt) 0x80 = Some 0x401234 \<and>
   deliver True (idt_initialize (\<lambda>_. 0x401234) (idt_desc.make 7 0 0 0 0 0 0 0 0 0 9) blank_idt) 14 = None"
  using idt_user_gate[of "0x80" "\<lambda>_. 0x401234" "idt_desc.make 7 0 0 0 0 0 0 0 0 0 9"]
    idt_user_gate[of 14 "\<lambda>_. 0x401234" "idt_desc.make 7 0 0 0 0 0 0 0 0 0 9"] by simp

text \<open>
  A page fault leaves the screen blank but for its message at the cursor and, at the start of the row below,
  the address of the access in hexadecimal, as long as the cursor is on a row above the last and leaves room for
  the message.
\<close>

lemma page_fault_shows:
  assumes "on_screen s" "screen_x s + 11 < NUM_COLS" "screen_y s + 1 < NUM_ROWS"
  shows "\<exists>s' t. page_fault cr2 s = Ret s' \<and> denotes 16 t (unat cr2) \<and>
    chars (mem s') = overlay (overlay (replicate 2000 SPACE) (cursor_cell s) (map of_char ''page fault ''))
      (nat (NUM_COLS * (screen_y s + 1))) (map of_char ''addr:'' @ t)"
proof -
  let ?m = "map of_char ''page fault '' :: u8 list" and ?a = "map of_char ''addr:'' :: u8 list"
  have c: "screen_x (clear s) = screen_x s" "screen_y (clear s) = screen_y s" by (simp_all add: clear_def)
  then have on: "on_screen (clear s)" "cursor_cell (clear s) = cursor_cell s" using assms(1) by (simp_all add: on_screen_def cursor_cell_def)
  have nl: "\<forall>c\<in>set ?m. \<not> is_newline c" "\<forall>c\<in>set ?a. \<not> is_newline c" by (simp_all add: is_newline_def)
  let ?s1 = "putc 10 (fold putc ?m (clear s))"
  have cur: "screen_x ?s1 = 0" "screen_y ?s1 = screen_y s + 1" "mem ?s1 = mem (fold putc ?m (clear s))"
    using putc_newline[of 10 "fold putc ?m (clear s)"] fold_putc_cursor[OF on(1) _ nl(1)] assms(2) c by (simp_all add: is_newline_def)
  then have on1: "on_screen ?s1" "cursor_cell ?s1 = nat (NUM_COLS * (screen_y s + 1))"
    using assms by (simp_all add: on_screen_def cursor_cell_def)
  have m1: "chars (mem ?s1) = overlay (replicate 2000 SPACE) (cursor_cell s) ?m"
    using fold_putc_row[OF on(1) _ nl(1)] assms(2) c on(2) cur(3) by (simp add: overlay_def clear_screen(1))
  obtain n t where t: "printf (lit ''addr:%x\<newline>'') [Val cr2] ?s1 = Ret (n, putc 10 (fold putc (?a @ t) ?s1))"
      "length t \<le> 8" "denotes 16 t (unat cr2)"
    using printf_addr[of cr2 ?s1] by blast
  have "chars (mem (fold putc (?a @ t) ?s1)) = overlay (chars (mem ?s1)) (nat (NUM_COLS * (screen_y s + 1))) (?a @ t)"
    using fold_putc_row[OF on1(1), of "?a @ t"] nl(2) denotes_no_newline[OF t(3)] t(2) cur(1) on1(2) by (auto simp: overlay_def)
  moreover have "page_fault cr2 s = Ret (putc 10 (fold putc (?a @ t) ?s1))"
  proof -
    have "printf (lit ''page fault \<newline>'') [] (clear s) = Ret (12, ?s1)"
      using printf_plain[of "lit ''page fault \<newline>''" "[]" "clear s"] by (simp add: terminated_def lit_def cstr_def)
    then show ?thesis by (simp only: page_fault_def obind.simps snd_conv t(1))
  qed
  ultimately show ?thesis
    using t(3) m1 putc_newline(1)[of 10 "fold putc (?a @ t) ?s1"] by (intro exI[of _ t] exI) (auto simp: is_newline_def)
qed

lemma page_fault_shows_witness:
  "\<exists>s' t. page_fault 0xDEAD blank_console = Ret s' \<and> denotes 16 t 0xDEAD \<and>
    chars (mem s') = overlay (overlay (replicate 2000 SPACE) 0 (map of_char ''page fault '')) 80 (map of_char ''addr:'' @ t)"
  using page_fault_shows[of blank_console "0xDEAD"] by (simp add: on_screen_def blank_console_def cursor_cell_def)

end
