(* ===== verification/Boot.thy ===== *)
theory Boot
  imports Idt
begin

text \<open>
  The kernel's entry point, \<open>entry\<close> of \<open>kernel.c\<close>: it prints what the boot loader passed, sets up the
  descriptors of the local descriptor table and the task state segment, the interrupt controller, paging and
  the interrupt table, and starts the first shell. The multiboot structures of \<open>multiboot.h\<close> are read from memory. The loops
  over modules and over the memory map end when the boot loader's data says so; they get fuel, and running out of it is
  \<open>Undef\<close>. A command line is printed up to 4096 bytes.
\<close>

section \<open>Descriptors\<close>

record seg_desc =
  seg_lim_15_00 :: u16
  base_15_00 :: u16
  base_23_16 :: u8
  seg_type :: "4 word"
  sys :: "1 word"
  seg_dpl :: "2 word"
  seg_present :: "1 word"
  seg_lim_19_16 :: "4 word"
  avail :: "1 word"
  seg_reserved :: "1 word"
  opsize :: "1 word"
  granularity :: "1 word"
  base_31_24 :: u8

definition SET_LDT_PARAMS :: "seg_desc \<Rightarrow> u32 \<Rightarrow> u32 \<Rightarrow> seg_desc" where
  "SET_LDT_PARAMS str addr lim =
     str\<lparr>base_31_24 := ucast (drop_bit 24 (addr AND 0xFF000000)), base_23_16 := ucast (drop_bit 16 (addr AND 0x00FF0000)),
        base_15_00 := ucast (addr AND 0x0000FFFF), seg_lim_19_16 := ucast (drop_bit 16 (lim AND 0x000F0000)),
        seg_lim_15_00 := ucast (lim AND 0x0000FFFF)\<rparr>"

definition SET_TSS_PARAMS :: "seg_desc \<Rightarrow> u32 \<Rightarrow> u32 \<Rightarrow> seg_desc" where
  "SET_TSS_PARAMS str addr lim =
     str\<lparr>base_31_24 := ucast (drop_bit 24 (addr AND 0xFF000000)), base_23_16 := ucast (drop_bit 16 (addr AND 0x00FF0000)),
        base_15_00 := ucast (addr AND 0x0000FFFF), seg_lim_19_16 := ucast (drop_bit 16 (lim AND 0x000F0000)),
        seg_lim_15_00 := ucast (lim AND 0x0000FFFF)\<rparr>"

abbreviation "KERNEL_TSS \<equiv> (0x30 :: u16)"
abbreviation "KERNEL_LDT \<equiv> (0x38 :: u16)"
abbreviation "TSS_SIZE \<equiv> (104 :: u32)"
abbreviation "MULTIBOOT_BOOTLOADER_MAGIC \<equiv> (0x2BADB002 :: u32)"

text \<open>
  What the linker and the initial contents of \<open>x86_desc.S\<close> give: the addresses of the LDT, the TSS and the
  interrupt entry points, the page tables' places, and the contents of local variables before they are set.
\<close>

record layout =
  ldt_addr :: u32
  tss_addr :: u32
  linkage_addr :: "linkage \<Rightarrow> u32"
  table_addr :: "nat \<Rightarrow> u32"
  junk_seg :: seg_desc
  junk_gate :: idt_desc
  junk_temp :: u32

abbreviation "ldt_size \<equiv> (31 :: u32)"
abbreviation "tss_size \<equiv> (103 :: u32)"

record boot = kernel +
  ldt_desc :: seg_desc
  tss_desc :: seg_desc
  ldtr :: u16
  tr :: u16
  tss_ldt_segment_selector :: u16
  idt :: "idt_desc list"

section \<open>The boot loader's information\<close>

definition print :: "string \<Rightarrow> printf_arg list \<Rightarrow> 'a console_scheme \<Rightarrow> 'a console_scheme outcome" where
  "print format args s = obind (printf (lit format) args s) (\<lambda>r. Ret (snd r))"

definition CHECK_FLAG :: "u32 \<Rightarrow> nat \<Rightarrow> bool" where
  "CHECK_FLAG fl n \<longleftrightarrow> fl AND push_bit n 1 \<noteq> 0"

text \<open>The fields of \<open>multiboot_info_t\<close>, \<open>module_t\<close> and \<open>memory_map_t\<close>, by their offset.\<close>

definition field :: "u32 \<Rightarrow> u32 \<Rightarrow> 'a machine_scheme \<Rightarrow> u32" where
  "field a offset s = le32 (mem s) (a + offset)"

fun print_bytes :: "u32 list \<Rightarrow> 'a console_scheme \<Rightarrow> 'a console_scheme outcome" where
  "print_bytes [] s = Ret s"
| "print_bytes (a # as) s = obind (print ''0x%x '' [Val (scast (mem s a))] s) (print_bytes as)"

fun module_loop :: "nat \<Rightarrow> u32 \<Rightarrow> u32 \<Rightarrow> u32 \<Rightarrow> u32 \<Rightarrow> 'a console_scheme \<Rightarrow> (u32 \<times> 'a console_scheme) outcome" where
  "module_loop 0 mbi mod_count md temp s = (if mod_count < field mbi 20 s then Undef else Ret (temp, s))"
| "module_loop (Suc fuel) mbi mod_count md temp s =
     (if mod_count < field mbi 20 s
      then obind (print ''Module %d loaded at address: 0x%#x\<newline>'' [Val mod_count, Val (field md 0 s)] s) (\<lambda>s1.
           let temp = field md 0 s1
           in obind (print ''Module %d ends at address: 0x%#x\<newline>'' [Val mod_count, Val (field md 4 s1)] s1) (\<lambda>s2.
              obind (print ''First few bytes of module:\<newline>'' [] s2) (\<lambda>s3.
              obind (print_bytes (map (\<lambda>i. field md 0 s3 + of_nat i) [0..<16]) s3) (\<lambda>s4.
              obind (print ''\<newline>'' [] s4) (\<lambda>s5.
              module_loop fuel mbi (mod_count + 1) (md + 16) temp s5)))))
      else Ret (temp, s))"

fun mmap_loop :: "nat \<Rightarrow> u32 \<Rightarrow> u32 \<Rightarrow> 'a console_scheme \<Rightarrow> 'a console_scheme outcome" where
  "mmap_loop 0 mbi mmap s = (if mmap < field mbi 48 s + field mbi 44 s then Undef else Ret s)"
| "mmap_loop (Suc fuel) mbi mmap s =
     (if mmap < field mbi 48 s + field mbi 44 s
      then obind (print '' size = 0x%x,     base_addr = 0x%#x%#x\<newline>     type = 0x%x,  length    = 0x%#x%#x\<newline>''
             [Val (field mmap 0 s), Val (field mmap 8 s), Val (field mmap 4 s), Val (field mmap 20 s), Val (field mmap 16 s),
              Val (field mmap 12 s)] s) (\<lambda>s1.
           mmap_loop fuel mbi (mmap + field mmap 0 s1 + 4) s1)
      else Ret s)"

text \<open>Lines 44 to 58: flags, memory, boot device and command line.\<close>

definition print_header :: "u32 \<Rightarrow> 'a console_scheme \<Rightarrow> 'a console_scheme outcome" where
  "print_header mbi s =
     obind (print ''flags = 0x%#x\<newline>'' [Val (field mbi 0 s)] s) (\<lambda>s1.
     obind (if CHECK_FLAG (field mbi 0 s1) 0
            then print ''mem_lower = %uKB, mem_upper = %uKB\<newline>'' [Val (field mbi 4 s1), Val (field mbi 8 s1)] s1 else Ret s1) (\<lambda>s2.
     obind (if CHECK_FLAG (field mbi 0 s2) 1
            then print ''boot_device = 0x%#x\<newline>'' [Val (field mbi 12 s2)] s2 else Ret s2) (\<lambda>s3.
     if CHECK_FLAG (field mbi 0 s3) 2
     then print ''cmdline = %s\<newline>'' [Str (mem_bytes (mem s3) (field mbi 16 s3) 4096)] s3 else Ret s3)))"

text \<open>Lines 84 to 114: the sections of the kernel's file and the memory map.\<close>

definition print_sections :: "nat \<Rightarrow> u32 \<Rightarrow> 'a console_scheme \<Rightarrow> 'a console_scheme outcome" where
  "print_sections fuel mbi s =
     obind (if CHECK_FLAG (field mbi 0 s) 5
            then print ''elf_sec: num = %u, size = 0x%#x, addr = 0x%#x, shndx = 0x%#x\<newline>''
                   [Val (field mbi 28 s), Val (field mbi 32 s), Val (field mbi 36 s), Val (field mbi 40 s)] s
            else Ret s) (\<lambda>s1.
     if CHECK_FLAG (field mbi 0 s1) 6
     then obind (print ''mmap_addr = 0x%#x, mmap_length = 0x%x\<newline>'' [Val (field mbi 48 s1), Val (field mbi 44 s1)] s1) (\<lambda>s2.
          mmap_loop fuel mbi (field mbi 48 s2) s2)
     else Ret s1)"

text \<open>\<open>None\<close> when the kernel refuses to start, and otherwise the address of the last module.\<close>

definition boot_info :: "nat \<Rightarrow> u32 \<Rightarrow> u32 \<Rightarrow> u32 \<Rightarrow> 'a console_scheme \<Rightarrow> (u32 option \<times> 'a console_scheme) outcome" where
  "boot_info fuel magic addr temp s0 =
     (let s = clear s0
      in if magic \<noteq> MULTIBOOT_BOOTLOADER_MAGIC
         then obind (print ''Invalid magic number: 0x%#x\<newline>'' [Val magic] s) (\<lambda>s1. Ret (None, s1))
         else obind (print_header addr s) (\<lambda>s1.
              obind (if CHECK_FLAG (field addr 0 s1) 3 then module_loop fuel addr 0 (field addr 24 s1) temp s1
                     else Ret (temp, s1)) (\<lambda>(temp, s2).
              if CHECK_FLAG (field addr 0 s2) 4 \<and> CHECK_FLAG (field addr 0 s2) 5
              then obind (print ''Both bits 4 and 5 are set.\<newline>'' [] s2) (\<lambda>s3. Ret (None, s3))
              else obind (print_sections fuel addr s2) (\<lambda>s3. Ret (Some temp, s3)))))"

section \<open>Setting up\<close>

text \<open>Loading the registers that select the local descriptor table and the task state segment.\<close>

definition lldt :: "u16 \<Rightarrow> 'a boot_scheme \<Rightarrow> 'a boot_scheme" where
  [simp]: "lldt desc s = s\<lparr>ldtr := desc\<rparr>"

definition ltr :: "u16 \<Rightarrow> 'a boot_scheme \<Rightarrow> 'a boot_scheme" where
  [simp]: "ltr desc s = s\<lparr>tr := desc\<rparr>"

definition the_ldt_desc :: "layout \<Rightarrow> seg_desc" where
  "the_ldt_desc lo = SET_LDT_PARAMS ((junk_seg lo)\<lparr>granularity := 0, opsize := 1, seg_reserved := 0, avail := 0,
     seg_present := 1, seg_dpl := 0, sys := 0, seg_type := 2\<rparr>) (ldt_addr lo) ldt_size"

definition the_tss_desc :: "layout \<Rightarrow> seg_desc" where
  "the_tss_desc lo = SET_TSS_PARAMS ((junk_seg lo)\<lparr>granularity := 0, opsize := 0, seg_reserved := 0, avail := 0,
     seg_lim_19_16 := ucast (TSS_SIZE AND 0x000F0000), seg_present := 1, seg_dpl := 0, sys := 0, seg_type := 9,
     seg_lim_15_00 := ucast (TSS_SIZE AND 0x0000FFFF)\<rparr>) (tss_addr lo) tss_size"

text \<open>Lines 116 to 184: the descriptors, the interrupt controller, paging, the interrupt table and the file system.\<close>

definition boot_devices :: "layout \<Rightarrow> device \<Rightarrow> u32 \<Rightarrow> 'a boot_scheme \<Rightarrow> 'a boot_scheme" where
  "boot_devices lo dev temp s =
     (let s1 = lldt KERNEL_LDT (s\<lparr>ldt_desc := the_ldt_desc lo\<rparr>);
          s2 = ltr KERNEL_TSS (s1\<lparr>tss_desc := the_tss_desc lo, tss_ldt_segment_selector := KERNEL_LDT, tss_ss0 := KERNEL_DS,
                 tss_esp0 := 0x800000\<rparr>);
          s3 = paging_initialize (table_addr lo) (i8259_init s2);
          s4 = s3\<lparr>idt := idt_initialize (linkage_addr lo) (junk_gate lo) (idt s3)\<rparr>;
          s5 = enable_irq dev 8 (enable_irq dev 1 s4)
      in snd (init_bootBlock_address temp s5))"

definition boot_setup :: "layout \<Rightarrow> device \<Rightarrow> u32 \<Rightarrow> 'a boot_scheme \<Rightarrow> 'a boot_scheme outcome" where
  "boot_setup lo dev temp s =
     obind (terminal_init (boot_devices lo dev temp s)) (\<lambda>s1.
     Ret (init_PIT 100 (add_task_to_queue (Some 0) (clear s1))))"

datatype boot_exit = Boot_refused | Boot_shell transfer | Boot_idle

definition entry :: "nat \<Rightarrow> layout \<Rightarrow> 'a boot_ext env \<Rightarrow> u32 \<Rightarrow> u32 \<Rightarrow> 'a boot_scheme \<Rightarrow> (boot_exit \<times> 'a boot_scheme) outcome" where
  "entry fuel lo env magic addr s =
     obind (boot_info fuel magic addr (junk_temp lo) s) (\<lambda>(r, s1).
     case r of None \<Rightarrow> Ret (Boot_refused, s1)
     | Some temp \<Rightarrow>
         obind (boot_setup lo (env_dev env) temp s1) (\<lambda>s2.
         obind (execute env (Some (lit ''shell'')) s2) (\<lambda>(t, s3).
         if t \<noteq> Return_error then Ret (Boot_shell t, s3)
         else obind (print ''effffff left shell\<newline>'' [] s3) (\<lambda>s4. Ret (Boot_idle, sti s4)))))"

section \<open>Printing\<close>

text \<open>
  A state that printing makes of another, with at most \<open>k\<close> newlines.
\<close>

definition newlines :: "u8 list \<Rightarrow> nat" where
  "newlines t = length (filter is_newline t)"

definition printed :: "nat \<Rightarrow> 'a console_scheme \<Rightarrow> 'a console_scheme \<Rightarrow> bool" where
  "printed k s s' \<longleftrightarrow> (\<exists>t. s' = fold putc t s \<and> newlines t \<le> k)"

lemma newlines_simps [simp]:
  "newlines [] = 0" "newlines (c # t) = (if is_newline c then Suc (newlines t) else newlines t)" "newlines (t @ u) = newlines t + newlines u"
  by (simp_all add: newlines_def)

lemma newlines_le: "newlines t \<le> length t"
  by (simp add: newlines_def)

lemma printed_refl [simp]: "printed k s s"
  unfolding printed_def by (rule exI[of _ "[]"]) simp

lemma printed_trans: "printed k s1 s2 \<Longrightarrow> printed l s2 s3 \<Longrightarrow> printed (k + l) s1 s3"
  unfolding printed_def
proof (elim exE conjE)
  fix t u assume "s2 = fold putc t s1" "s3 = fold putc u s2" "newlines t \<le> k" "newlines u \<le> l"
  then show "\<exists>t. s3 = fold putc t s1 \<and> newlines t \<le> k + l" by (intro exI[of _ "t @ u"]) simp
qed

lemma printed_mono: "printed k s s' \<Longrightarrow> k \<le> l \<Longrightarrow> printed l s s'"
  unfolding printed_def using le_trans by blast

lemma printed_step: "printed k s s' \<Longrightarrow> console_step s s'"
  by (auto simp: printed_def console_step_fold)

lemma denotes_no_newlines: "denotes r t v \<Longrightarrow> r \<le> 36 \<Longrightarrow> newlines t = 0"
  unfolding denotes_def newlines_def using lookup_not_newline by (fastforce simp: filter_empty_conv)

text \<open>A format whose conversions match the arguments is printed, with its own newlines and those of strings.\<close>

fun fmt_ok :: "u8 list \<Rightarrow> printf_arg list \<Rightarrow> bool" and conv_ok :: "u8 list \<Rightarrow> printf_arg list \<Rightarrow> bool" where
  "fmt_ok [] args = False"
| "fmt_ok (c # cs) args = (if c = 0 then True else if c = of_char CHR ''%'' then conv_ok cs args else fmt_ok cs args)"
| "conv_ok [] args = False"
| "conv_ok (c # cs) args =
     (if c = of_char CHR ''%'' then fmt_ok cs args
      else if c = of_char CHR ''#'' then conv_ok cs args
      else if c \<in> {of_char CHR ''x'', of_char CHR ''u'', of_char CHR ''d''}
      then (case args of Val v # rest \<Rightarrow> fmt_ok cs rest | _ \<Rightarrow> False)
      else if c = of_char CHR ''c'' then False
      else if c = of_char CHR ''s'' then (case args of Str b # rest \<Rightarrow> terminated b \<and> fmt_ok cs rest | _ \<Rightarrow> False)
      else fmt_ok cs args)"

fun arg_newlines :: "printf_arg \<Rightarrow> nat" where
  "arg_newlines (Val v) = 0"
| "arg_newlines (Str b) = length (cstr b)"

abbreviation "args_newlines args \<equiv> sum_list (map arg_newlines args)"

lemma print_number:
  "\<exists>s'. print_alternate v s = Ret s' \<and> printed 0 s s'" "\<exists>s'. print_unsigned v 16 64 s = Ret s' \<and> printed 0 s s'"
  "\<exists>s'. print_unsigned v 10 36 s = Ret s' \<and> printed 0 s s'" "\<exists>s'. print_signed v s = Ret s' \<and> printed 0 s s'"
proof -
  obtain ds where "print_alternate v s = Ret (fold putc (map ((!) lookup) ds) s)" "\<forall>d\<in>set ds. d < 16"
    using print_alternate_digits[of v s] by blast
  moreover then have "newlines (map ((!) lookup) ds) = 0"
    using lookup_not_newline by (fastforce simp: newlines_def filter_empty_conv)
  ultimately show "\<exists>s'. print_alternate v s = Ret s' \<and> printed 0 s s'" by (auto simp: printed_def)
  have b: "unat v < 16 ^ 8" "unat v < 10 ^ 10" using unat_lt32[of v] by simp_all
  obtain t where "print_unsigned v 16 64 s = Ret (fold putc t s)" "denotes 16 t (unat v)"
    using print_unsigned_digits[of 16 v 8 64 s] b by auto
  then show "\<exists>s'. print_unsigned v 16 64 s = Ret s' \<and> printed 0 s s'"
    by (auto simp: printed_def dest: denotes_no_newlines intro!: exI[of _ t])
  obtain t where "print_unsigned v 10 36 s = Ret (fold putc t s)" "denotes 10 t (unat v)"
    using print_unsigned_digits[of 10 v 10 36 s] b by auto
  then show "\<exists>s'. print_unsigned v 10 36 s = Ret s' \<and> printed 0 s s'"
    by (auto simp: printed_def dest: denotes_no_newlines intro!: exI[of _ t])
  obtain t where "print_signed v s = Ret (fold putc t s)"
      "if sint v < 0 then \<exists>u. t = of_char CHR ''-'' # u \<and> denotes 10 u (nat (- sint v)) else denotes 10 t (nat (sint v))"
    using print_signed_digits[of v s] by blast
  then show "\<exists>s'. print_signed v s = Ret s' \<and> printed 0 s s'"
    by (auto simp: printed_def is_newline_def split: if_splits dest!: denotes_no_newlines intro!: exI[of _ t])
qed

lemma printed_puts: "terminated b \<Longrightarrow> \<exists>n s'. puts b s = Ret (n, s') \<and> printed (length (cstr b)) s s'"
  using newlines_le by (auto simp: puts_eq printed_def)

lemma printed_putc: "printed k (putc c s) s' \<Longrightarrow> printed (if is_newline c then Suc k else k) s s'"
proof -
  assume "printed k (putc c s) s'"
  then obtain t where "s' = fold putc t (putc c s)" "newlines t \<le> k" by (auto simp: printed_def)
  then show ?thesis unfolding printed_def by (intro exI[of _ "c # t"]) simp
qed

lemma printed_next:
  assumes "printed k s s1" "\<And>s n. \<exists>n' s'. f n s = Ret (n', s') \<and> printed l s s'"
  shows "\<exists>n' s'. f n s1 = Ret (n', s') \<and> printed (k + l) s s'"
  using assms(2)[of n s1] printed_trans[OF assms(1)] by blast

text \<open>One step of the two mutually recursive functions, given that they print the rest of the format.\<close>

definition prints_rest :: "'a console_scheme itself \<Rightarrow> u8 list \<Rightarrow> bool" where
  "prints_rest ty cs \<longleftrightarrow> (\<forall>args n (s :: 'a console_scheme).
     (fmt_ok cs args \<longrightarrow> (\<exists>n' s'. printf_loop cs args n s = Ret (n', s') \<and> printed (newlines cs + args_newlines args) s s')) \<and>
     (\<forall>b. conv_ok cs args \<longrightarrow> (\<exists>n' s'. printf_conv b cs args n s = Ret (n', s') \<and> printed (newlines cs + args_newlines args) s s')))"

lemma prints_restD:
  fixes s :: "'a console_scheme"
  assumes "prints_rest TYPE('a console_scheme) cs"
  shows "fmt_ok cs args \<Longrightarrow> \<exists>n' s'. printf_loop cs args n s = Ret (n', s') \<and> printed (newlines cs + args_newlines args) s s'"
    "conv_ok cs args \<Longrightarrow> \<exists>n' s'. printf_conv b cs args n s = Ret (n', s') \<and> printed (newlines cs + args_newlines args) s s'"
  using assms by (simp_all add: prints_rest_def)

lemma printf_loop_step:
  fixes s :: "'a console_scheme"
  assumes rest: "prints_rest TYPE('a console_scheme) cs" and ok: "fmt_ok (c # cs) args"
  shows "\<exists>n' s'. printf_loop (c # cs) args n s = Ret (n', s') \<and> printed (newlines (c # cs) + args_newlines args) s s'"
proof -
  note loop = prints_restD(1)[OF rest] and conv = prints_restD(2)[OF rest]
  consider "c = 0" | "c = of_char CHR ''%''" "conv_ok cs args" | "c \<noteq> 0" "c \<noteq> of_char CHR ''%''" "fmt_ok cs args"
    using ok by (auto split: if_splits)
  then show ?thesis
  proof cases
    case 3
    obtain n' s' where "printf_loop cs args (Suc n) (putc c s) = Ret (n', s')"
        "printed (newlines cs + args_newlines args) (putc c s) s'" using loop[OF 3(3)] by blast
    then show ?thesis using 3 printed_putc[of _ c s s'] by (auto split: if_splits)
  qed (use conv in \<open>auto simp: is_newline_def\<close>)
qed

lemma printf_conv_step:
  fixes s :: "'a console_scheme"
  assumes rest: "prints_rest TYPE('a console_scheme) cs" and ok: "conv_ok (c # cs) args"
  shows "\<exists>n' s'. printf_conv alternate (c # cs) args n s = Ret (n', s') \<and> printed (newlines (c # cs) + args_newlines args) s s'"
proof -
  note loop = prints_restD(1)[OF rest] and conv = prints_restD(2)[OF rest]
  have up: "printed (newlines (c # cs) + k) s s'" if "printed (newlines cs + k) s s'" for k and s s' :: "'a console_scheme"
    using printed_mono[OF that] by simp
  have num: "\<exists>n' s'. obind r (printf_loop cs rest (Suc n)) = Ret (n', s') \<and> printed (newlines cs + args_newlines rest) s s'"
    if "\<exists>s1. r = Ret s1 \<and> printed 0 s s1" "fmt_ok cs rest" for r rest
    using that loop[OF that(2), of "Suc n"] printed_trans[of 0 s] by fastforce
  consider "c = of_char CHR ''%''" "fmt_ok cs args" | "c = of_char CHR ''#''" "conv_ok cs args"
    | v rest where "c \<in> {of_char CHR ''x'', of_char CHR ''u'', of_char CHR ''d''}" "args = Val v # rest" "fmt_ok cs rest"
    | b rest where "c = of_char CHR ''s''" "args = Str b # rest" "terminated b" "fmt_ok cs rest"
    | "c \<notin> {of_char CHR ''%'', of_char CHR ''#'', of_char CHR ''x'', of_char CHR ''u'', of_char CHR ''d'', of_char CHR ''c'', of_char CHR ''s''}"
      "fmt_ok cs args"
    using ok by (auto split: if_splits list.splits printf_arg.splits)
  then show ?thesis
  proof cases
    case 1
    obtain n' s' where "printf_loop cs args (Suc n) (putc (of_char CHR ''%'') s) = Ret (n', s')"
        "printed (newlines cs + args_newlines args) (putc (of_char CHR ''%'') s) s'" using loop[OF 1(2)] by blast
    then show ?thesis using 1(1) printed_putc[of _ "of_char CHR ''%''" s s'] by (auto simp: is_newline_def)
  next
    case 2
    then show ?thesis using conv up by (auto simp: is_newline_def)
  next
    case (3 v rest)
    then show ?thesis using num[OF print_number(1) 3(3), of v] num[OF print_number(2) 3(3), of v]
        num[OF print_number(3) 3(3), of v] num[OF print_number(4) 3(3), of v] up[of "args_newlines rest"]
      by (cases alternate) (auto simp: next_val_def is_newline_def)
  next
    case (4 b rest)
    obtain m s1 where "puts b s = Ret (m, s1)" "printed (length (cstr b)) s s1" using printed_puts[OF 4(3)] by blast
    moreover obtain n' s' where "printf_loop cs rest (Suc n) s1 = Ret (n', s')" "printed (newlines cs + args_newlines rest) s1 s'"
      using loop[OF 4(4)] by blast
    ultimately show ?thesis using 4 printed_trans[of "length (cstr b)" s s1] by (fastforce simp: next_str_def is_newline_def add.left_commute)
  next
    case 5
    obtain n' s' where "printf_loop cs args (Suc n) s = Ret (n', s')" "printed (newlines cs + args_newlines args) s s'"
      using loop[OF 5(2)] by blast
    then show ?thesis using 5(1) up by auto
  qed
qed

lemma prints_all: "prints_rest TYPE('a console_scheme) fmt"
proof (induction fmt)
  case Nil
  show ?case by (simp add: prints_rest_def)
next
  case (Cons c cs)
  then show ?case using printf_loop_step[OF Cons] printf_conv_step[OF Cons] unfolding prints_rest_def by blast
qed

lemma print_ok:
  assumes "fmt_ok (lit f) args"
  shows "\<exists>s'. print f args s = Ret s' \<and> printed (newlines (lit f) + args_newlines args) s s'"
  using prints_restD(1)[OF prints_all assms, of 0 s] by (auto simp: print_def printf_def)

text \<open>Printing leaves the memory below the screen alone while the cursor has not run far down.\<close>

definition cursor_within :: "nat \<Rightarrow> 'a console_scheme \<Rightarrow> bool" where
  "cursor_within n s \<longleftrightarrow> 0 \<le> screen_x s \<and> screen_x s < NUM_COLS \<and> 0 \<le> screen_y s \<and> screen_y s \<le> int n"

lemma vid_above: "0 \<le> k \<Longrightarrow> k < 2 ^ 31 \<Longrightarrow> a < VIDEO \<Longrightarrow> vid k \<noteq> a"
proof -
  assume k: "0 \<le> k" "k < 2 ^ 31" and a: "a < VIDEO"
  then have "unat (of_nat (nat k) :: u32) = nat k" by (intro unat_of_nat32) simp
  then have "unat (vid k) = 0xB8000 + nat k"
    using vid_of_nat[of "nat k"] k by (simp add: unat_word_ariths)
  moreover have "unat a < 0xB8000" using a by (simp add: word_less_nat_alt)
  ultimately show ?thesis by auto
qed

lemma putc_below:
  assumes c: "cursor_within n s" "n < 1000000"
  shows "cursor_within (if is_newline c then Suc n else n) (putc c s)" "a < VIDEO \<Longrightarrow> mem (putc c s) a = mem s a"
proof -
  show "cursor_within (if is_newline c then Suc n else n) (putc c s)"
  proof (cases "is_newline c")
    case True
    then show ?thesis using c putc_newline[OF True, of s] by (simp add: cursor_within_def)
  next
    case False
    have "screen_x s + 1 = 80 \<or> screen_x s + 1 < 80" "0 \<le> screen_y s mod 25" "screen_y s mod 25 \<le> screen_y s"
      using c(1) zmod_le_nonneg_dividend by (auto simp: cursor_within_def)
    with False show ?thesis using c(1) by (auto simp: putc_def is_newline_def cursor_within_def cmod_def cdiv_def Let_def sgn_if)
  qed
  let ?k = "cell_off (screen_x s) (screen_y s)"
  have k: "0 \<le> ?k" "?k + 1 < 2 ^ 31" using c by (auto simp: cell_off_def cursor_within_def)
  show "mem (putc c s) a = mem s a" if "a < VIDEO"
    using vid_above[OF _ _ that, of ?k] vid_above[OF _ _ that, of "?k + 1"] k
    by (cases "is_newline c") (auto simp: putc_newline putc_mem put_cell_def Let_def poke_def)
qed

lemma printed_below:
  fixes s s' :: "'a console_scheme"
  assumes "printed k s s'" "cursor_within n s" "n + k < 1000000"
  shows "cursor_within (n + k) s'" "a < VIDEO \<Longrightarrow> mem s' a = mem s a"
proof -
  have "cursor_within (n + newlines t) (fold putc t s) \<and> (\<forall>a<VIDEO. mem (fold putc t s) a = mem s a)"
    if "cursor_within n s" "n + newlines t < 1000000" for t n and s :: "'a console_scheme"
    using that
  proof (induction t arbitrary: n s)
    case (Cons c t)
    show ?case using putc_below[OF Cons.prems(1), where c = c] Cons.prems(2) Cons.IH[of "if is_newline c then Suc n else n" "putc c s"]
      by (cases "is_newline c") auto
  qed simp
  moreover obtain t where "s' = fold putc t s" "newlines t \<le> k" using assms(1) by (auto simp: printed_def)
  ultimately have "cursor_within (n + newlines t) s'" "\<forall>a<VIDEO. mem s' a = mem s a" "newlines t \<le> k"
    using assms(2,3) by auto
  then show "cursor_within (n + k) s'" "a < VIDEO \<Longrightarrow> mem s' a = mem s a"
    by (auto simp: cursor_within_def)
qed

section \<open>The boot information is printed\<close>

text \<open>A structure of \<open>n\<close> bytes below the screen.\<close>

definition low :: "u32 \<Rightarrow> nat \<Rightarrow> bool" where
  "low a n \<longleftrightarrow> unat a + n \<le> 0xB8000"

lemma low_add: "low a n \<Longrightarrow> k < n \<Longrightarrow> a + of_nat k < VIDEO"
proof -
  assume "low a n" "k < n"
  moreover then have "unat (of_nat k :: u32) = k" by (intro unat_of_nat32) (simp add: low_def)
  ultimately have "unat (a + of_nat k) = unat a + k" by (simp add: low_def unat_word_ariths)
  with \<open>low a n\<close> \<open>k < n\<close> show ?thesis by (simp add: low_def word_less_nat_alt)
qed

text \<open>A state that has printed at most \<open>k\<close> lines since \<open>s0\<close>, with a bound on the cursor.\<close>

definition since :: "nat \<Rightarrow> 'a console_scheme \<Rightarrow> 'a console_scheme \<Rightarrow> bool" where
  "since k s0 s \<longleftrightarrow> printed k s0 s \<and> cursor_within 25 s0"

lemma since_print:
  assumes "since k s0 s" "fmt_ok (lit f) args" "newlines (lit f) + args_newlines args \<le> l"
  shows "\<exists>s'. print f args s = Ret s' \<and> since (k + l) s0 s'"
  using print_ok[OF assms(2), of s] printed_trans[of k s0 s l] printed_mono[OF _ assms(3), of s] assms(1)
  unfolding since_def by blast

lemma since_mono: "since k s0 s \<Longrightarrow> k \<le> l \<Longrightarrow> since l s0 s"
  by (auto simp: since_def intro: printed_mono)

lemma since_mem: "since k s0 s \<Longrightarrow> k \<le> 900000 \<Longrightarrow> a < VIDEO \<Longrightarrow> mem s a = mem s0 a"
  using printed_below(2)[of k s0 s 25 a] by (simp add: since_def)

lemma since_field:
  assumes "since k s0 s" "k \<le> 900000" "low a n" "unat off + 4 \<le> n"
  shows "field a off s = field a off s0"
proof -
  have "a + off < VIDEO" "a + off + 1 < VIDEO" "a + off + 2 < VIDEO" "a + off + 3 < VIDEO"
    using low_add[OF assms(3), of "unat off"] low_add[OF assms(3), of "unat off + 1"] low_add[OF assms(3), of "unat off + 2"]
      low_add[OF assms(3), of "unat off + 3"] assms(4) by (simp_all add: ac_simps)
  then show ?thesis using since_mem[OF assms(1,2)] by (simp add: field_def le32_def)
qed

lemma since_bytes: "since k s0 s \<Longrightarrow> k \<le> 900000 \<Longrightarrow> low a n \<Longrightarrow> mem_bytes (mem s) a n = mem_bytes (mem s0) a n"
  by (simp add: mem_bytes_def since_mem low_add)

definition cmdline_ok :: "u32 \<Rightarrow> 'a console_scheme \<Rightarrow> bool" where
  "cmdline_ok mbi s \<longleftrightarrow> (CHECK_FLAG (field mbi 0 s) 2 \<longrightarrow>
     low (field mbi 16 s) 4096 \<and> terminated (mem_bytes (mem s) (field mbi 16 s) 4096))"

lemma optional_print:
  assumes "since k s0 s" "b \<longrightarrow> fmt_ok (lit f) args" "b \<longrightarrow> newlines (lit f) + args_newlines args \<le> l"
  shows "\<exists>s'. (if b then print f args s else Ret s) = Ret s' \<and> since (k + l) s0 s'"
  using since_print[OF assms(1), of f args l] since_mono[OF assms(1), of "k + l"] assms(2,3) by (cases b) auto

lemma print_header_ok:
  assumes "since 0 s0 s0" "low mbi 52" "cmdline_ok mbi s0"
  shows "\<exists>s'. print_header mbi s0 = Ret s' \<and> since 5000 s0 s'"
proof -
  obtain s1 where s1: "print ''flags = 0x%#x\<newline>'' [Val (field mbi 0 s0)] s0 = Ret s1" "since 1 s0 s1"
    using since_print[OF assms(1), of "''flags = 0x%#x\<newline>''" "[Val (field mbi 0 s0)]" 1] by (auto simp: lit_def is_newline_def)
  obtain s2 where s2: "(if CHECK_FLAG (field mbi 0 s1) 0
      then print ''mem_lower = %uKB, mem_upper = %uKB\<newline>'' [Val (field mbi 4 s1), Val (field mbi 8 s1)] s1 else Ret s1) = Ret s2" "since (1 + 1) s0 s2"
    using optional_print[OF s1(2), of "CHECK_FLAG (field mbi 0 s1) 0" "''mem_lower = %uKB, mem_upper = %uKB\<newline>''"
      "[Val (field mbi 4 s1), Val (field mbi 8 s1)]" 1] by (auto simp: lit_def is_newline_def)
  obtain s3 where s3: "(if CHECK_FLAG (field mbi 0 s2) 1
      then print ''boot_device = 0x%#x\<newline>'' [Val (field mbi 12 s2)] s2 else Ret s2) = Ret s3" "since (1 + 1 + 1) s0 s3"
    using optional_print[OF s2(2), of "CHECK_FLAG (field mbi 0 s2) 1" "''boot_device = 0x%#x\<newline>''" "[Val (field mbi 12 s2)]" 1]
    by (auto simp: lit_def is_newline_def)
  let ?b = "mem_bytes (mem s3) (field mbi 16 s3) 4096"
  have "CHECK_FLAG (field mbi 0 s3) 2 \<longrightarrow> terminated ?b"
    using assms(2,3) since_field[OF s3(2)] since_bytes[OF s3(2)] by (auto simp: cmdline_ok_def)
  moreover then have "CHECK_FLAG (field mbi 0 s3) 2 \<longrightarrow> length (cstr ?b) < 4096" using length_cstr_less[of ?b] by simp
  ultimately obtain s4 where "(if CHECK_FLAG (field mbi 0 s3) 2 then print ''cmdline = %s\<newline>'' [Str ?b] s3 else Ret s3) = Ret s4"
      "since (1 + 1 + 1 + 4997) s0 s4"
    using optional_print[OF s3(2), of "CHECK_FLAG (field mbi 0 s3) 2" "''cmdline = %s\<newline>''" "[Str ?b]" 4997]
    by (auto simp: lit_def is_newline_def)
  then show ?thesis using s1(1) s2(1) s3(1) by (auto simp: print_header_def)
qed

lemma print_bytes_ok:
  assumes "since k s0 s"
  shows "\<exists>s'. print_bytes as s = Ret s' \<and> since k s0 s'"
  using assms
proof (induction "as" arbitrary: s)
  case (Cons a "as")
  obtain s1 where "print ''0x%x '' [Val (scast (mem s a))] s = Ret s1" "since k s0 s1"
    using since_print[OF Cons.prems, of "''0x%x ''" "[Val (scast (mem s a))]" 0] by (auto simp: lit_def is_newline_def)
  with Cons.IH[of s1] show ?case by simp
qed simp

text \<open>The loop over the modules ends after as many turns as there are modules, with the start of the last one.\<close>

lemma module_turn:
  assumes "since k s0 s"
  obtains s1 s2 s3 s4 s5 where "print ''Module %d loaded at address: 0x%#x\<newline>'' [Val n, Val (field md 0 s)] s = Ret s1"
    "print ''Module %d ends at address: 0x%#x\<newline>'' [Val n, Val (field md 4 s1)] s1 = Ret s2"
    "print ''First few bytes of module:\<newline>'' [] s2 = Ret s3"
    "print_bytes (map (\<lambda>i. field md 0 s3 + of_nat i) [0..<16]) s3 = Ret s4" "print ''\<newline>'' [] s4 = Ret s5" "since (k + 1) s0 s1" "since (k + 4) s0 s5"
proof -
  obtain s1 where s1: "print ''Module %d loaded at address: 0x%#x\<newline>'' [Val n, Val (field md 0 s)] s = Ret s1" "since (k + 1) s0 s1"
    using since_print[OF assms, of "''Module %d loaded at address: 0x%#x\<newline>''" "[Val n, Val (field md 0 s)]" 1] by (auto simp: lit_def is_newline_def)
  obtain s2 where s2: "print ''Module %d ends at address: 0x%#x\<newline>'' [Val n, Val (field md 4 s1)] s1 = Ret s2" "since (k + 1 + 1) s0 s2"
    using since_print[OF s1(2), of "''Module %d ends at address: 0x%#x\<newline>''" "[Val n, Val (field md 4 s1)]" 1] by (auto simp: lit_def is_newline_def)
  obtain s3 where s3: "print ''First few bytes of module:\<newline>'' [] s2 = Ret s3" "since (k + 1 + 1 + 1) s0 s3"
    using since_print[OF s2(2), of "''First few bytes of module:\<newline>''" "[]" 1] by (auto simp: lit_def is_newline_def)
  obtain s4 where s4: "print_bytes (map (\<lambda>i. field md 0 s3 + of_nat i) [0..<16]) s3 = Ret s4" "since (k + 1 + 1 + 1) s0 s4"
    using print_bytes_ok[OF s3(2)] by blast
  obtain s5 where s5: "print ''\<newline>'' [] s4 = Ret s5" "since (k + 1 + 1 + 1 + 1) s0 s5"
    using since_print[OF s4(2), of "''\<newline>''" "[]" 1] by (auto simp: lit_def is_newline_def)
  have "k + 1 + 1 + 1 + 1 = k + 4" by simp
  then show thesis using that[OF s1(1) s2(1) s3(1) s4(1) s5(1) s1(2)] s5(2) by (simp only:)
qed

lemma module_loop_ok:
  assumes mbi: "low mbi 52" and mods: "field mbi 20 s0 = of_nat c" "c < 10000" "low md (16 * (c - n))"
    and s: "since k s0 s" "k + 4 * (c - n) \<le> 900000" and n: "n \<le> c" "c - n \<le> fuel"
  shows "\<exists>s'. module_loop fuel mbi (of_nat n) md temp s =
      Ret (if n < c then field (md + of_nat (16 * (c - n - 1))) 0 s0 else temp, s') \<and> since (k + 4 * (c - n)) s0 s'"
  using mods(3) s n
proof (induction "c - n" arbitrary: n md temp k s fuel)
  case 0
  then have "\<not> of_nat n < field mbi 20 s" using since_field[OF "0.prems"(2) _ mbi] mods(1) by simp
  with 0 show ?case by (cases fuel) auto
next
  case (Suc d)
  have d: "n < c" "c - Suc n = d" using Suc.hyps(2) by auto
  obtain f where f: "fuel = Suc f" "d \<le> f" using Suc.hyps(2) Suc.prems(5) by (cases fuel) auto
  have "unat (of_nat n :: u32) = n" "unat (of_nat c :: u32) = c" using d mods(2) by (auto intro!: unat_of_nat32)
  then have lt: "of_nat n < field mbi 20 s"
    using since_field[OF Suc.prems(2) _ mbi] mods(1) Suc.prems(3) d by (simp add: word_less_nat_alt)
  obtain s1 s2 s3 s4 s5 where turn: "print ''Module %d loaded at address: 0x%#x\<newline>'' [Val (of_nat n), Val (field md 0 s)] s = Ret s1"
    "print ''Module %d ends at address: 0x%#x\<newline>'' [Val (of_nat n), Val (field md 4 s1)] s1 = Ret s2"
    "print ''First few bytes of module:\<newline>'' [] s2 = Ret s3"
    "print_bytes (map (\<lambda>i. field md 0 s3 + of_nat i) [0..<16]) s3 = Ret s4" "print ''\<newline>'' [] s4 = Ret s5" "since (k + 1) s0 s1" "since (k + 4) s0 s5"
    by (rule module_turn[OF Suc.prems(2)])
  have start: "field md 0 s1 = field md 0 s0"
    using since_field[OF turn(6), of md "16 * (c - n)" 0] Suc.prems(1,3) Suc.hyps(2) by simp
  have "low md 16" using Suc.prems(1) Suc.hyps(2) by (simp add: low_def)
  then have "unat (md + 16) = unat md + 16" by (simp add: low_def unat_word_ariths)
  then have low: "low (md + 16) (16 * (c - Suc n))" using Suc.prems(1) d by (simp add: low_def)
  have "\<exists>s'. module_loop f mbi (of_nat (Suc n)) (md + 16) (field md 0 s1) s5 =
      Ret (if Suc n < c then field (md + 16 + of_nat (16 * (c - Suc n - 1))) 0 s0 else field md 0 s1, s') \<and> since (k + 4 + 4 * (c - Suc n)) s0 s'"
    by (rule Suc.hyps(1)) (use d turn(7) Suc.prems(3) f Suc.hyps(2) low in auto)
  then obtain s' where s': "module_loop f mbi (of_nat (Suc n)) (md + 16) (field md 0 s1) s5 =
      Ret (if Suc n < c then field (md + 16 + of_nat (16 * (c - Suc n - 1))) 0 s0 else field md 0 s1, s')" "since (k + 4 + 4 * (c - Suc n)) s0 s'"
    by blast
  have val: "(if Suc n < c then field (md + 16 + of_nat (16 * (c - Suc n - 1))) 0 s0 else field md 0 s1) = field (md + of_nat (16 * (c - n - 1))) 0 s0"
  proof (cases "Suc n < c")
    case True
    then have "16 * (c - n - 1) = 16 + 16 * (c - Suc n - 1)" by simp
    then have "of_nat (16 * (c - n - 1)) = (16 + of_nat (16 * (c - Suc n - 1)) :: u32)" by (metis of_nat_add of_nat_numeral)
    with True show ?thesis by (simp only: if_True add.assoc)
  next
    case False
    with d show ?thesis using start by simp
  qed
  have "module_loop fuel mbi (of_nat n) md temp s = module_loop f mbi (of_nat (Suc n)) (md + 16) (field md 0 s1) s5"
    unfolding f(1) module_loop.simps using lt turn(1-5) by (simp only: if_True obind.simps Let_def) (simp add: add.commute)
  moreover have "since (k + 4 * (c - n)) s0 s'" using s'(2) d by (metis Suc_diff_Suc add.assoc mult_Suc_right)
  ultimately show ?case using s'(1) d(1) unfolding val by (intro exI[of _ s']) (simp only: if_True simp_thms)
qed

text \<open>A memory map whose entries lead from \<open>a\<close> to the end in at most \<open>n\<close> steps, all below the screen.\<close>

fun map_ends :: "nat \<Rightarrow> u32 \<Rightarrow> u32 \<Rightarrow> 'a machine_scheme \<Rightarrow> bool" where
  "map_ends 0 a bound s \<longleftrightarrow> \<not> a < bound"
| "map_ends (Suc n) a bound s \<longleftrightarrow> (a < bound \<longrightarrow> low a 24 \<and> map_ends n (a + field a 0 s + 4) bound s)"

abbreviation "map_format \<equiv> '' size = 0x%x,     base_addr = 0x%#x%#x\<newline>     type = 0x%x,  length    = 0x%#x%#x\<newline>''"

lemma map_format_ok: "fmt_ok (lit map_format) [Val a, Val b, Val c, Val d, Val e, Val f]" "newlines (lit map_format) = 2"
  by (simp_all add: lit_def is_newline_def)

lemma mmap_loop_ok:
  assumes mbi: "low mbi 52" and "since k s0 s" "k + 2 * fuel \<le> 900000"
    and "map_ends fuel a (field mbi 48 s0 + field mbi 44 s0) s0"
  shows "\<exists>s'. mmap_loop fuel mbi a s = Ret s' \<and> since (k + 2 * fuel) s0 s'"
  using assms(2-)
proof (induction fuel arbitrary: a k s)
  case 0
  then show ?case using since_field[OF "0.prems"(1) _ mbi] by simp
next
  case (Suc fuel)
  have f: "field mbi 48 s + field mbi 44 s = field mbi 48 s0 + field mbi 44 s0"
    using since_field[OF Suc.prems(1) _ mbi] Suc.prems(2) by simp
  show ?case
  proof (cases "a < field mbi 48 s0 + field mbi 44 s0")
    case False
    then show ?thesis using f since_mono[OF Suc.prems(1)] by simp
  next
    case True
    let ?args = "[Val (field a 0 s), Val (field a 8 s), Val (field a 4 s), Val (field a 20 s), Val (field a 16 s), Val (field a 12 s)]"
    obtain s1 where s1: "print map_format ?args s = Ret s1" "since (k + 2) s0 s1"
      using since_print[OF Suc.prems(1), of map_format ?args 2] map_format_ok by auto
    have "low a 24" "map_ends fuel (a + field a 0 s0 + 4) (field mbi 48 s0 + field mbi 44 s0) s0" using Suc.prems(3) True by simp_all
    then obtain s' where "mmap_loop fuel mbi (a + field a 0 s1 + 4) s1 = Ret s'" "since (k + 2 + 2 * fuel) s0 s'"
      using Suc.IH[OF s1(2)] since_field[OF s1(2), of a 24 0] Suc.prems(2) by auto
    moreover have "mmap_loop (Suc fuel) mbi a s = mmap_loop fuel mbi (a + field a 0 s1 + 4) s1"
      using True f s1(1) by simp
    ultimately show ?thesis by (auto simp: add.assoc)
  qed
qed

definition map_ok :: "nat \<Rightarrow> u32 \<Rightarrow> 'a machine_scheme \<Rightarrow> bool" where
  "map_ok fuel mbi s \<longleftrightarrow> (CHECK_FLAG (field mbi 0 s) 6 \<longrightarrow> map_ends fuel (field mbi 48 s) (field mbi 48 s + field mbi 44 s) s)"

lemma print_sections_ok:
  assumes mbi: "low mbi 52" and s: "since k s0 s" "k + 2 + 2 * fuel \<le> 900000" and map: "map_ok fuel mbi s0"
  shows "\<exists>s'. print_sections fuel mbi s = Ret s' \<and> since (k + 2 + 2 * fuel) s0 s'"
proof -
  let ?f = "''elf_sec: num = %u, size = 0x%#x, addr = 0x%#x, shndx = 0x%#x\<newline>''"
  let ?args = "[Val (field mbi 28 s), Val (field mbi 32 s), Val (field mbi 36 s), Val (field mbi 40 s)]"
  obtain s1 where s1: "(if CHECK_FLAG (field mbi 0 s) 5 then print ?f ?args s else Ret s) = Ret s1" "since (k + 1) s0 s1"
    using optional_print[OF s(1), of "CHECK_FLAG (field mbi 0 s) 5" ?f ?args 1] by (auto simp: lit_def is_newline_def)
  show ?thesis
  proof (cases "CHECK_FLAG (field mbi 0 s1) 6")
    case False
    with s1 since_mono[OF s1(2), of "k + 2 + 2 * fuel"] show ?thesis by (simp add: print_sections_def)
  next
    case True
    let ?g = "''mmap_addr = 0x%#x, mmap_length = 0x%x\<newline>''" and ?as = "[Val (field mbi 48 s1), Val (field mbi 44 s1)]"
    obtain s2 where s2: "print ?g ?as s1 = Ret s2" "since (k + 1 + 1) s0 s2"
      using since_print[OF s1(2), of ?g ?as 1] by (auto simp: lit_def is_newline_def)
    have "map_ends fuel (field mbi 48 s2) (field mbi 48 s0 + field mbi 44 s0) s0"
      using True map since_field[OF s1(2) _ mbi] since_field[OF s2(2) _ mbi] s(2) by (simp add: map_ok_def)
    then obtain s' where "mmap_loop fuel mbi (field mbi 48 s2) s2 = Ret s'" "since (k + 1 + 1 + 2 * fuel) s0 s'"
      using mmap_loop_ok[OF mbi s2(2)] s(2) by auto
    moreover have "k + 1 + 1 + 2 * fuel = k + 2 + 2 * fuel" by simp
    ultimately show ?thesis using True s1(1) s2(1) by (auto simp: print_sections_def)
  qed
qed

definition mods_ok :: "nat \<Rightarrow> u32 \<Rightarrow> 'a machine_scheme \<Rightarrow> bool" where
  "mods_ok fuel mbi s \<longleftrightarrow> CHECK_FLAG (field mbi 0 s) 3 \<and> 0 < unat (field mbi 20 s) \<and> unat (field mbi 20 s) \<le> fuel \<and>
     low (field mbi 24 s) (16 * unat (field mbi 20 s))"

definition last_module :: "u32 \<Rightarrow> 'a machine_scheme \<Rightarrow> u32" where
  "last_module mbi s = field (field mbi 24 s + 16 * (field mbi 20 s - 1)) 0 s"

lemma boot_info_ok:
  assumes s0: "s0 = clear s" and cur: "cursor_within 25 s" and mbi: "low mbi 52" and fuel: "fuel < 10000"
    and info: "cmdline_ok mbi s0" "mods_ok fuel mbi s0" "map_ok fuel mbi s0"
      "\<not> (CHECK_FLAG (field mbi 0 s0) 4 \<and> CHECK_FLAG (field mbi 0 s0) 5)"
  shows "\<exists>s'. boot_info fuel MULTIBOOT_BOOTLOADER_MAGIC mbi temp s = Ret (Some (last_module mbi s0), s') \<and> since 100000 s0 s'"
proof -
  have "cursor_within 25 s0" using cur by (simp add: s0 clear_def cursor_within_def)
  then have start: "since 0 s0 s0" by (simp add: since_def)
  obtain s1 where s1: "print_header mbi s0 = Ret s1" "since 5000 s0 s1" using print_header_ok[OF start mbi info(1)] by blast
  let ?c = "unat (field mbi 20 s0)"
  have f1: "field mbi off s1 = field mbi off s0" if "unat off \<le> 48" for off using since_field[OF s1(2) _ mbi] that by simp
  obtain s2 where s2: "module_loop fuel mbi 0 (field mbi 24 s1) temp s1 = Ret (field (field mbi 24 s0 + of_nat (16 * (?c - 1))) 0 s0, s2)"
      "since (5000 + 4 * ?c) s0 s2"
    using module_loop_ok[OF mbi, of s0 ?c "field mbi 24 s1" 0 5000 s1 fuel temp] info(2) fuel s1(2) f1[of 24]
    by (auto simp: mods_ok_def)
  have "(of_nat (16 * (?c - 1)) :: u32) = 16 * (field mbi 20 s0 - 1)"
    using info(2) by (simp add: mods_ok_def of_nat_diff)
  then have temp: "field (field mbi 24 s0 + of_nat (16 * (?c - 1))) 0 s0 = last_module mbi s0" by (simp add: last_module_def)
  have c: "?c \<le> 10000" using info(2) fuel by (simp add: mods_ok_def)
  have f2: "field mbi 0 s2 = field mbi 0 s0" using since_field[OF s2(2) _ mbi, of 0] c by simp
  obtain s3 where s3: "print_sections fuel mbi s2 = Ret s3" "since (5000 + 4 * ?c + 2 + 2 * fuel) s0 s3"
    using print_sections_ok[OF mbi s2(2) _ info(3)] c fuel by auto
  have "boot_info fuel MULTIBOOT_BOOTLOADER_MAGIC mbi temp s = Ret (Some (last_module mbi s0), s3)"
    unfolding boot_info_def Let_def s0[symmetric] using s1(1) s2(1) s3(1) info(2,4) f1[of 0] f2 temp by (auto simp: mods_ok_def)
  with since_mono[OF s3(2)] c fuel show ?thesis by auto
qed

section \<open>The set up machine\<close>

lemma enable_irq_io: "\<exists>evs. enable_irq dev 8 (enable_irq dev 1 s) = s\<lparr>io := evs\<rparr>"
  using enable_master[of 1 dev s] enable_slave[of 8 dev "enable_irq dev 1 s"] enable_master[of 2 dev "enable_irq dev 1 s"]
  by (simp add: outb_def) (rule exI, rule refl)

lemma irq_enabled_out: "p \<notin> {PIC1_DATA, PIC2_DATA} \<Longrightarrow> irq_enabled (Out p v # evs) k = irq_enabled evs k"
  by (simp add: irq_enabled_def)

lemma irq_enabled_clear: "irq_enabled (io (clear s)) k = irq_enabled (io s) k"
  by (simp add: clear_def update_cursor_def Let_def outb_def irq_enabled_out)

lemma irq_enabled_PIT: "irq_enabled (io (init_PIT 100 s)) k = irq_enabled (io s) k"
  using init_PIT_divisor[of 100 s] by (auto simp: irq_enabled_out)

text \<open>After the controller is set up, of its 16 lines the keyboard's, the slave's and the clock's are open.\<close>

lemma boot_irqs:
  assumes "mask_latch dev" "k < 16"
  shows "irq_enabled (io (enable_irq dev 8 (enable_irq dev 1 (s\<lparr>io := io (i8259_init s0)\<rparr>)))) k \<longleftrightarrow> k \<in> {1, 2, 8}"
proof -
  let ?s = "s\<lparr>io := io (i8259_init s0)\<rparr>"
  have i: "pic_ready (io ?s)" "\<not> irq_enabled (io ?s) k" using i8259_init_masks[of s0 k] assms(2) by simp_all
  have one: "pic_ready (io (enable_irq dev 1 ?s))" "irq_enabled (io (enable_irq dev 1 ?s)) k \<longleftrightarrow> k = 1"
    using enable_irq_spec[OF assms(1) i(1), of 1] i(2) assms(2) by simp_all
  then show ?thesis using enable_irq_spec[OF assms(1) one(1), of 8] assms(2) by auto
qed

definition ready :: "layout \<Rightarrow> device \<Rightarrow> u32 \<Rightarrow> 'a boot_scheme \<Rightarrow> bool" where
  "ready lo dev temp s \<longleftrightarrow> booted s \<and> tables_ok (table_addr lo) s \<and> cr0 s AND PAGING_EN \<noteq> 0 \<and>
     idt s = idt_initialize (linkage_addr lo) (junk_gate lo) blank_idt \<and> bootHead s = temp \<and>
     tss_esp0 s = 0x800000 \<and> old_terminal s = 0 \<and> map active (terminals s) = [1, 0, 0] \<and> tasks s = [Some 0, None, None] \<and>
     (mask_latch dev \<longrightarrow> (\<forall>k<16. irq_enabled (io s) k \<longleftrightarrow> k \<in> {1, 2, 8}))"

text \<open>The state before boot, as the kernel's initialised data has it.\<close>

definition power_on :: "'a boot_scheme \<Rightarrow> bool" where
  "power_on s \<longleftrightarrow> openTasks s = replicate 7 (-1) \<and> newterminal_flag s = 0 \<and> idt s = blank_idt \<and>
     tasks s = [None, None, None] \<and> current_task_idx s = 0 \<and> length (terminals s) = 3"

lemma terminal_init_state:
  assumes "length (terminals s) = 3"
  shows "\<exists>s'. terminal_init s = Ret s' \<and> s' = s\<lparr>old_terminal := 0, mem := mem s', terminals := terminals s'\<rparr> \<and>
    length (terminals s') = 3 \<and> map active (terminals s') = [1, 0, 0] \<and> (\<forall>t\<in>set (terminals s'). buffer_i t = 0)"
proof -
  obtain a b c where "terminals s = [a, b, c]" using assms by (auto simp: length_Suc_conv numeral_eq_Suc)
  moreover obtain n :: nat where n: "2000 = n" by blast
  moreover have "[0..<3] = [0, Suc 0, 2]" by (simp add: upt_rec)
  ultimately show ?thesis unfolding terminal_init_def n by (simp add: get_term_buffer_def)
qed

lemma tables_ok_cong:
  "page_directories s = page_directories s' \<Longrightarrow> page1_tables s = page1_tables s' \<Longrightarrow> tables_ok pt s = tables_ok pt s'"
  by (simp add: tables_ok_def)

lemma boot_devices_fields:
  fixes lo :: layout and dev :: device and temp :: u32
  assumes on: "power_on s"
  defines "s6 \<equiv> boot_devices lo dev temp s"
  shows "openTasks s6 = replicate 7 (-1)" "newterminal_flag s6 = 0" "idt s6 = idt_initialize (linkage_addr lo) (junk_gate lo) blank_idt"
    "tasks s6 = [None, None, None]" "current_task_idx s6 = 0" "length (terminals s6) = 3" "bootHead s6 = temp" "tss_esp0 s6 = 0x800000"
    "cr3 s6 = Page_directory 0" "cr0 s6 AND PAGING_EN \<noteq> 0" "tables_ok (table_addr lo) s6"
    "mask_latch dev \<Longrightarrow> k < 16 \<Longrightarrow> irq_enabled (io s6) k \<longleftrightarrow> k \<in> {1, 2, 8}"
proof -
  define s2 where "s2 = s\<lparr>ldt_desc := the_ldt_desc lo, ldtr := KERNEL_LDT, tss_desc := the_tss_desc lo,
    tss_ldt_segment_selector := KERNEL_LDT, tss_ss0 := KERNEL_DS, tss_esp0 := 0x800000, tr := KERNEL_TSS\<rparr>"
  define s3 where "s3 = paging_initialize (table_addr lo) (i8259_init s2)"
  define s4 where "s4 = s3\<lparr>idt := idt_initialize (linkage_addr lo) (junk_gate lo) (idt s3)\<rparr>"
  obtain evs where evs: "enable_irq dev 8 (enable_irq dev 1 s4) = s4\<lparr>io := evs\<rparr>" using enable_irq_io by blast
  have s6: "s6 = s4\<lparr>io := evs, bootHead := temp, currentDirIndex := 0\<rparr>"
    using evs by (simp add: s6_def boot_devices_def Let_def init_bootBlock_address_def s2_def s3_def s4_def)
  have "\<exists>e. i8259_init s2 = s2\<lparr>master_mask := 0xFF, slave_mask := 0xFF, io := e\<rparr>"
    by (simp add: i8259_init_def Let_def outb_def) (rule exI, rule refl)
  then obtain e3 where pic: "i8259_init s2 = s2\<lparr>master_mask := 0xFF, slave_mask := 0xFF, io := e3\<rparr>" by blast
  show "openTasks s6 = replicate 7 (-1)" "newterminal_flag s6 = 0" "idt s6 = idt_initialize (linkage_addr lo) (junk_gate lo) blank_idt"
    "tasks s6 = [None, None, None]" "current_task_idx s6 = 0" "length (terminals s6) = 3" "bootHead s6 = temp" "tss_esp0 s6 = 0x800000"
    "cr3 s6 = Page_directory 0" "cr0 s6 AND PAGING_EN \<noteq> 0"
    unfolding s6 s4_def s3_def paging_initialize_def pic using on by (simp_all add: s2_def power_on_def bit.conj_disj_distrib2)
  show "tables_ok (table_addr lo) s6"
    using paging_initialize_ok[of "table_addr lo" "i8259_init s2"] tables_ok_cong[of s6 s3] by (simp add: s6 s4_def s3_def)
  have io4: "io s4 = io (i8259_init s2)" by (simp add: s4_def s3_def paging_initialize_def)
  then have "s4\<lparr>io := io (i8259_init s2)\<rparr> = s4" by (simp add: io4[symmetric])
  then show "irq_enabled (io s6) k \<longleftrightarrow> k \<in> {1, 2, 8}" if "mask_latch dev" "k < 16"
    using boot_irqs[OF that, of s2 s4] evs by (simp add: s6)
qed

lemma boot_setup_ready:
  assumes on: "power_on s"
  shows "\<exists>s'. boot_setup lo dev temp s = Ret s' \<and> ready lo dev temp s'"
proof -
  let ?s6 = "boot_devices lo dev temp s"
  note f6 = boot_devices_fields[OF on, where lo = lo and dev = dev and temp = temp]
  obtain m7 ts where s7: "terminal_init ?s6 = Ret (?s6\<lparr>old_terminal := 0, mem := m7, terminals := ts\<rparr>)" "map active ts = [1, 0, 0]"
    using terminal_init_state[OF f6(6)] by fastforce
  let ?s7 = "?s6\<lparr>old_terminal := 0, mem := m7, terminals := ts\<rparr>"
  obtain m8 e8 x8 y8 where s8: "clear ?s7 = ?s7\<lparr>mem := m8, io := e8, screen_x := x8, screen_y := y8\<rparr>"
    using console_step_ops(4)[of ?s7] unfolding console_step_def by blast
  define s9 where "s9 = ?s7\<lparr>mem := m8, io := e8, screen_x := x8, screen_y := y8, tasks := [Some 0, None, None]\<rparr>"
  have add: "add_task_to_queue (Some 0) (clear ?s7) = s9"
    unfolding s8 s9_def using f6(4,5) by (simp add: add_task_to_queue_def queue_order_def upt_rec first_free.simps)
  have "\<exists>e. init_PIT 100 s9 = s9\<lparr>io := e\<rparr>" by (simp add: init_PIT_def Let_def outb_def) (rule exI, rule refl)
  then obtain e10 where s10: "init_PIT 100 s9 = s9\<lparr>io := e10\<rparr>" by blast
  have "boot_setup lo dev temp s = Ret (s9\<lparr>io := e10\<rparr>)"
    using s7(1) add by (simp add: boot_setup_def s10)
  moreover have "irq_enabled e10 k = irq_enabled (io ?s6) k" for k
    using irq_enabled_PIT[of s9 k] irq_enabled_clear[of ?s7 k] s10 s8 by (simp add: s9_def)
  moreover have "tables_ok (table_addr lo) (s9\<lparr>io := e10\<rparr>)" using f6(11) tables_ok_cong[of "s9\<lparr>io := e10\<rparr>" ?s6] by (simp add: s9_def)
  ultimately show ?thesis using f6(1-10,12) s7(2)
    by (intro exI[of _ "s9\<lparr>io := e10\<rparr>"]) (auto simp: ready_def booted_def s9_def)
qed

section \<open>Properties\<close>

text \<open>What the boot loader must pass: a structure below the screen that names at least one module.\<close>

definition bootable :: "nat \<Rightarrow> u32 \<Rightarrow> 'a console_scheme \<Rightarrow> bool" where
  "bootable fuel mbi s \<longleftrightarrow> low mbi 52 \<and> cmdline_ok mbi s \<and> mods_ok fuel mbi s \<and> map_ok fuel mbi s \<and>
     \<not> (CHECK_FLAG (field mbi 0 s) 4 \<and> CHECK_FLAG (field mbi 0 s) 5)"

lemma printed_power_on: "printed k s s' \<Longrightarrow> power_on s' = power_on s"
proof -
  assume "printed k s s'"
  then have "console_step s s'" by (rule printed_step)
  then obtain m e x y where "s' = s\<lparr>mem := m, io := e, screen_x := x, screen_y := y\<rparr>"
    unfolding console_step_def by blast
  then show ?thesis by (simp add: power_on_def)
qed

lemma clear_power_on: "power_on (clear s) = power_on s"
proof -
  obtain m e x y where "clear s = s\<lparr>mem := m, io := e, screen_x := x, screen_y := y\<rparr>"
    using console_step_ops(4)[of s] unfolding console_step_def by blast
  then show ?thesis by (simp add: power_on_def)
qed

text \<open>
  C11: booted by a multiboot loader whose information names a module, \<open>entry\<close> comes to call \<open>execute\<close> of the
  shell, with the machine ready for it: the kernel's page directory loaded, every program slot free, the page tables and the
  interrupt table as \<open>paging_initialize\<close> and \<open>idt_initialize\<close> make them, the file system at the address of the last
  module, the first terminal active and in the run queue, and the keyboard's and the clock's interrupt lines open and no other
  but the slave's; the timer's stays masked, so that the scheduler never runs. Fuel for as many turns as there are modules
  and memory map entries is enough.
\<close>

theorem entry_starts_shell:
  assumes "power_on s" "cursor_within 25 s" "fuel < 10000" "bootable fuel addr (clear s)"
  shows "\<exists>s'. ready lo (env_dev env) (last_module addr (clear s)) s' \<and>
    (\<forall>t s3. execute env (Some (lit ''shell'')) s' = Ret (t, s3) \<longrightarrow>
       (\<exists>s4. entry fuel lo env MULTIBOOT_BOOTLOADER_MAGIC addr s =
          Ret (if t = Return_error then Boot_idle else Boot_shell t, s4) \<and> (t \<noteq> Return_error \<longrightarrow> s4 = s3)))"
proof -
  obtain s1 where s1: "boot_info fuel MULTIBOOT_BOOTLOADER_MAGIC addr (junk_temp lo) s = Ret (Some (last_module addr (clear s)), s1)"
      "since 100000 (clear s) s1"
    using boot_info_ok[OF refl assms(2) _ assms(3), of addr "junk_temp lo"] assms(4) unfolding bootable_def by blast
  then have "power_on s1" using printed_power_on[of 100000 "clear s" s1] clear_power_on assms(1) by (auto simp: since_def)
  then obtain s' where s': "boot_setup lo (env_dev env) (last_module addr (clear s)) s1 = Ret s'"
      "ready lo (env_dev env) (last_module addr (clear s)) s'"
    using boot_setup_ready by blast
  have "\<exists>s4. entry fuel lo env MULTIBOOT_BOOTLOADER_MAGIC addr s =
      Ret (if t = Return_error then Boot_idle else Boot_shell t, s4) \<and> (t \<noteq> Return_error \<longrightarrow> s4 = s3)"
    if "execute env (Some (lit ''shell'')) s' = Ret (t, s3)" for t s3
  proof -
    obtain s4 where "print ''effffff left shell\<newline>'' [] s3 = Ret s4"
      using print_ok[of "''effffff left shell\<newline>''" "[]" s3] by (auto simp: lit_def)
    then show ?thesis using s1(1) s'(1) that by (cases "t = Return_error") (auto simp: entry_def)
  qed
  with s'(2) show ?thesis by blast
qed

text \<open>A machine with a module at 0x410000 announced at 0x9000.\<close>

definition demo_boot :: boot where
  "demo_boot = kernel.extend (demo_kernel\<lparr>openTasks := replicate 7 (-1), tasks := [None, None, None], current_task_idx := 0,
       mem := (\<lambda>_. 0)(0x9000 := 8, 0x9014 := 1, 0x9019 := 0x91, 0x9102 := 0x41)\<rparr>)
     (boot.fields (seg_desc.make 0 0 0 0 0 0 0 0 0 0 0 0 0) (seg_desc.make 0 0 0 0 0 0 0 0 0 0 0 0 0) 0 0 0 blank_idt)"

definition demo_layout :: layout where
  "demo_layout = layout.make 0x405000 0x406000 (\<lambda>_. 0x401000) demo_tables (seg_desc.make 0 0 0 0 0 0 0 0 0 0 0 0 0)
     (idt_desc.make 0 0 0 0 0 0 0 0 0 0 0) 0"

definition demo_boot_env :: "unit boot_ext env" where
  "demo_boot_env = \<lparr>env_dev = latched, env_ticks = [], env_irqs = [], env_junk = replicate 40 0, env_esp = 0, env_ebp = 0, env_tables = demo_tables\<rparr>"

lemma demo_boot_on: "power_on demo_boot" "cursor_within 25 demo_boot"
  using demo_kernel_kbd(1) by (simp_all add: demo_boot_def kernel.defs boot.defs power_on_def cursor_within_def term_wf_def
    demo_kernel_def kbd.defs demo_kbd_def demo_sched_def sched.defs paging.defs demo_paging_def rtc.defs demo_rtc_def pic.defs demo_pic_def fs.defs demo_fs_def)

lemma demo_boot_fields:
  "field 0x9000 0 (clear demo_boot) = 8" "field 0x9000 20 (clear demo_boot) = 1" "field 0x9000 24 (clear demo_boot) = 0x9100"
  "field 0x9100 0 (clear demo_boot) = 0x410000"
proof -
  have m: "mem demo_boot = (\<lambda>_. 0)(0x9000 := 8, 0x9014 := 1, 0x9019 := 0x91, 0x9102 := 0x41)"
    by (simp add: demo_boot_def kernel.defs)
  have "mem (clear demo_boot) a = mem demo_boot a" if "a < VIDEO" for a
    using vid_above[OF _ _ that] by (intro clear_screen(3)) (fastforce simp: vid_range)
  then show "field 0x9000 0 (clear demo_boot) = 8" "field 0x9000 20 (clear demo_boot) = 1"
    "field 0x9000 24 (clear demo_boot) = 0x9100" "field 0x9100 0 (clear demo_boot) = 0x410000"
    unfolding field_def le32_def by (simp_all add: m)
qed

lemma demo_bootable: "bootable 1 0x9000 (clear demo_boot)" "last_module 0x9000 (clear demo_boot) = 0x410000"
  by (simp_all add: bootable_def low_def cmdline_ok_def mods_ok_def map_ok_def CHECK_FLAG_def demo_boot_fields last_module_def)

theorem entry_starts_shell_witness:
  "\<exists>s'. ready demo_layout latched 0x410000 s' \<and>
     (\<forall>t s3. execute demo_boot_env (Some (lit ''shell'')) s' = Ret (t, s3) \<longrightarrow>
       (\<exists>s4. entry 1 demo_layout demo_boot_env
          MULTIBOOT_BOOTLOADER_MAGIC 0x9000 demo_boot = Ret (if t = Return_error then Boot_idle else Boot_shell t, s4)))"
  using entry_starts_shell[OF demo_boot_on, of 1 "0x9000" demo_layout demo_boot_env]
    demo_bootable by (auto simp: demo_boot_env_def[THEN arg_cong, of env_dev])

text \<open>
  \<open>entry\<close> refuses a boot loader that does not announce itself as multiboot compliant: nothing but the
  screen is touched.
\<close>

lemma entry_refuses:
  assumes "magic \<noteq> MULTIBOOT_BOOTLOADER_MAGIC"
  shows "\<exists>s'. entry fuel lo env magic addr s = Ret (Boot_refused, s') \<and> console_step s s'"
proof -
  obtain s' where "print ''Invalid magic number: 0x%#x\<newline>'' [Val magic] (clear s) = Ret s'" "printed 1 (clear s) s'"
    using print_ok[of "''Invalid magic number: 0x%#x\<newline>''" "[Val magic]" "clear s"] by (auto simp: lit_def is_newline_def)
  moreover have "console_step s s'"
    using console_step_trans[OF console_step_ops(4) printed_step[OF calculation(2)]] .
  ultimately show ?thesis using assms by (auto simp: entry_def boot_info_def)
qed

lemma entry_refuses_witness:
  "\<exists>s'. entry 1 demo_layout demo_boot_env 0x1BADB002 0x9000 demo_boot = Ret (Boot_refused, s') \<and> console_step demo_boot s'"
  using entry_refuses[of "0x1BADB002" 1 demo_layout demo_boot_env "0x9000" demo_boot] by simp

end
