(* ===== verification/Descriptors.thy ===== *)
theory Descriptors
  imports Boot
begin

unbundle bit_operations_syntax

text \<open>
  The descriptor tables as the processor reads them: the packed structures of \<open>x86_desc.h\<close> as bytes and bits, the global descriptor
  table of \<open>x86_desc.S\<close> with the two entries that \<open>entry\<close> fills in, and what the selectors of the code select in it.
\<close>

section \<open>The task state segment\<close>

record tss_t =
  prev_task_link :: u16
  prev_task_link_pad :: u16
  esp0 :: u32
  ss0 :: u16
  ss0_pad :: u16
  esp1 :: u32
  ss1 :: u16
  ss1_pad :: u16
  esp2 :: u32
  ss2 :: u16
  ss2_pad :: u16
  tss_cr3 :: u32
  tss_eip :: u32
  tss_eflags :: u32
  tss_eax :: u32
  tss_ecx :: u32
  tss_edx :: u32
  tss_ebx :: u32
  tss_esp :: u32
  tss_ebp :: u32
  tss_esi :: u32
  tss_edi :: u32
  tss_es :: u16
  es_pad :: u16
  tss_cs :: u16
  cs_pad :: u16
  tss_ss :: u16
  ss_pad :: u16
  tss_ds :: u16
  ds_pad :: u16
  tss_fs :: u16
  fs_pad :: u16
  tss_gs :: u16
  gs_pad :: u16
  ldt_segment_selector :: u16
  ldt_pad :: u16
  debug_trap :: "1 word"
  io_pad :: "15 word"
  io_base_addr :: u16

text \<open>The bytes of the packed structure.\<close>

definition bytes16 :: "u16 \<Rightarrow> u8 list" where
  "bytes16 w = [ucast w, ucast (drop_bit 8 w)]"

definition bytes32 :: "u32 \<Rightarrow> u8 list" where
  "bytes32 w = [ucast w, ucast (drop_bit 8 w), ucast (drop_bit 16 w), ucast (drop_bit 24 w)]"

definition tss_bytes :: "tss_t \<Rightarrow> u8 list" where
  "tss_bytes t = bytes16 (prev_task_link t) @ bytes16 (prev_task_link_pad t) @
     bytes32 (esp0 t) @ bytes16 (ss0 t) @ bytes16 (ss0_pad t) @ bytes32 (esp1 t) @ bytes16 (ss1 t) @ bytes16 (ss1_pad t) @
     bytes32 (esp2 t) @ bytes16 (ss2 t) @ bytes16 (ss2_pad t) @ bytes32 (tss_cr3 t) @ bytes32 (tss_eip t) @ bytes32 (tss_eflags t) @
     bytes32 (tss_eax t) @ bytes32 (tss_ecx t) @ bytes32 (tss_edx t) @ bytes32 (tss_ebx t) @ bytes32 (tss_esp t) @ bytes32 (tss_ebp t) @
     bytes32 (tss_esi t) @ bytes32 (tss_edi t) @ bytes16 (tss_es t) @ bytes16 (es_pad t) @ bytes16 (tss_cs t) @ bytes16 (cs_pad t) @
     bytes16 (tss_ss t) @ bytes16 (ss_pad t) @ bytes16 (tss_ds t) @ bytes16 (ds_pad t) @ bytes16 (tss_fs t) @ bytes16 (fs_pad t) @
     bytes16 (tss_gs t) @ bytes16 (gs_pad t) @ bytes16 (ldt_segment_selector t) @ bytes16 (ldt_pad t) @
     bytes16 (ucast (debug_trap t) OR push_bit 1 (ucast (io_pad t))) @ bytes16 (io_base_addr t)"

text \<open>The segment of the running kernel: the assembler reserves zeros, and the code sets three members.\<close>

definition the_tss :: "'a boot_scheme \<Rightarrow> tss_t" where
  "the_tss s = (tss_t.make 0 0 0 0 0 0 0 0 0 0 0 0 0 0 0 0 0 0 0 0 0 0 0 0 0 0 0 0 0 0 0 0 0 0 0 0 0 0 0)
     \<lparr>esp0 := tss_esp0 s, ss0 := ucast (tss_ss0 s), ldt_segment_selector := tss_ldt_segment_selector s\<rparr>"

text \<open>What the processor reads from a structure in memory, at the offsets its manual fixes.\<close>

definition read16 :: "u8 list \<Rightarrow> nat \<Rightarrow> u16" where
  "read16 b k = ucast (b ! k) OR push_bit 8 (ucast (b ! (k + 1)))"

definition read32 :: "u8 list \<Rightarrow> nat \<Rightarrow> u32" where
  "read32 b k = ucast (b ! k) OR push_bit 8 (ucast (b ! (k + 1))) OR push_bit 16 (ucast (b ! (k + 2))) OR push_bit 24 (ucast (b ! (k + 3)))"

section \<open>Segment descriptors\<close>

definition gdt_quad :: "seg_desc \<Rightarrow> 64 word" where
  "gdt_quad d = ucast (seg_lim_15_00 d) OR push_bit 16 (ucast (base_15_00 d)) OR push_bit 32 (ucast (base_23_16 d)) OR
     push_bit 40 (ucast (seg_type d)) OR push_bit 44 (ucast (sys d)) OR push_bit 45 (ucast (seg_dpl d)) OR push_bit 47 (ucast (seg_present d)) OR
     push_bit 48 (ucast (seg_lim_19_16 d)) OR push_bit 52 (ucast (avail d)) OR push_bit 53 (ucast (seg_reserved d)) OR
     push_bit 54 (ucast (opsize d)) OR push_bit 55 (ucast (granularity d)) OR push_bit 56 (ucast (base_31_24 d))"

text \<open>The table of \<open>x86_desc.S\<close>, with the entries for the task state segment and the local table.\<close>

definition gdt :: "seg_desc \<Rightarrow> seg_desc \<Rightarrow> 64 word list" where
  "gdt tss_d ldt_d = [0, 0, 0x00CF9A000000FFFF, 0x00CF92000000FFFF, 0x00CFFA000000FFFF, 0x00CFF2000000FFFF, gdt_quad tss_d, gdt_quad ldt_d]"

text \<open>How the processor takes a descriptor apart.\<close>

definition quad_base :: "64 word \<Rightarrow> u32" where
  "quad_base q = ucast (drop_bit 16 q AND 0xFFFFFF) OR push_bit 24 (ucast (drop_bit 56 q))"

definition quad_limit :: "64 word \<Rightarrow> u32" where
  "quad_limit q = (let l = ucast (q AND 0xFFFF) OR push_bit 16 (ucast (drop_bit 48 q AND 0xF))
     in if bit q 55 then push_bit 12 l OR 0xFFF else l)"

definition quad_type :: "64 word \<Rightarrow> 5 word" where
  "quad_type q = ucast (drop_bit 40 q)"

definition quad_dpl :: "64 word \<Rightarrow> 2 word" where
  "quad_dpl q = ucast (drop_bit 45 q)"

definition select :: "64 word list \<Rightarrow> u16 \<Rightarrow> 64 word" where
  "select table sel = table ! unat (drop_bit 3 sel)"

section \<open>Layout\<close>

lemma length_bytes [simp]: "length (bytes16 w) = 2" "length (bytes32 v) = 4"
  by (simp_all add: bytes16_def bytes32_def)

lemma word_of_bytes: "ucast (ucast v :: u8) OR push_bit 8 (ucast (ucast (drop_bit 8 v) :: u8)) OR push_bit 16 (ucast (ucast (drop_bit 16 v) :: u8)) OR
    push_bit 24 (ucast (ucast (drop_bit 24 v) :: u8)) = v" for v :: u32
proof (rule bit_word_eqI)
  fix n
  assume "n < LENGTH(32)"
  then consider "n < 8" | "8 \<le> n \<and> n < 16" | "16 \<le> n \<and> n < 24" | "24 \<le> n \<and> n < 32" by fastforce
  then show "bit (ucast (ucast v :: u8) OR push_bit 8 (ucast (ucast (drop_bit 8 v) :: u8)) OR push_bit 16 (ucast (ucast (drop_bit 16 v) :: u8)) OR
      push_bit 24 (ucast (ucast (drop_bit 24 v) :: u8)) :: u32) n = bit v n"
    by cases (auto simp: bit_simps less_diff_conv2)
qed

lemma word_of_bytes16: "ucast (ucast w :: u8) OR push_bit 8 (ucast (ucast (drop_bit 8 w) :: u8)) = w" for w :: u16
  by (rule bit_word_eqI) (auto simp: bit_simps)

lemma read_bytes: "read16 (bytes16 w @ r) 0 = w" "read32 (bytes32 v @ r) 0 = v"
proof -
  show "read16 (bytes16 w @ r) 0 = w"
    by (simp add: read16_def bytes16_def word_of_bytes16)
  show "read32 (bytes32 v @ r) 0 = v" using word_of_bytes[of v] by (simp add: read32_def bytes32_def numeral_2_eq_2 numeral_3_eq_3)
qed

lemma read_skip: "read16 (a @ b) (length a + k) = read16 b k" "read32 (a @ b) (length a + k) = read32 b k"
  by (simp_all add: read16_def read32_def nth_append)

lemma tss_layout:
  "length (tss_bytes t) = 104" "read32 (tss_bytes t) 4 = esp0 t" "read16 (tss_bytes t) 8 = ss0 t" "read32 (tss_bytes t) 28 = tss_cr3 t"
  "read16 (tss_bytes t) 96 = ldt_segment_selector t" "read16 (tss_bytes t) 102 = io_base_addr t"
proof -
  show "length (tss_bytes t) = 104" by (simp add: tss_bytes_def)
  have skip16: "read16 (a @ bytes16 w @ r) (length a) = w" for a w r using read_skip(1)[of a _ 0] read_bytes(1) by simp
  have skip32: "read32 (a @ bytes32 w @ r) (length a) = w" for a w r using read_skip(2)[of a _ 0] read_bytes(2) by simp
  show "read32 (tss_bytes t) 4 = esp0 t" "read16 (tss_bytes t) 8 = ss0 t"
    using skip32[of "bytes16 (prev_task_link t) @ bytes16 (prev_task_link_pad t)"]
      skip16[of "bytes16 (prev_task_link t) @ bytes16 (prev_task_link_pad t) @ bytes32 (esp0 t)"] by (simp_all add: tss_bytes_def)
  show "read32 (tss_bytes t) 28 = tss_cr3 t" "read16 (tss_bytes t) 96 = ldt_segment_selector t" "read16 (tss_bytes t) 102 = io_base_addr t"
    by (simp_all add: tss_bytes_def bytes16_def bytes32_def read16_def read32_def word_of_bytes word_of_bytes16)
qed

lemma bit_beyond: "LENGTH('a) \<le> n \<Longrightarrow> \<not> bit w n" for w :: "'a::len word"
  using bit_imp_le_length by fastforce

lemma quad_base_params: "quad_base (gdt_quad (SET_TSS_PARAMS d addr lim)) = addr"
proof -
  have "\<forall>n\<in>set [0..<32]. bit (quad_base (gdt_quad (SET_TSS_PARAMS d addr lim))) n = bit addr n"
    by (simp add: upt_rec quad_base_def gdt_quad_def SET_TSS_PARAMS_def bit_simps bit_beyond) (simp add: eval_nat_numeral)
  then show ?thesis by (intro bit_word_eqI) simp
qed

lemma quad_limit_params: "granularity d = 0 \<Longrightarrow> quad_limit (gdt_quad (SET_TSS_PARAMS d addr lim)) = take_bit 20 lim"
proof -
  assume g: "granularity d = 0"
  let ?q = "gdt_quad (SET_TSS_PARAMS d addr lim)"
  have fine: "\<not> bit ?q 55" using g by (simp add: gdt_quad_def SET_TSS_PARAMS_def bit_simps bit_beyond)
  have "\<forall>n\<in>set [0..<32]. bit (ucast (?q AND 0xFFFF) OR push_bit 16 (ucast (drop_bit 48 ?q AND 0xF)) :: u32) n = bit (take_bit 20 lim) n"
    by (simp add: upt_rec gdt_quad_def SET_TSS_PARAMS_def bit_simps bit_beyond) (simp add: eval_nat_numeral)
  then have "ucast (?q AND 0xFFFF) OR push_bit 16 (ucast (drop_bit 48 ?q AND 0xF)) = take_bit 20 lim" by (intro bit_word_eqI) simp
  then show ?thesis using fine by (simp add: quad_limit_def)
qed

lemma quad_access: "quad_type (gdt_quad d) = ucast (seg_type d) OR push_bit 4 (ucast (sys d))" "quad_dpl (gdt_quad d) = seg_dpl d"
proof -
  have "\<forall>n\<in>set [0..<5]. bit (quad_type (gdt_quad d)) n = bit (ucast (seg_type d) OR push_bit 4 (ucast (sys d)) :: 5 word) n"
    by (simp add: upt_rec quad_type_def gdt_quad_def bit_simps bit_beyond)
  then show "quad_type (gdt_quad d) = ucast (seg_type d) OR push_bit 4 (ucast (sys d))" by (intro bit_word_eqI) simp
  have "\<forall>n\<in>set [0..<2]. bit (quad_dpl (gdt_quad d)) n = bit (seg_dpl d) n"
    by (simp add: upt_rec quad_dpl_def gdt_quad_def bit_simps bit_beyond)
  then show "quad_dpl (gdt_quad d) = seg_dpl d" by (intro bit_word_eqI) simp
qed

section \<open>The tables after the set-up\<close>

abbreviation "USER_CS \<equiv> (0x23 :: u16)"
abbreviation "USER_DS \<equiv> (0x2B :: u16)"

text \<open>A flat segment: the whole address space, for code (type 26) or for data (type 18).\<close>

definition flat :: "5 word \<Rightarrow> 2 word \<Rightarrow> 64 word \<Rightarrow> bool" where
  "flat t p q \<longleftrightarrow> quad_base q = 0 \<and> quad_limit q = 0xFFFFFFFF \<and> quad_type q = t \<and> quad_dpl q = p"

lemma boot_devices_descriptors:
  fixes lo :: layout and dev :: device and temp :: u32 and s :: "'a boot_scheme"
  defines "s' \<equiv> boot_devices lo dev temp s"
  shows "tss_desc s' = the_tss_desc lo" "ldt_desc s' = the_ldt_desc lo" "tr s' = KERNEL_TSS" "ldtr s' = KERNEL_LDT"
    "tss_esp0 s' = 0x800000" "tss_ss0 s' = KERNEL_DS" "tss_ldt_segment_selector s' = KERNEL_LDT"
proof -
  have io: "\<exists>evs. enable_irq dev 8 (enable_irq dev 1 x) = x\<lparr>io := evs\<rparr>" for x :: "'a boot_scheme" using enable_irq_io by blast
  have pic: "\<exists>e. i8259_init x = x\<lparr>master_mask := 0xFF, slave_mask := 0xFF, io := e\<rparr>" for x :: "'a boot_scheme"
    by (simp add: i8259_init_def Let_def outb_def) (rule exI, rule refl)
  define s2 where "s2 = s\<lparr>ldt_desc := the_ldt_desc lo, ldtr := KERNEL_LDT, tss_desc := the_tss_desc lo,
    tss_ldt_segment_selector := KERNEL_LDT, tss_ss0 := KERNEL_DS, tss_esp0 := 0x800000, tr := KERNEL_TSS\<rparr>"
  obtain e where e: "i8259_init s2 = s2\<lparr>master_mask := 0xFF, slave_mask := 0xFF, io := e\<rparr>" using pic by blast
  define s4 where "s4 = (paging_initialize (table_addr lo) (i8259_init s2))
    \<lparr>idt := idt_initialize (linkage_addr lo) (junk_gate lo) (idt (paging_initialize (table_addr lo) (i8259_init s2)))\<rparr>"
  obtain evs where "enable_irq dev 8 (enable_irq dev 1 s4) = s4\<lparr>io := evs\<rparr>" using io by blast
  then have "s' = s4\<lparr>io := evs, bootHead := temp, currentDirIndex := 0\<rparr>"
    by (simp add: s'_def boot_devices_def Let_def init_bootBlock_address_def s2_def s4_def)
  then show "tss_desc s' = the_tss_desc lo" "ldt_desc s' = the_ldt_desc lo" "tr s' = KERNEL_TSS" "ldtr s' = KERNEL_LDT"
    "tss_esp0 s' = 0x800000" "tss_ss0 s' = KERNEL_DS" "tss_ldt_segment_selector s' = KERNEL_LDT"
    by (simp_all add: s4_def e paging_initialize_def) (simp_all add: s2_def)
qed

text \<open>
  C26: after the set-up of \<open>entry\<close> the processor finds what the code means it to. The task register selects the descriptor of an
  available task state segment at the address of \<open>tss\<close> with the limit 103, and the register of the local table the descriptor of
  \<open>ldt\<close> with the limit 31. In the 104 bytes of the segment, at the offsets the processor reads when a program enters the kernel,
  stand the stack pointer 8 MB and the kernel's data segment. The selectors of the code select flat segments whose privilege
  is that of the selector: 0 for the kernel's and 3 for the programs'.
\<close>

theorem descriptors_after_boot:
  "let s' = boot_devices lo dev temp s; g = gdt (tss_desc s') (ldt_desc s'); t = tss_bytes (the_tss s') in
    quad_base (select g (tr s')) = tss_addr lo \<and> quad_limit (select g (tr s')) = 103 \<and>
    quad_type (select g (tr s')) = 9 \<and> quad_dpl (select g (tr s')) = 0 \<and>
    quad_base (select g (ldtr s')) = ldt_addr lo \<and> quad_limit (select g (ldtr s')) = 31 \<and>
    quad_type (select g (ldtr s')) = 2 \<and> quad_dpl (select g (ldtr s')) = 0 \<and>
    length t = 104 \<and> read32 t 4 = 0x800000 \<and> read16 t 8 = ucast KERNEL_DS \<and> read16 t 96 = ldtr s' \<and>
    flat 26 0 (select g KERNEL_CS) \<and> flat 18 0 (select g (ucast KERNEL_DS)) \<and>
    flat 26 (ucast USER_CS) (select g USER_CS) \<and> flat 18 (ucast USER_DS) (select g USER_DS)"
proof -
  define s' where "s' = boot_devices lo dev temp s"
  define g where "g = gdt (tss_desc s') (ldt_desc s')"
  define t where "t = tss_bytes (the_tss s')"
  note b = boot_devices_descriptors[of lo dev temp s, folded s'_def]
  have quads: "select g (tr s') = gdt_quad (the_tss_desc lo)" "select g (ldtr s') = gdt_quad (the_ldt_desc lo)"
    by (simp_all add: g_def b gdt_def select_def)
  have tss: "quad_base (select g (tr s')) = tss_addr lo" "quad_limit (select g (tr s')) = 103"
    "quad_type (select g (tr s')) = 9" "quad_dpl (select g (tr s')) = 0"
    by (simp_all add: quads the_tss_desc_def quad_base_params quad_limit_params quad_access)
       (simp_all add: SET_TSS_PARAMS_def)
  have same: "SET_LDT_PARAMS = SET_TSS_PARAMS" by (intro ext) (simp add: SET_TSS_PARAMS_def SET_LDT_PARAMS_def)
  have ldt: "quad_base (select g (ldtr s')) = ldt_addr lo" "quad_limit (select g (ldtr s')) = 31"
    "quad_type (select g (ldtr s')) = 2" "quad_dpl (select g (ldtr s')) = 0"
    by (simp_all add: quads the_ldt_desc_def same quad_base_params quad_limit_params quad_access)
       (simp_all add: SET_TSS_PARAMS_def)
  have "length t = 104 \<and> read32 t 4 = 0x800000 \<and> read16 t 8 = ucast KERNEL_DS \<and> read16 t 96 = ldtr s'"
    by (simp add: t_def tss_layout the_tss_def tss_t.defs b)
  moreover have "flat 26 0 (select g KERNEL_CS) \<and> flat 18 0 (select g (ucast KERNEL_DS)) \<and>
    flat 26 (ucast USER_CS) (select g USER_CS) \<and> flat 18 (ucast USER_DS) (select g USER_DS)"
    by (simp add: g_def gdt_def select_def flat_def quad_base_def quad_limit_def quad_type_def quad_dpl_def)
  ultimately show ?thesis using tss ldt unfolding Let_def s'_def[symmetric] g_def[symmetric] t_def[symmetric] by blast
qed

end
