(* ===== verification/Programs.thy ===== *)
theory Programs
  imports Idt
begin

text \<open>
  The user programs of \<open>src/syscalls\<close>: the support library and the shell, \<open>cat\<close>, \<open>ls\<close>, \<open>grep\<close>,
  \<open>hello\<close>, \<open>testprint\<close>, \<open>counter\<close> and \<open>pingpong\<close>. A program is a function of the system calls
  it makes: the record \<open>calls\<close> holds what each does to the state of the system, \<open>kernel_calls\<close> fills it with
  the kernel's own. What a program passes to \<open>write\<close> is recorded in a log, descriptor and bytes. Arrays on the stack are arguments, with
  what they hold before the program sets them; an index behind an array is \<open>Undef\<close>. A loop
  without end gets fuel; running out of it gives \<open>None\<close>.
\<close>

section \<open>The support library\<close>

fun ece391_strlen :: "u8 list \<Rightarrow> nat outcome" where
  "ece391_strlen [] = Undef"
| "ece391_strlen (c # cs) = (if c \<noteq> 0 then obind (ece391_strlen cs) (\<lambda>n. Ret (Suc n)) else Ret 0)"

text \<open>\<open>ece391_strcpy\<close> from offset \<open>src\<close> to offset \<open>dst\<close> of one object.\<close>

function ece391_strcpy :: "nat \<Rightarrow> nat \<Rightarrow> u8 list \<Rightarrow> u8 list outcome" where
  "ece391_strcpy dst src b =
     (if src < length b \<and> dst < length b
      then if b ! src = 0 then Ret (b[dst := 0]) else ece391_strcpy (Suc dst) (Suc src) (b[dst := b ! src])
      else Undef)"
  by pat_completeness auto
termination
  by (relation "measure (\<lambda>(dst, src, b). length b - src)") auto

fun ece391_strcmp :: "u8 list \<Rightarrow> u8 list \<Rightarrow> int outcome" where
  "ece391_strcmp (a # s1) (b # s2) =
     (if a = b then if a = 0 then Ret 0 else ece391_strcmp s1 s2 else Ret (uint a - uint b))"
| "ece391_strcmp _ _ = Undef"

fun strncmp_rest :: "u8 list \<Rightarrow> u8 list \<Rightarrow> nat \<Rightarrow> int outcome" where
  "strncmp_rest (a # s1) (b # s2) n =
     (if a = b then if a = 0 \<or> n - 1 = 0 then Ret 0 else strncmp_rest s1 s2 (n - 1) else Ret (uint a - uint b))"
| "strncmp_rest _ _ n = Undef"

definition ece391_strncmp :: "u8 list \<Rightarrow> u8 list \<Rightarrow> nat \<Rightarrow> int outcome" where
  "ece391_strncmp s1 s2 n = (if n = 0 then Ret 0 else strncmp_rest s1 s2 n)"

function strrev_swap :: "nat \<Rightarrow> nat \<Rightarrow> u8 list \<Rightarrow> u8 list outcome" where
  "strrev_swap beg end s =
     (if beg < end
      then if end < length s then strrev_swap (Suc beg) (end - 1) (s[end := s ! beg, beg := s ! end]) else Undef
      else Ret s)"
  by pat_completeness auto
termination
  by (relation "measure (\<lambda>(beg, end, s). end - beg)") auto

definition ece391_strrev :: "u8 list \<Rightarrow> u8 list outcome" where
  "ece391_strrev s =
     obind (ece391_strlen s) (\<lambda>n. if int n - 1 \<le> 0 then Ret s else strrev_swap 0 (n - 1) s)"

definition ece391_lookup :: "u8 list" where
  "ece391_lookup = lit ''0123456789ABCDEFGHIJKLMNOPQRSTUVWXYZ''"

function itoa_digits :: "u32 \<Rightarrow> nat \<Rightarrow> u32 \<Rightarrow> u8 list \<Rightarrow> u8 list outcome" where
  "itoa_digits newval pos radix buf =
     (if newval > 0
      then if radix \<noteq> 0 \<and> unat (newval mod radix) < length ece391_lookup \<and> pos < length buf
           then itoa_digits (newval div radix) (Suc pos) radix (buf[pos := ece391_lookup ! unat (newval mod radix)])
           else Undef
      else buf_set buf pos 0)"
  by pat_completeness auto
termination
  by (relation "measure (\<lambda>(newval, pos, radix, buf). length buf - pos)") auto

declare ece391_strcpy.simps [simp del] strrev_swap.simps [simp del] itoa_digits.simps [simp del]

definition ece391_itoa :: "u32 \<Rightarrow> u8 list \<Rightarrow> u32 \<Rightarrow> u8 list outcome" where
  "ece391_itoa value buf radix =
     (if value = 0
      then obind (buf_set buf 0 (of_char CHR ''0'')) (\<lambda>b. buf_set b 1 0)
      else obind (itoa_digits value 0 radix buf) ece391_strrev)"

section \<open>System calls of a program\<close>

text \<open>
  The registers and the memory that a program that loads only \<open>eax\<close> before \<open>int 0x80\<close> leaves to the kernel.
\<close>

type_synonym regs = "(u32 \<Rightarrow> u8 list option) \<times> u32 \<times> u32 \<times> u32"

record 's calls =
  sys_execute :: "u8 list \<Rightarrow> 's \<Rightarrow> (int \<times> 's) outcome"
  sys_read :: "int \<Rightarrow> u8 list \<Rightarrow> int \<Rightarrow> 's \<Rightarrow> (int \<times> u8 list \<times> 's) outcome"
  sys_write :: "int \<Rightarrow> u8 list \<Rightarrow> int \<Rightarrow> 's \<Rightarrow> (int \<times> 's) outcome"
  sys_open :: "u8 list \<Rightarrow> 's \<Rightarrow> (int \<times> 's) outcome"
  sys_close :: "int \<Rightarrow> 's \<Rightarrow> (int \<times> 's) outcome"
  sys_getargs :: "u8 list \<Rightarrow> int \<Rightarrow> 's \<Rightarrow> (int \<times> u8 list \<times> 's) outcome"
  sys_vidmap :: "u32 \<Rightarrow> 's \<Rightarrow> (int \<times> u32 \<times> 's) outcome"
  sys_number :: "u32 \<Rightarrow> regs \<Rightarrow> 's \<Rightarrow> (int \<times> 's) outcome"

type_synonym 's user = "'s \<times> (int \<times> u8 list) list"

definition ece391_execute :: "'s calls \<Rightarrow> u8 list \<Rightarrow> 's user \<Rightarrow> (int \<times> 's user) outcome" where
  "ece391_execute c command u = obind (sys_execute c command (fst u)) (\<lambda>(r, s). Ret (r, s, snd u))"

definition ece391_read :: "'s calls \<Rightarrow> int \<Rightarrow> u8 list \<Rightarrow> int \<Rightarrow> 's user \<Rightarrow> (int \<times> u8 list \<times> 's user) outcome" where
  "ece391_read c des buf nbytes u = obind (sys_read c des buf nbytes (fst u)) (\<lambda>(r, b, s). Ret (r, b, s, snd u))"

definition ece391_write :: "'s calls \<Rightarrow> int \<Rightarrow> u8 list \<Rightarrow> int \<Rightarrow> 's user \<Rightarrow> (int \<times> 's user) outcome" where
  "ece391_write c des buf nbytes u =
     obind (sys_write c des buf nbytes (fst u)) (\<lambda>(r, s). Ret (r, s, snd u @ [(des, take (nat nbytes) buf)]))"

definition ece391_open :: "'s calls \<Rightarrow> u8 list \<Rightarrow> 's user \<Rightarrow> (int \<times> 's user) outcome" where
  "ece391_open c filename u = obind (sys_open c filename (fst u)) (\<lambda>(r, s). Ret (r, s, snd u))"

definition ece391_close :: "'s calls \<Rightarrow> int \<Rightarrow> 's user \<Rightarrow> (int \<times> 's user) outcome" where
  "ece391_close c des u = obind (sys_close c des (fst u)) (\<lambda>(r, s). Ret (r, s, snd u))"

definition ece391_getargs :: "'s calls \<Rightarrow> u8 list \<Rightarrow> int \<Rightarrow> 's user \<Rightarrow> (int \<times> u8 list \<times> 's user) outcome" where
  "ece391_getargs c buf nbytes u = obind (sys_getargs c buf nbytes (fst u)) (\<lambda>(r, b, s). Ret (r, b, s, snd u))"

text \<open>The argument is a pointer; the second part of the result is the word it points to afterwards, or 0 when the call is refused.\<close>

definition ece391_vidmap :: "'s calls \<Rightarrow> u32 \<Rightarrow> 's user \<Rightarrow> (int \<times> u32 \<times> 's user) outcome" where
  "ece391_vidmap c screen_start u = obind (sys_vidmap c screen_start (fst u)) (\<lambda>(r, v, s). Ret (r, v, s, snd u))"

definition ece391_fdputs :: "'s calls \<Rightarrow> int \<Rightarrow> u8 list \<Rightarrow> 's user \<Rightarrow> 's user outcome" where
  "ece391_fdputs c des t u = obind (ece391_strlen t) (\<lambda>n. obind (ece391_write c des t (int n) u) (\<lambda>r. Ret (snd r)))"

text \<open>A message, and the program's exit status.\<close>

definition fail :: "'s calls \<Rightarrow> string \<Rightarrow> int \<Rightarrow> 's user \<Rightarrow> (int \<times> 's user) outcome" where
  "fail c message status u = obind (ece391_fdputs c 1 (lit message) u) (\<lambda>u1. Ret (status, u1))"

section \<open>Programs\<close>

definition testprint_main :: "'s calls \<Rightarrow> 's user \<Rightarrow> (int \<times> 's user) outcome" where
  "testprint_main c u =
     obind (ece391_fdputs c 1 (lit ''Hello, if this ran, the program was correct. Yay!\<newline>'') u) (\<lambda>u1. Ret (0, u1))"

definition hello_main :: "'s calls \<Rightarrow> u8 list \<Rightarrow> 's user \<Rightarrow> (int \<times> 's user) outcome" where
  "hello_main c buf u =
     obind (ece391_fdputs c 1 (lit ''Hi, what's your name? '') u) (\<lambda>u1.
     obind (ece391_read c 0 buf 1023 u1) (\<lambda>(cnt, buf1, u2).
     if cnt = -1 then fail c ''Can't read name from keyboard.\<newline>'' 3 u2
     else if cnt < 0 then Undef
     else obind (buf_set buf1 (nat cnt) 0) (\<lambda>buf2.
          obind (ece391_fdputs c 1 (lit ''Hello, '') u2) (\<lambda>u3.
          obind (ece391_fdputs c 1 buf2 u3) (\<lambda>u4. Ret (0, u4))))))"

fun cat_loop :: "nat \<Rightarrow> 's calls \<Rightarrow> int \<Rightarrow> u8 list \<Rightarrow> 's user \<Rightarrow> (int \<times> 's user) option outcome" where
  "cat_loop 0 c des buf u = Ret None"
| "cat_loop (Suc fuel) c des buf u =
     obind (ece391_read c des buf 1024 u) (\<lambda>(cnt, buf1, u1).
     if cnt = 0 then Ret (Some (0, u1))
     else if cnt = -1 then obind (fail c ''file read failed\<newline>'' 3 u1) (\<lambda>r. Ret (Some r))
     else obind (ece391_write c 1 buf1 cnt u1) (\<lambda>(r, u2).
          if r = -1 then Ret (Some (3, u2)) else cat_loop fuel c des buf1 u2))"

definition cat_main :: "nat \<Rightarrow> 's calls \<Rightarrow> u8 list \<Rightarrow> 's user \<Rightarrow> (int \<times> 's user) option outcome" where
  "cat_main fuel c buf u =
     obind (ece391_getargs c buf 1024 u) (\<lambda>(r, buf1, u1).
     if r \<noteq> 0 then obind (fail c ''could not read arguments\<newline>'' 3 u1) (\<lambda>r. Ret (Some r))
     else obind (ece391_open c buf1 u1) (\<lambda>(des, u2).
          if des = -1 then obind (fail c ''file not found\<newline>'' 2 u2) (\<lambda>r. Ret (Some r))
          else cat_loop fuel c des buf1 u2))"

fun ls_loop :: "nat \<Rightarrow> 's calls \<Rightarrow> int \<Rightarrow> u8 list \<Rightarrow> 's user \<Rightarrow> (int \<times> 's user) option outcome" where
  "ls_loop 0 c des buf u = Ret None"
| "ls_loop (Suc fuel) c des buf u =
     obind (ece391_read c des buf 32 u) (\<lambda>(cnt, buf1, u1).
     if cnt = 0 then Ret (Some (0, u1))
     else if cnt = -1 then obind (fail c ''directory entry read failed\<newline>'' 3 u1) (\<lambda>r. Ret (Some r))
     else if cnt < 0 then Undef
     else obind (buf_set buf1 (nat cnt) 10) (\<lambda>buf2.
          obind (ece391_write c 1 buf2 (cnt + 1) u1) (\<lambda>(r, u2).
          if r = -1 then Ret (Some (3, u2)) else ls_loop fuel c des buf2 u2)))"

definition ls_main :: "nat \<Rightarrow> 's calls \<Rightarrow> u8 list \<Rightarrow> 's user \<Rightarrow> (int \<times> 's user) option outcome" where
  "ls_main fuel c buf u =
     obind (ece391_open c (lit ''.'') u) (\<lambda>(des, u1).
     if des = -1 then obind (fail c ''directory open failed\<newline>'' 2 u1) (\<lambda>r. Ret (Some r))
     else ls_loop fuel c des buf u1)"

text \<open>One turn of the shell's loop: \<open>Some\<close> status when it returns, \<open>None\<close> when it goes on.\<close>

definition shell_report :: "'s calls \<Rightarrow> int \<Rightarrow> 's user \<Rightarrow> 's user outcome" where
  "shell_report c rval u =
     (if rval = -1 then ece391_fdputs c 1 (lit ''no such command\<newline>'') u
      else if rval = 256 then ece391_fdputs c 1 (lit ''program terminated by exception\<newline>'') u
      else if rval \<noteq> 0 then ece391_fdputs c 1 (lit ''program terminated abnormally\<newline>'') u
      else Ret u)"

definition shell_turn :: "'s calls \<Rightarrow> u8 list \<Rightarrow> 's user \<Rightarrow> (int option \<times> u8 list \<times> 's user) outcome" where
  "shell_turn c buf u =
     obind (ece391_fdputs c 1 (lit ''391OS> '') u) (\<lambda>u1.
     obind (ece391_read c 0 buf 1023 u1) (\<lambda>(cnt, buf1, u2).
     if cnt = -1 then obind (fail c ''read from keyboard failed\<newline>'' 3 u2) (\<lambda>(st, u3). Ret (Some st, buf1, u3))
     else if cnt < 0 then Undef
     else obind (if cnt > 0 then buf_get buf1 (nat (cnt - 1)) else Ret 0) (\<lambda>lst.
          obind (buf_set buf1 (nat (if cnt > 0 \<and> lst = 10 then cnt - 1 else cnt)) 0) (\<lambda>buf2.
          obind (ece391_strcmp buf2 (lit ''exit'')) (\<lambda>e.
          if e = 0 then Ret (Some 0, buf2, u2)
          else if buf2 ! 0 = 0 then Ret (None, buf2, u2)
          else obind (ece391_execute c buf2 u2) (\<lambda>(rval, u3).
               obind (shell_report c rval u3) (\<lambda>u4. Ret (None, buf2, u4))))))))"

fun shell_loop :: "nat \<Rightarrow> 's calls \<Rightarrow> u8 list \<Rightarrow> 's user \<Rightarrow> (int \<times> 's user) option outcome" where
  "shell_loop 0 c buf u = Ret None"
| "shell_loop (Suc fuel) c buf u =
     obind (shell_turn c buf u) (\<lambda>(st, buf1, u1).
     case st of Some v \<Rightarrow> Ret (Some (v, u1)) | None \<Rightarrow> shell_loop fuel c buf1 u1)"

definition shell_main :: "nat \<Rightarrow> 's calls \<Rightarrow> u8 list \<Rightarrow> 's user \<Rightarrow> (int \<times> 's user) option outcome" where
  "shell_main fuel c buf u =
     obind (ece391_fdputs c 1 (lit ''Starting 391 Shell\<newline>'') u) (\<lambda>u1. shell_loop fuel c buf u1)"

text \<open>\<open>counter\<close>: the numbers from 1 to the chosen maximum, one per line.\<close>

fun counter_loop :: "'s calls \<Rightarrow> nat \<Rightarrow> nat \<Rightarrow> u8 list \<Rightarrow> 's user \<Rightarrow> 's user outcome" where
  "counter_loop c i 0 buf u = Ret u"
| "counter_loop c i (Suc n) buf u =
     obind (ece391_itoa (of_nat (i + 1)) buf 10) (\<lambda>buf1.
     obind (ece391_fdputs c 1 buf1 u) (\<lambda>u1.
     obind (ece391_fdputs c 1 (lit ''\<newline>'') u1) (\<lambda>u2. counter_loop c (i + 1) n buf1 u2)))"

definition counter_max :: "u8 \<Rightarrow> nat" where
  "counter_max b = (if b = of_char CHR ''0'' then 100 else if b = of_char CHR ''1'' then 10000
     else if b = of_char CHR ''2'' then 100000 else 0)"

definition counter_main :: "'s calls \<Rightarrow> u8 list \<Rightarrow> 's user \<Rightarrow> (int \<times> 's user) outcome" where
  "counter_main c buf u =
     obind (ece391_fdputs c 1 (lit ''Enter the Test Number: (0): 100, (1): 10000, (2): 100000\<newline>'') u) (\<lambda>u1.
     obind (ece391_read c 0 buf 1023 u1) (\<lambda>(cnt, buf1, u2).
     if cnt = -1 then fail c ''Can't read the number from keyboard.\<newline>'' 3 u2
     else if cnt < 0 then Undef
     else obind (buf_set buf1 (nat cnt) 0) (\<lambda>buf2.
          obind (ece391_strlen buf2) (\<lambda>len.
          if len > 2 \<or> len = 2 \<and> (buf2 ! 0 < of_char CHR ''0'' \<or> buf2 ! 0 > of_char CHR ''2'')
          then fail c ''Wrong Choice!\<newline>'' 0 u2
          else obind (counter_loop c 0 (counter_max (buf2 ! 0)) buf2 u2) (\<lambda>u3. Ret (0, u3))))))"

text \<open>
  \<open>pingpong\<close>: a character moves between two walls, one step per tick of the clock. The buffer has 81 bytes,
  the walls are at 1 and 78, the positions from 2 to 77.
\<close>

definition pingpong_world :: "u8 list" where
  "pingpong_world = (replicate 81 SPACE)[80 := 0, 79 := 10, 78 := of_char CHR ''|'', 1 := of_char CHR ''|'']"

definition pingpong_frame :: "u8 list \<Rightarrow> u8 \<Rightarrow> nat \<Rightarrow> u8 list" where
  "pingpong_frame buf curchar j = (fold (\<lambda>i b. b[i := SPACE]) [2..<78] buf)[j := curchar]"

fun pingpong_moves :: "'s calls \<Rightarrow> int \<Rightarrow> u8 \<Rightarrow> nat list \<Rightarrow> u8 list \<Rightarrow> 's user \<Rightarrow> (u8 list \<times> 's user) outcome" where
  "pingpong_moves c rtc curchar [] buf u = Ret (buf, u)"
| "pingpong_moves c rtc curchar (j # js) buf u =
     obind (ece391_fdputs c 1 (pingpong_frame buf curchar j) u) (\<lambda>u1.
     obind (ece391_read c rtc [0, 0, 0, 0] 4 u1) (\<lambda>(r, b, u2).
     pingpong_moves c rtc curchar js (pingpong_frame buf curchar j) u2))"

definition next_char :: "u8 \<Rightarrow> u8" where
  "next_char curchar = (if curchar = of_char CHR ''Z'' then of_char CHR ''A'' else curchar + 1)"

fun pingpong_loop :: "nat \<Rightarrow> 's calls \<Rightarrow> int \<Rightarrow> u8 \<Rightarrow> u8 list \<Rightarrow> 's user \<Rightarrow> (u8 list \<times> 's user) outcome" where
  "pingpong_loop 0 c rtc curchar buf u = Ret (buf, u)"
| "pingpong_loop (Suc rounds) c rtc curchar buf u =
     obind (pingpong_moves c rtc curchar [2..<78] buf u) (\<lambda>(buf1, u1).
     obind (pingpong_moves c rtc curchar (rev [2..<78]) buf1 u1) (\<lambda>(buf2, u2).
     pingpong_loop rounds c rtc (next_char curchar) buf2 u2))"

text \<open>The loop of \<open>main\<close> never ends; this is its state after a number of rounds.\<close>

definition pingpong_main :: "nat \<Rightarrow> 's calls \<Rightarrow> 's user \<Rightarrow> (u8 list \<times> 's user) outcome" where
  "pingpong_main rounds c u =
     obind (ece391_open c (lit ''rtc'') u) (\<lambda>(rtc, u1).
     obind (ece391_write c rtc [32, 0, 0, 0] 4 u1) (\<lambda>(r, u2).
     pingpong_loop rounds c rtc (of_char CHR ''A'') pingpong_world u2))"

section \<open>grep\<close>

text \<open>The end of the line that starts at \<open>k\<close>: the next newline, or the end of the data.\<close>

function line_end :: "u8 list \<Rightarrow> nat \<Rightarrow> nat \<Rightarrow> nat" where
  "line_end data lim k = (if k < lim \<and> data ! k \<noteq> 10 then line_end data lim (Suc k) else k)"
  by pat_completeness auto
termination
  by (relation "measure (\<lambda>(data, lim, k). lim - k)") auto

declare line_end.simps [simp del]

lemma line_end_ge: "k \<le> line_end data lim k"
proof (induction data lim k rule: line_end.induct)
  case (1 data lim k)
  then show ?case by (subst line_end.simps) (auto dest: Suc_leD)
qed

text \<open>The search string is an array of \<open>char\<close>, which is signed, the data of \<open>uint8_t\<close>.\<close>

definition matches_at :: "u8 list \<Rightarrow> nat \<Rightarrow> u8 list \<Rightarrow> nat \<Rightarrow> bool outcome" where
  "matches_at s s_len data check =
     obind (buf_get s 0) (\<lambda>c. obind (buf_get data check) (\<lambda>d.
     if sint c = uint d then obind (ece391_strncmp (drop check data) s s_len) (\<lambda>r. Ret (r = 0)) else Ret False))"

fun search_line :: "'s calls \<Rightarrow> u8 list \<Rightarrow> nat \<Rightarrow> u8 list \<Rightarrow> u8 list \<Rightarrow> nat \<Rightarrow> nat list \<Rightarrow> 's user \<Rightarrow> 's user outcome" where
  "search_line c s s_len fname data line_start [] u = Ret u"
| "search_line c s s_len fname data line_start (check # rest) u =
     obind (matches_at s s_len data check) (\<lambda>m.
     if m then obind (ece391_fdputs c 1 fname u) (\<lambda>u1. obind (ece391_fdputs c 1 (lit '':'') u1) (\<lambda>u2.
               obind (ece391_fdputs c 1 (drop line_start data) u2) (\<lambda>u3. ece391_fdputs c 1 (lit ''\<newline>'') u3)))
     else search_line c s s_len fname data line_start rest u)"

function grep_lines :: "'s calls \<Rightarrow> u8 list \<Rightarrow> nat \<Rightarrow> u8 list \<Rightarrow> int \<Rightarrow> nat \<Rightarrow> nat \<Rightarrow> u8 list \<Rightarrow> 's user \<Rightarrow> (nat \<times> u8 list \<times> 's user) outcome" where
  "grep_lines c s s_len fname cnt lim line_start data u =
     (let e = line_end data lim line_start
      in if e \<ge> length data then Undef
         else if data ! e \<noteq> 10 \<and> cnt \<noteq> 0 \<and> line_start \<noteq> 0
         then obind (ece391_strcpy 0 line_start (data[e := 0])) (\<lambda>data1. Ret (lim - line_start, data1, u))
         else obind (search_line c s s_len fname (data[e := 0]) line_start [line_start..<e] u) (\<lambda>u1.
              if e + 1 \<ge> lim then Ret (0, data[e := 0], u1)
              else grep_lines c s s_len fname cnt lim (e + 1) (data[e := 0]) u1))"
  by pat_completeness auto
termination
proof (relation "measure (\<lambda>(c, s, s_len, fname, cnt, lim, line_start, data, u). lim - line_start)", goal_cases)
  case (2 c s s_len fname cnt lim line_start data u e u1)
  then show ?case using line_end_ge[of line_start data lim] by auto
qed simp

declare grep_lines.simps [simp del]

fun grep_loop :: "nat \<Rightarrow> 's calls \<Rightarrow> u8 list \<Rightarrow> nat \<Rightarrow> u8 list \<Rightarrow> int \<Rightarrow> nat \<Rightarrow> u8 list \<Rightarrow> 's user \<Rightarrow> (bool \<times> 's user) option outcome" where
  "grep_loop 0 c s s_len fname des lim data u = Ret None"
| "grep_loop (Suc fuel) c s s_len fname des lim data u =
     obind (ece391_read c des (drop lim data) (1024 - int lim) u) (\<lambda>(cnt, b, u1).
     if cnt = -1 then obind (ece391_fdputs c 1 (lit ''file read failed\<newline>'') u1) (\<lambda>u2. Ret (Some (False, u2)))
     else if cnt < 0 then Undef
     else obind (grep_lines c s s_len fname cnt (lim + nat cnt) 0 (take lim data @ b) u1) (\<lambda>(lim1, data1, u2).
          if cnt = 0 then Ret (Some (True, u2)) else grep_loop fuel c s s_len fname des lim1 data1 u2))"

definition do_one_file :: "nat \<Rightarrow> 's calls \<Rightarrow> u8 list \<Rightarrow> u8 list \<Rightarrow> u8 list \<Rightarrow> 's user \<Rightarrow> (int \<times> 's user) option outcome" where
  "do_one_file fuel c data s fname u =
     obind (ece391_strlen s) (\<lambda>s_len.
     obind (ece391_open c fname u) (\<lambda>(des, u1).
     if des = -1 then obind (fail c ''file open failed\<newline>'' (-1) u1) (\<lambda>r. Ret (Some r))
     else obind (grep_loop fuel c s s_len fname des 0 data u1) (\<lambda>r.
          case r of None \<Rightarrow> Ret None
          | Some (False, u2) \<Rightarrow> Ret (Some (-1, u2))
          | Some (True, u2) \<Rightarrow>
              obind (ece391_close c des u2) (\<lambda>(v, u3).
              if v = -1 then obind (fail c ''file close failed\<newline>'' (-1) u3) (\<lambda>r. Ret (Some r)) else Ret (Some (0, u3))))))"

text \<open>The array \<open>data\<close> of \<open>do_one_file\<close> is not initialised: \<open>junk\<close> gives what each call of it finds there.\<close>

fun grep_dir :: "nat \<Rightarrow> nat \<Rightarrow> 's calls \<Rightarrow> int \<Rightarrow> (nat \<Rightarrow> u8 list) \<Rightarrow> u8 list \<Rightarrow> u8 list \<Rightarrow> 's user \<Rightarrow> (int \<times> 's user) option outcome" where
  "grep_dir 0 file_fuel c des junk search buf u = Ret None"
| "grep_dir (Suc fuel) file_fuel c des junk search buf u =
     obind (ece391_read c des buf 32 u) (\<lambda>(cnt, buf1, u1).
     if cnt = 0 then Ret (Some (0, u1))
     else if cnt = -1 then obind (fail c ''directory entry read failed\<newline>'' 3 u1) (\<lambda>r. Ret (Some r))
     else if cnt < 0 then Undef
     else obind (buf_get buf1 0) (\<lambda>b.
          if b = of_char CHR ''.'' then grep_dir fuel file_fuel c des junk search buf1 u1
          else obind (buf_set buf1 (nat cnt) 0) (\<lambda>buf2.
               obind (do_one_file file_fuel c (junk fuel) search buf2 u1) (\<lambda>r.
               case r of None \<Rightarrow> Ret None
               | Some (v, u2) \<Rightarrow> if v \<noteq> 0 then Ret (Some (3, u2)) else grep_dir fuel file_fuel c des junk search buf2 u2))))"

definition grep_main :: "nat \<Rightarrow> nat \<Rightarrow> 's calls \<Rightarrow> (nat \<Rightarrow> u8 list) \<Rightarrow> u8 list \<Rightarrow> u8 list \<Rightarrow> 's user \<Rightarrow> (int \<times> 's user) option outcome" where
  "grep_main fuel file_fuel c junk search buf u =
     obind (ece391_getargs c search 1024 u) (\<lambda>(r, search1, u1).
     if r \<noteq> 0 then obind (fail c ''could not read argument\<newline>'' 3 u1) (\<lambda>r. Ret (Some r))
     else obind (ece391_open c (lit ''.'') u1) (\<lambda>(des, u2).
          if des = -1 then obind (fail c ''directory open failed\<newline>'' 2 u2) (\<lambda>r. Ret (Some r))
          else grep_dir fuel file_fuel c des junk search1 buf u2))"

section \<open>The kernel's system calls\<close>

text \<open>
  What \<open>execute\<close> does for a program is to run another one until it halts; the effect of that run is the argument
  \<open>child\<close>. A \<open>read\<close> that waits forever is \<open>Hang\<close>.
\<close>

definition kernel_calls :: "'a env \<Rightarrow> (u8 list \<Rightarrow> 'a kernel_scheme \<Rightarrow> (int \<times> 'a kernel_scheme) outcome) \<Rightarrow> 'a kernel_scheme calls" where
  "kernel_calls env child =
     \<lparr>sys_execute = child,
      sys_read = (\<lambda>des buf nbytes s. obind (read_call env des (Some buf) (word_of_int nbytes) s) (\<lambda>r.
        case r of None \<Rightarrow> Hang ''waiting'' | Some (v, b, s1) \<Rightarrow> Ret (v, bytes_of b, s1))),
      sys_write = (\<lambda>des buf nbytes s. write_call env des (Some buf) nbytes s),
      sys_open = open_call env,
      sys_close = close_call,
      sys_getargs = (\<lambda>buf nbytes s. obind (getargs buf nbytes s) (\<lambda>(v, b). Ret (v, b, s))),
      sys_vidmap = (\<lambda>screen_start s. obind (vidmap env screen_start s) (\<lambda>(r, s1).
        if r = -1 then Ret (r, 0, s1) else obind (user_address env screen_start s1) (\<lambda>a. Ret (r, le32 (mem s1) a, s1)))),
      sys_number = (\<lambda>eax (ptr, ebx, ecx, edx) s. obind (syscall_wrapper env ptr eax ebx ecx edx s) (\<lambda>(e, s1).
        case e of Returned v _ \<Rightarrow> Ret (v, s1) | Transferred _ \<Rightarrow> Hang ''another program'' | Waiting \<Rightarrow> Hang ''waiting''))\<rparr>"

section \<open>The support library\<close>

lemma ece391_strlen_eq: "ece391_strlen s = (if terminated s then Ret (length (cstr s)) else Undef)"
  by (induction s) (auto simp: terminated_def cstr_def)

lemma ece391_strlen_kernel: "ece391_strlen s = strlen s"
  by (simp add: ece391_strlen_eq strlen_eq)

lemma strrev_swap_kernel: "strrev_swap beg end s = strrev_loop s (int beg) (int end)"
proof (induction beg "end" s rule: strrev_swap.induct)
  case (1 beg "end" s)
  show ?case
  proof (cases "beg < end \<and> end < length s")
    case True
    then have "int (Suc beg) = int beg + 1" "int (end - 1) = int end - 1" by auto
    with True 1 show ?thesis by (subst strrev_swap.simps, subst strrev_loop.simps) (simp add: add.commute)
  next
    case False
    then show ?thesis by (subst strrev_swap.simps, subst strrev_loop.simps) auto
  qed
qed

lemma ece391_strrev_kernel: "ece391_strrev = strrev"
proof (rule ext)
  fix s :: "u8 list"
  have "(if int n - 1 \<le> 0 then Ret s else strrev_swap 0 (n - 1) s) = strrev_loop s 0 (int n - 1)" for n
    by (auto simp: strrev_swap_kernel of_nat_diff strrev_loop.simps[of s 0 "int n - 1"])
  then show "ece391_strrev s = strrev s" by (simp add: ece391_strrev_def strrev_def ece391_strlen_kernel)
qed

lemma itoa_digits_kernel: "itoa_digits v pos radix buf = itoa_loop v buf pos radix"
proof (induction v pos radix buf rule: itoa_digits.induct)
  case (1 v pos radix buf)
  then show ?case by (subst itoa_digits.simps, subst itoa_loop.simps) (auto simp: ece391_lookup_def lookup_def)
qed

lemma ece391_itoa_kernel: "ece391_itoa v buf radix = itoa v buf radix"
  by (simp add: ece391_itoa_def itoa_def itoa_digits_kernel ece391_strrev_kernel)

lemma ece391_strcmp_eq:
  assumes "terminated s1" "terminated s2"
  shows "\<exists>r. ece391_strcmp s1 s2 = Ret r \<and> (r = 0 \<longleftrightarrow> cstr s1 = cstr s2)"
  using assms
proof (induction s1 s2 rule: ece391_strcmp.induct)
  case (1 a s1 b s2)
  have "uint a - uint b = 0 \<longleftrightarrow> a = b" by (simp add: word_uint_eq_iff)
  with 1 show ?case by (auto simp: terminated_def cstr_def)
qed (auto simp: terminated_def)

end
