(* ===== verification/Runs.thy ===== *)
theory Runs
  imports Programs
begin

text \<open>
  What the user programs do on this kernel. The contracts they rely on are locales: \<open>tty_out\<close>, a terminal
  that takes texts, and \<open>tty\<close>, one on which a line will be typed. The lemmas about the shell, \<open>hello\<close> and
  \<open>counter\<close> are proved from the contracts; the interpretations discharge these for the system calls of
  the kernel with the keyboard interrupts of a user who types while the program waits.
\<close>

section \<open>Contracts\<close>

locale tty_out =
  fixes c :: "'s calls" and ok :: "'s \<Rightarrow> bool"
  assumes write_text: "ok s \<Longrightarrow> terminated b \<Longrightarrow> \<exists>s'. sys_write c 1 b n s = Ret (int (length (cstr b)), s') \<and> ok s'"
begin

lemma write_logged:
  assumes "ok s" "terminated b"
  shows "\<exists>s'. ece391_write c 1 b n (s, log) = Ret (int (length (cstr b)), s', log @ [(1, take (nat n) b)]) \<and> ok s'"
  using write_text[OF assms, of n] by (auto simp: ece391_write_def)

lemma puts:
  assumes "ok s" "terminated t"
  shows "\<exists>s'. ece391_fdputs c 1 t (s, log) = Ret (s', log @ [(1, cstr t)]) \<and> ok s'"
proof -
  have "take (length (cstr t)) t = cstr t" by (simp add: cstr_def takeWhile_eq_take[symmetric])
  then show ?thesis
    using write_logged[OF assms, of "int (length (cstr t))" log] assms(2) by (auto simp: ece391_fdputs_def ece391_strlen_eq)
qed

lemma puts_lit:
  assumes "ok s" "0 \<notin> set (map of_char t :: u8 list)"
  shows "\<exists>s'. ece391_fdputs c 1 (lit t) (s, log) = Ret (s', log @ [(1, map of_char t)]) \<and> ok s'"
  using puts[OF assms(1), of "lit t" log] assms(2) by (simp add: lit_def terminated_split cstr_split)

end

locale tty = out: tty_out c opened + wait: tty_out c ready
  for c :: "'s calls" and opened ready :: "'s \<Rightarrow> bool" +
  fixes l :: "u8 list"
  assumes read_line: "ready s \<Longrightarrow> 129 \<le> length b \<Longrightarrow>
      \<exists>s'. sys_read c 0 b n s = Ret (int (length l) + 1, l @ 10 # 0 # drop (length l + 2) b, s') \<and> opened s'"
    and line_text: "0 \<notin> set l" "length l \<le> 127"
begin

lemma read_logged:
  assumes "ready s" "129 \<le> length b"
  shows "\<exists>s'. ece391_read c 0 b n (s, log) = Ret (int (length l) + 1, l @ 10 # 0 # drop (length l + 2) b, s', log) \<and> opened s'"
  using read_line[OF assms, of n] by (auto simp: ece391_read_def)

end

section \<open>The shell, hello and counter\<close>

definition shell_says :: "int \<Rightarrow> (int \<times> u8 list) list" where
  "shell_says rval =
     (if rval = -1 then [(1, map of_char ''no such command\<newline>'')]
      else if rval = 256 then [(1, map of_char ''program terminated by exception\<newline>'')]
      else if rval \<noteq> 0 then [(1, map of_char ''program terminated abnormally\<newline>'')]
      else [])"

context tty_out
begin

lemma report_says: "ok s \<Longrightarrow> \<exists>s'. shell_report c rval (s, log) = Ret (s', log @ shell_says rval) \<and> ok s'"
  using puts_lit[of s "''no such command\<newline>''" log] puts_lit[of s "''program terminated by exception\<newline>''" log]
    puts_lit[of s "''program terminated abnormally\<newline>''" log]
  by (auto simp: shell_report_def shell_says_def)

end

context tty
begin

lemma shell_reads:
  assumes "ready s" "129 \<le> length b"
  shows "\<exists>s1. opened s1 \<and> shell_turn c b (s, log) =
    (let b1 = l @ 0 # 0 # drop (length l + 2) b; u = (s1, log @ [(1, map of_char ''391OS> '')])
     in if l = map of_char ''exit'' then Ret (Some 0, b1, u)
        else if l = [] then Ret (None, b1, u)
        else obind (ece391_execute c b1 u) (\<lambda>(rval, u1). obind (shell_report c rval u1) (\<lambda>u2. Ret (None, b1, u2))))"
proof -
  obtain s0 where s0: "ece391_fdputs c 1 (lit ''391OS> '') (s, log) = Ret (s0, log @ [(1, map of_char ''391OS> '')])" "ready s0"
    using wait.puts_lit[OF assms(1), of "''391OS> ''" log] by auto
  let ?log = "log @ [(1, map of_char ''391OS> '')]"
  obtain s1 where s1: "ece391_read c 0 b 1023 (s0, ?log) = Ret (int (length l) + 1, l @ 10 # 0 # drop (length l + 2) b, s1, ?log)"
      "opened s1" using read_logged[OF s0(2) assms(2)] by blast
  let ?b1 = "l @ 0 # 0 # drop (length l + 2) b"
  have get: "buf_get (l @ 10 # 0 # drop (length l + 2) b) (length l) = Ret 10" by (simp add: buf_get_def)
  have set: "buf_set (l @ 10 # 0 # drop (length l + 2) b) (length l) 0 = Ret ?b1" by (simp add: buf_set_def)
  have tb: "terminated ?b1" "cstr ?b1 = l" using line_text by (simp_all add: terminated_split cstr_split)
  have ex: "terminated (lit ''exit'')" "cstr (lit ''exit'') = map of_char ''exit''"
    by (simp_all add: lit_def terminated_def cstr_def)
  obtain r where r: "ece391_strcmp ?b1 (lit ''exit'') = Ret r" "r = 0 \<longleftrightarrow> l = map of_char ''exit''"
    using ece391_strcmp_eq[OF tb(1) ex(1)] tb(2) ex(2) by auto
  have hd: "?b1 ! 0 = 0 \<longleftrightarrow> l = []" using line_text(1) by (cases l) auto
  have "nat (int (length l) + 1 - 1) = length l" by simp
  with s0 s1 get set r hd show ?thesis by (intro exI[of _ s1]) (simp add: shell_turn_def Let_def)
qed

lemma shell_executes:
  assumes "ready s" "129 \<le> length b"
  shows "\<exists>s1 b1. opened s1 \<and> terminated b1 \<and> cstr b1 = l \<and>
    (l = map of_char ''exit'' \<longrightarrow> shell_turn c b (s, log) = Ret (Some 0, b1, s1, log @ [(1, map of_char ''391OS> '')])) \<and>
    (l = [] \<longrightarrow> shell_turn c b (s, log) = Ret (None, b1, s1, log @ [(1, map of_char ''391OS> '')])) \<and>
    (l \<noteq> map of_char ''exit'' \<and> l \<noteq> [] \<longrightarrow> (\<forall>rval s2. sys_execute c b1 s1 = Ret (rval, s2) \<and> opened s2 \<longrightarrow>
      (\<exists>s3. opened s3 \<and> shell_turn c b (s, log) = Ret (None, b1, s3, log @ (1, map of_char ''391OS> '') # shell_says rval))))"
proof -
  obtain s1 where s1: "opened s1" and turn: "shell_turn c b (s, log) =
    (let b1 = l @ 0 # 0 # drop (length l + 2) b; u = (s1, log @ [(1, map of_char ''391OS> '')])
     in if l = map of_char ''exit'' then Ret (Some 0, b1, u)
        else if l = [] then Ret (None, b1, u)
        else obind (ece391_execute c b1 u) (\<lambda>(rval, u1). obind (shell_report c rval u1) (\<lambda>u2. Ret (None, b1, u2))))"
    using shell_reads[OF assms] by blast
  let ?b1 = "l @ 0 # 0 # drop (length l + 2) b"
  have run: "\<exists>s3. opened s3 \<and> shell_turn c b (s, log) = Ret (None, ?b1, s3, log @ (1, map of_char ''391OS> '') # shell_says rval)"
    if "l \<noteq> map of_char ''exit''" "l \<noteq> []" "sys_execute c ?b1 s1 = Ret (rval, s2)" "opened s2" for rval s2
    using that turn out.report_says[OF that(4), of rval "log @ [(1, map of_char ''391OS> '')]"]
    by (auto simp: ece391_execute_def Let_def)
  show ?thesis
    by (rule exI[of _ s1], rule exI[of _ ?b1]) (use s1 turn run line_text in \<open>simp add: terminated_split cstr_split Let_def\<close>)
qed

lemma ended_line:
  "buf_set (l @ 10 # 0 # r) (nat (int (length l) + 1)) 0 = Ret ((l @ [10]) @ 0 # r)"
  "terminated ((l @ [10]) @ 0 # r)" "cstr ((l @ [10]) @ 0 # r) = l @ [10]"
proof -
  have "nat (int (length l) + 1) = Suc (length l)" by simp
  then show "buf_set (l @ 10 # 0 # r) (nat (int (length l) + 1)) 0 = Ret ((l @ [10]) @ 0 # r)"
    by (simp add: buf_set_def list_update_append)
  show "terminated ((l @ [10]) @ 0 # r)" by (rule terminated_split)
  show "cstr ((l @ [10]) @ 0 # r) = l @ [10]" using line_text(1) by (intro cstr_split) simp
qed

lemma hello_greets:
  assumes "ready s" "129 \<le> length b"
  shows "\<exists>s'. opened s' \<and> hello_main c b (s, log) =
    Ret (0, s', log @ [(1, map of_char ''Hi, what's your name? ''), (1, map of_char ''Hello, ''), (1, l @ [10])])"
proof -
  obtain s0 where s0: "ece391_fdputs c 1 (lit ''Hi, what's your name? '') (s, log) = Ret (s0, log @ [(1, map of_char ''Hi, what's your name? '')])"
      "ready s0" using wait.puts_lit[OF assms(1), of "''Hi, what's your name? ''" log] by auto
  let ?log = "log @ [(1, map of_char ''Hi, what's your name? '')]"
  obtain s1 where s1: "ece391_read c 0 b 1023 (s0, ?log) = Ret (int (length l) + 1, l @ 10 # 0 # drop (length l + 2) b, s1, ?log)"
      "opened s1" using read_logged[OF s0(2) assms(2)] by blast
  obtain s2 where s2: "ece391_fdputs c 1 (lit ''Hello, '') (s1, ?log) = Ret (s2, ?log @ [(1, map of_char ''Hello, '')])" "opened s2"
    using out.puts_lit[OF s1(2), of "''Hello, ''" ?log] by auto
  let ?b = "(l @ [10]) @ 0 # drop (length l + 2) b"
  note b = ended_line[of "drop (length l + 2) b"]
  show ?thesis using s0 s1 s2 b out.puts[OF s2(2), of ?b "?log @ [(1, map of_char ''Hello, '')]"] by (auto simp: hello_main_def)
qed

end

section \<open>The kernel's terminal\<close>

text \<open>The program that runs has its two standard descriptors on the terminal that is shown.\<close>

definition on_tty :: "file_descriptor \<Rightarrow> bool" where
  "on_tty d \<longleftrightarrow> flags d \<noteq> 0 \<and> sysops_ptr d = Some Terminal_ops"

definition tty_open :: "'a kernel_scheme \<Rightarrow> bool" where
  "tty_open s \<longleftrightarrow> term_wf s \<and> (\<exists>n. running s n \<and> find_terminal (int n) s = int (old_terminal s) \<and>
     length (fd (pcbs s n)) = 8 \<and> on_tty (fd (pcbs s n) ! 0) \<and> on_tty (fd (pcbs s n) ! 1))"

text \<open>The user types the keys of \<open>scs\<close>, with shift and caps lock as they are, and then Enter.\<close>

definition tty_ready :: "(u8 \<Rightarrow> u8) \<Rightarrow> bool \<Rightarrow> bool \<Rightarrow> u8 list \<Rightarrow> 'a kernel_scheme \<Rightarrow> bool" where
  "tty_ready past sh cp scs s \<longleftrightarrow> tty_open s \<and> mods s = (sh, False, cp, False) \<and> (\<forall>x\<in>set scs. line_code past x) \<and>
     \<not> fst (mods_after sh cp scs)"

definition typing :: "'a env \<Rightarrow> (u8 \<Rightarrow> u8) \<Rightarrow> (u8 \<Rightarrow> u8) \<Rightarrow> u8 list \<Rightarrow> 'a env" where
  "typing env past past_shift scs = env\<lparr>env_irqs := map (key_interrupt env past past_shift) (scs @ [0x1C])\<rparr>"

definition typed_text :: "bool \<Rightarrow> bool \<Rightarrow> u8 list \<Rightarrow> u8 list" where
  "typed_text sh cp scs = take 127 (foldl edit [] (decode sh cp scs))"

lemma find_terminal_view:
  assumes "length (terminals s) = 3" "map program_id (terminals s') = map program_id (terminals s)"
  shows "find_terminal pid s' = find_terminal pid s"
proof -
  have "length (terminals s') = 3" using assms by (metis length_map)
  then have "program_id (terminals s' ! i) = program_id (terminals s ! i)" if "i < 3" for i
    using that assms by (metis nth_map)
  then show ?thesis by (simp add: find_terminal_def upt_rec)
qed

lemma tty_open_view:
  assumes "tty_open s" "term_wf s'" "prog_view s' = prog_view s"
  shows "tty_open s'"
  using assms find_terminal_view[of s s'] by (auto simp: tty_open_def prog_view_def running_def term_wf_def)

lemma edit_nonzero: "k \<noteq> Char 0 \<Longrightarrow> 0 \<notin> set t \<Longrightarrow> 0 \<notin> set (edit t k)"
  by (cases k) (auto dest: in_set_butlastD)

lemma edits_nonzero: "Char 0 \<notin> set ks \<Longrightarrow> 0 \<notin> set t \<Longrightarrow> 0 \<notin> set (foldl edit t ks)"
proof (induction ks arbitrary: t)
  case (Cons k ks)
  then show ?case using edit_nonzero[of k t] by auto
qed simp

lemma decode_nonzero: "Char 0 \<notin> set (decode sh cp scs)"
  by (induction scs arbitrary: sh cp) (auto simp: decode.simps(2) key_of_def Let_def split: option.splits if_splits)

lemma typed_text_chars: "0 \<notin> set (typed_text sh cp scs)" "length (typed_text sh cp scs) \<le> 127"
  using edits_nonzero[OF decode_nonzero, of "[]" sh cp scs] by (auto simp: typed_text_def dest: in_set_takeD)

lemma write_call_tty:
  assumes "tty_open s" "terminated b"
  shows "\<exists>s'. write_call env 1 (Some b) n s = Ret (int (length (cstr b)), s') \<and> tty_open s' \<and> mods s' = mods s \<and> prog_view s' = prog_view s"
proof -
  obtain p where p: "running s p" "find_terminal (int p) s = int (old_terminal s)" "length (fd (pcbs s p)) = 8"
      "on_tty (fd (pcbs s p) ! 1)" and wf: "term_wf s" using assms(1) by (auto simp: tty_open_def)
  obtain s1 where s1: "write_loop b n 0 s = Ret s1" "console_step s s1"
    using write_loop_total[OF assms(2), of 0 n s] by auto
  let ?s = "update_terminal (old_terminal s) (\<lambda>t. t\<lparr>buffer_i := 0\<rparr>) s1"
  have "terminal_write b n s = Ret (0, ?s)" using p s1 by (simp add: terminal_write_def Let_def)
  then have "write_call env 1 (Some b) n s = Ret (int (length (cstr b)), ?s)"
    using p assms(2) by (simp add: write_call_def write_driver_def on_tty_def bytes_of_def strlen_eq)
  moreover have "term_wf s1" "old_terminal s1 = old_terminal s"
    using console_step_wf[OF s1(2)] console_step_terminals[OF s1(2)] wf by auto
  then have "term_wf ?s" using shown_wf[of s1] term_wf_update[of s1] by auto
  moreover have "prog_view ?s = prog_view s" 
    using prog_view_console[OF s1(2)] by (simp add: prog_view_terminal)
  moreover have "mods ?s = mods s" 
    using console_step_mods[OF s1(2)] by (simp add: mods_key.view_terminal)
  ultimately show ?thesis using tty_open_view[OF assms(1)] by blast
qed

lemma read_call_tty:
  assumes "tty_ready past sh cp scs s" "129 \<le> length b"
  shows "\<exists>s'. read_call (typing env past past_shift scs) 0 (Some b) n s =
      Ret (Some (int (length (typed_text sh cp scs)) + 1,
        Some (typed_text sh cp scs @ 10 # 0 # drop (length (typed_text sh cp scs) + 2) b), s')) \<and> tty_open s' \<and> prog_view s' = prog_view s"
proof -
  have o: "tty_open s" and m: "mods s = (sh, False, cp, False)" "\<forall>x\<in>set scs. line_code past x" "\<not> fst (mods_after sh cp scs)"
    using assms(1) by (auto simp: tty_ready_def)
  obtain p where p: "running s p" "find_terminal (int p) s = int (old_terminal s)" "length (fd (pcbs s p)) = 8"
      "on_tty (fd (pcbs s p) ! 0)" and wf: "term_wf s" using o by (auto simp: tty_open_def)
  obtain s' where s': "terminal_read (map (key_interrupt env past past_shift) (scs @ [0x1C])) b s =
      Ret (Some (int (length (typed_text sh cp scs)) + 1, typed_text sh cp scs @ 10 # 0 # drop (length (typed_text sh cp scs) + 2) b, s'))"
      "term_wf s'" "prog_view s' = prog_view s"
    using terminal_read_codes[OF wf find_programid_running[OF p(1)] p(2) m, of b "typed_text sh cp scs @ [10]" env past_shift] assms(2)
    by (auto simp: typed_text_def)
  then have "read_call (typing env past past_shift scs) 0 (Some b) n s =
      Ret (Some (int (length (typed_text sh cp scs)) + 1,
        Some (typed_text sh cp scs @ 10 # 0 # drop (length (typed_text sh cp scs) + 2) b), s'))"
    using p by (simp add: read_call_def read_driver_def on_tty_def bytes_of_def put_back_def typing_def)
  then show ?thesis using tty_open_view[OF o s'(2,3)] s'(3) by blast
qed

interpretation kernel_out: tty_out "kernel_calls env child" tty_open for env child
  using write_call_tty by unfold_locales (fastforce simp: kernel_calls_def)

interpretation kernel_tty: tty "kernel_calls (typing env past past_shift scs) child" tty_open "tty_ready past sh cp scs" "typed_text sh cp scs"
  for env :: "'a env" and past past_shift scs child sh cp
proof unfold_locales
  fix s :: "'a kernel_scheme" and b n
  assume a: "tty_ready past sh cp scs s" "terminated b"
  then show "\<exists>s'. sys_write (kernel_calls (typing env past past_shift scs) child) 1 b n s = Ret (int (length (cstr b)), s') \<and>
      tty_ready past sh cp scs s'"
    using write_call_tty[of s b "typing env past past_shift scs" n] by (fastforce simp: kernel_calls_def tty_ready_def)
next
  fix s :: "'a kernel_scheme" and b :: "u8 list" and n
  assume a: "tty_ready past sh cp scs s" "129 \<le> length b"
  then show "\<exists>s'. sys_read (kernel_calls (typing env past past_shift scs) child) 0 b n s =
      Ret (int (length (typed_text sh cp scs)) + 1, typed_text sh cp scs @ 10 # 0 # drop (length (typed_text sh cp scs) + 2) b, s') \<and> tty_open s'"
    using read_call_tty[OF a, of env past_shift "word_of_int n"] by (auto simp: kernel_calls_def bytes_of_def)
qed (simp_all add: typed_text_chars)

section \<open>Counting\<close>

definition counted :: "u8 list list \<Rightarrow> (int \<times> u8 list) list" where
  "counted ts = concat (map (\<lambda>t. [(1, t), (1, [10])]) ts)"

definition numbers :: "nat \<Rightarrow> u8 list list \<Rightarrow> bool" where
  "numbers i ts \<longleftrightarrow> (\<forall>k < length ts. denotes 10 (ts ! k) (i + k + 1))"

lemma numbers_Cons: "denotes 10 t (i + 1) \<Longrightarrow> numbers (i + 1) ts \<Longrightarrow> numbers i (t # ts)"
  by (auto simp: numbers_def less_Suc_eq_0_disj)

context tty_out
begin

lemma loop_counts:
  assumes "ok s" "11 \<le> length b" "i + n < 2 ^ 32"
  shows "\<exists>ts s'. counter_loop c i n b (s, log) = Ret (s', log @ counted ts) \<and> length ts = n \<and> numbers i ts \<and> ok s'"
  using assms
proof (induction n arbitrary: i b s log)
  case 0
  then show ?case by (auto simp: counted_def numbers_def)
next
  case (Suc n)
  have v: "unat (word_of_nat (i + 1) :: u32) = i + 1"
    using Suc.prems(3) by (subst unat_of_nat) simp
  obtain b1 where b1: "ece391_itoa (word_of_nat (i + 1)) b 10 = Ret b1" "length b1 = length b" "terminated b1"
      "denotes 10 (cstr b1) (i + 1)"
    using itoa_correct[of 10 "word_of_nat (i + 1)" 10 b] Suc.prems v by (auto simp: ece391_itoa_kernel)
  obtain s1 where s1: "ece391_fdputs c 1 b1 (s, log) = Ret (s1, log @ [(1, cstr b1)])" "ok s1"
    using puts[OF Suc.prems(1) b1(3)] by blast
  obtain s2 where s2: "ece391_fdputs c 1 (lit ''\<newline>'') (s1, log @ [(1, cstr b1)]) = Ret (s2, log @ [(1, cstr b1), (1, [10])])" "ok s2"
    using puts_lit[OF s1(2), of "''\<newline>''" "log @ [(1, cstr b1)]"] by auto
  obtain ts s' where "counter_loop c (i + 1) n b1 (s2, log @ [(1, cstr b1), (1, [10])]) =
      Ret (s', (log @ [(1, cstr b1), (1, [10])]) @ counted ts)" "length ts = n" "numbers (i + 1) ts" "ok s'"
    using Suc.IH[OF s2(2), of b1 "i + 1" "log @ [(1, cstr b1), (1, [10])]"] b1(2) Suc.prems by auto
  with b1 s1 s2 show ?case
    by (intro exI[of _ "cstr b1 # ts"] exI[of _ s']) (simp add: counted_def numbers_Cons)
qed

end

lemma counter_max_eq: "counter_max x = (if x = 48 then 100 else if x = 49 then 10000 else if x = 50 then 100000 else 0)"
  by (simp add: counter_max_def)

lemma counter_choice: "x < 48 \<or> 50 < x \<longleftrightarrow> x \<notin> {48, 49, 50}" for x :: u8
  by (auto simp: word_less_nat_alt word_unat_eq_iff)

context tty
begin

lemma counter_counts:
  assumes "ready s" "129 \<le> length b"
  shows "\<exists>ts s'. opened s' \<and> counter_main c b (s, log) = Ret (0, s', log @
      [(1, map of_char ''Enter the Test Number: (0): 100, (1): 10000, (2): 100000\<newline>'')] @
      (if length l > 1 \<or> length l = 1 \<and> l ! 0 \<notin> {48, 49, 50} then [(1, map of_char ''Wrong Choice!\<newline>'')] else counted ts)) \<and>
    numbers 0 ts \<and> length ts = (if l = [48] then 100 else if l = [49] then 10000 else if l = [50] then 100000 else 0)"
proof -
  define log0 where "log0 = log @ [(1, map of_char ''Enter the Test Number: (0): 100, (1): 10000, (2): 100000\<newline>'')]"
  obtain s0 where s0: "ece391_fdputs c 1 (lit ''Enter the Test Number: (0): 100, (1): 10000, (2): 100000\<newline>'') (s, log) = Ret (s0, log0)"
      "ready s0" using wait.puts_lit[OF assms(1), of "''Enter the Test Number: (0): 100, (1): 10000, (2): 100000\<newline>''" log]
    by (auto simp: log0_def)
  obtain s1 where s1: "ece391_read c 0 b 1023 (s0, log0) = Ret (int (length l) + 1, l @ 10 # 0 # drop (length l + 2) b, s1, log0)"
      "opened s1" using read_logged[OF s0(2) assms(2)] by blast
  define b1 where "b1 = (l @ [10]) @ 0 # drop (length l + 2) b"
  have b1: "buf_set (l @ 10 # 0 # drop (length l + 2) b) (nat (int (length l) + 1)) 0 = Ret b1" "ece391_strlen b1 = Ret (Suc (length l))"
      "11 \<le> length b1" "b1 ! 0 = (if l = [] then 10 else l ! 0)"
    using ended_line[of "drop (length l + 2) b"] assms(2) by (auto simp: b1_def ece391_strlen_eq nth_append)
  have main: "counter_main c b (s, log) =
      (if length l > 1 \<or> length l = 1 \<and> (b1 ! 0 < 48 \<or> b1 ! 0 > 50) then fail c ''Wrong Choice!\<newline>'' 0 (s1, log0)
       else obind (counter_loop c 0 (counter_max (b1 ! 0)) b1 (s1, log0)) (\<lambda>u. Ret (0, u)))"
    using s0(1) s1(1) b1(1,2) by (simp add: counter_main_def)
  obtain s2 where s2: "fail c ''Wrong Choice!\<newline>'' 0 (s1, log0) = Ret (0, s2, log0 @ [(1, map of_char ''Wrong Choice!\<newline>'')])" "opened s2"
    using out.puts_lit[OF s1(2), of "''Wrong Choice!\<newline>''" log0] by (auto simp: fail_def)
  have max: "0 + counter_max (b1 ! 0) < 2 ^ 32" by (simp add: counter_max_eq)
  obtain ts s3 where s3: "counter_loop c 0 (counter_max (b1 ! 0)) b1 (s1, log0) = Ret (s3, log0 @ counted ts)"
      "length ts = counter_max (b1 ! 0)" "numbers 0 ts" "opened s3"
    using out.loop_counts[OF s1(2) b1(3), of 0 "counter_max (b1 ! 0)" log0] max by auto
  show ?thesis
  proof (cases "length l > 1 \<or> length l = 1 \<and> l ! 0 \<notin> {48, 49, 50}")
    case True
    then have "counter_main c b (s, log) = Ret (0, s2, log0 @ [(1, map of_char ''Wrong Choice!\<newline>'')])"
      using main s2(1) b1(4) counter_choice[of "l ! 0"] by auto
    moreover have "l \<noteq> [48]" "l \<noteq> [49]" "l \<noteq> [50]" using True by auto
    ultimately show ?thesis using True s2(2) by (intro exI[of _ "[]"] exI[of _ s2]) (simp add: log0_def numbers_def)
  next
    case False
    then have "counter_main c b (s, log) = Ret (0, s3, log0 @ counted ts)"
      using main s3(1) b1(4) counter_choice[of "l ! 0"] by auto
    moreover have "length ts = (if l = [48] then 100 else if l = [49] then 10000 else if l = [50] then 100000 else 0)"
      using s3(2) b1(4) False by (cases l) (auto simp: counter_max_eq)
    ultimately show ?thesis using False s3(3,4) by (intro exI[of _ ts] exI[of _ s3]) (auto simp: log0_def)
  qed
qed

end

section \<open>Properties\<close>

lemma kbdus_zero: "kbdus ! 0x0B = 48" "kbdus ! 0x12 = 101" "kbdus ! 0x2D = 120" "kbdus ! 0x17 = 105" "kbdus ! 0x14 = 116"
  by (simp_all add: kbdus_def keys_def)

lemma demo_tty_open: "tty_open demo_kernel"
proof -
  have "on_tty (fd demo_pcb ! 0)" "on_tty (fd demo_pcb ! 1)" "length (fd demo_pcb) = 8"
    by (simp_all add: on_tty_def demo_pcb_def demo_fd_def)
  then show ?thesis using demo_running demo_kernel_kbd by (auto simp: tty_open_def intro!: exI[of _ 1])
qed

text \<open>
  C33: the string routines that programs link are those of the kernel: \<open>ece391_strlen\<close>, \<open>ece391_strrev\<close> and
  \<open>ece391_itoa\<close> give, on every input, what \<open>strlen\<close>, \<open>strrev\<close> and \<open>itoa\<close> of \<open>lib.c\<close> give, undefined behaviour
  included.
\<close>

theorem support_agrees:
  "ece391_strlen s = strlen s \<and> ece391_strrev s = strrev s \<and> ece391_itoa v buf radix = itoa v buf radix"
  by (simp add: ece391_strlen_kernel ece391_strrev_kernel ece391_itoa_kernel)

text \<open>
  C7: one turn of the shell on the terminal that is shown, from the scan codes the user types to the
  next prompt: the line spelled by the scan codes, without its newline, is what the shell acts on. \<open>exit\<close> ends
  the shell with status 0, an empty line is passed over, and any other line is handed to \<open>execute\<close>
  as a string; when that comes back, the shell prints the message for its result (none for 0) and goes on.
\<close>

theorem shell_turn_runs:
  assumes "tty_ready past sh cp scs s" "length b = 1024" "l = typed_text sh cp scs"
    and "c = kernel_calls (typing env past past_shift scs) child" "prompt = (1, map of_char ''391OS> '')"
  shows "\<exists>s1 b1. tty_open s1 \<and> terminated b1 \<and> cstr b1 = l \<and>
    (l = map of_char ''exit'' \<longrightarrow> shell_turn c b (s, log) = Ret (Some 0, b1, s1, log @ [prompt])) \<and>
    (l = [] \<longrightarrow> shell_turn c b (s, log) = Ret (None, b1, s1, log @ [prompt])) \<and>
    (l \<noteq> map of_char ''exit'' \<and> l \<noteq> [] \<longrightarrow> (\<forall>rval s2. child b1 s1 = Ret (rval, s2) \<and> tty_open s2 \<longrightarrow>
      (\<exists>s3. tty_open s3 \<and> shell_turn c b (s, log) = Ret (None, b1, s3, log @ prompt # shell_says rval))))"
proof -
  have "sys_execute c = child" by (simp add: assms(4) kernel_calls_def)
  with kernel_tty.shell_executes[OF assms(1), of b env past_shift child log] assms(2-5) show ?thesis by simp
qed

theorem shell_turn_runs_witness:
  "\<exists>s1 b1. shell_turn (kernel_calls (typing demo_env (\<lambda>_. 0) (\<lambda>_. 0) [0x12, 0x92, 0x2D, 0x17, 0x14]) (\<lambda>_ _. Undef)) (replicate 1024 1)
     (demo_kernel, []) = Ret (Some 0, b1, s1, [(1, map of_char ''391OS> '')])"
proof -
  have "tty_ready (\<lambda>_. 0) False False [0x12, 0x92, 0x2D, 0x17, 0x14] demo_kernel"
    by (simp add: tty_ready_def demo_tty_open demo_kernel_kbd line_code_def mods_after.simps(2))
  moreover have "map of_char ''exit'' = typed_text False False [0x12, 0x92, 0x2D, 0x17, 0x14]"
    by (simp add: typed_text_def decode.simps(2) key_of_def kbdus_zero)
  ultimately show ?thesis
    using shell_turn_runs[of "\<lambda>_. 0" False False "[0x12, 0x92, 0x2D, 0x17, 0x14]" demo_kernel "replicate 1024 1" "map of_char ''exit''" _ demo_env
      "\<lambda>_. 0" "\<lambda>_ _. Undef" "(1, map of_char ''391OS> '')" "[]"] by auto
qed

text \<open>
  \<open>hello\<close> asks for a name, waits for the line the user types and greets with exactly this line: it returns 0
  after writing the question, the greeting and the line with its newline to descriptor 1, in this order.
\<close>

lemma hello_greets_user:
  assumes "tty_ready past sh cp scs s" "length b = 1024"
  shows "\<exists>s'. tty_open s' \<and> hello_main (kernel_calls (typing env past past_shift scs) child) b (s, log) =
    Ret (0, s', log @ [(1, map of_char ''Hi, what's your name? ''), (1, map of_char ''Hello, ''), (1, typed_text sh cp scs @ [10])])"
  using kernel_tty.hello_greets[OF assms(1)] assms(2) by simp

lemma hello_greets_user_example:
  "\<exists>s'. hello_main (kernel_calls (typing demo_env (\<lambda>_. 0) (\<lambda>_. 0) [0x2A, 0x23, 0xA3, 0xAA, 0x23, 0x0E, 0x17, 0x97]) (\<lambda>_ _. Undef))
     (replicate 1024 1) (demo_kernel, []) =
     Ret (0, s', [(1, map of_char ''Hi, what's your name? ''), (1, map of_char ''Hello, ''), (1, map of_char ''Hi\<newline>'')])"
proof -
  have "tty_ready (\<lambda>_. 0) False False [0x2A, 0x23, 0xA3, 0xAA, 0x23, 0x0E, 0x17, 0x97] demo_kernel"
    by (simp add: tty_ready_def demo_tty_open demo_kernel_kbd line_code_def mods_after.simps(2))
  moreover have "typed_text False False [0x2A, 0x23, 0xA3, 0xAA, 0x23, 0x0E, 0x17, 0x97] = [72, 105]"
    unfolding typed_text_def decode_hi by simp
  ultimately show ?thesis
    using hello_greets_user[of "\<lambda>_. 0" False False "[0x2A, 0x23, 0xA3, 0xAA, 0x23, 0x0E, 0x17, 0x97]" demo_kernel "replicate 1024 1" demo_env
      "\<lambda>_. 0" "\<lambda>_ _. Undef" "[]"] by auto
qed

text \<open>
  C13: \<open>counter\<close> asks for a test number and prints, for the answers 0, 1 and 2, the decimal numbers from 1 to 100,
  10000 and 100000, each followed by a newline; it refuses every other answer of one or more
  characters and prints nothing for an empty line. It returns 0 in every case.
\<close>

theorem counter_counts_up:
  assumes "tty_ready past sh cp scs s" "length b = 1024" "l = typed_text sh cp scs"
  shows "\<exists>ts s'. tty_open s' \<and> counter_main (kernel_calls (typing env past past_shift scs) child) b (s, log) = Ret (0, s', log @
      [(1, map of_char ''Enter the Test Number: (0): 100, (1): 10000, (2): 100000\<newline>'')] @
      (if length l > 1 \<or> length l = 1 \<and> l ! 0 \<notin> {48, 49, 50} then [(1, map of_char ''Wrong Choice!\<newline>'')] else counted ts)) \<and>
    (\<forall>k < length ts. denotes 10 (ts ! k) (k + 1)) \<and>
    length ts = (if l = [48] then 100 else if l = [49] then 10000 else if l = [50] then 100000 else 0)"
proof -
  have "129 \<le> length b" using assms(2) by simp
  from kernel_tty.counter_counts[OF assms(1) this, folded assms(3)] show ?thesis by (simp only: numbers_def add_0)
qed

theorem counter_counts_up_witness:
  "\<exists>ts s'. counter_main (kernel_calls (typing demo_env (\<lambda>_. 0) (\<lambda>_. 0) [0x0B, 0x8B]) (\<lambda>_ _. Undef)) (replicate 1024 1) (demo_kernel, []) =
     Ret (0, s', (1, map of_char ''Enter the Test Number: (0): 100, (1): 10000, (2): 100000\<newline>'') # counted ts) \<and>
     length ts = 100 \<and> denotes 10 (ts ! 99) 100"
proof -
  have r: "tty_ready (\<lambda>_. 0) False False [0x0B, 0x8B] demo_kernel"
    by (simp add: tty_ready_def demo_tty_open demo_kernel_kbd line_code_def mods_after.simps(2))
  have t: "[48] = typed_text False False [0x0B, 0x8B]"
    by (simp add: typed_text_def decode.simps(2) key_of_def kbdus_zero)
  have "\<exists>ts s'. tty_open s' \<and> counter_main (kernel_calls (typing demo_env (\<lambda>_. 0) (\<lambda>_. 0) [0x0B, 0x8B]) (\<lambda>_ _. Undef)) (replicate 1024 1) (demo_kernel, []) =
      Ret (0, s', (1, map of_char ''Enter the Test Number: (0): 100, (1): 10000, (2): 100000\<newline>'') # counted ts) \<and>
      (\<forall>k < length ts. denotes 10 (ts ! k) (k + 1)) \<and> length ts = 100"
    using counter_counts_up[OF r _ t, of "replicate 1024 1" demo_env "\<lambda>_. 0" "\<lambda>_ _. Undef" "[]"] by simp
  then obtain ts s' where c: "counter_main (kernel_calls (typing demo_env (\<lambda>_. 0) (\<lambda>_. 0) [0x0B, 0x8B]) (\<lambda>_ _. Undef)) (replicate 1024 1) (demo_kernel, []) =
      Ret (0, s', (1, map of_char ''Enter the Test Number: (0): 100, (1): 10000, (2): 100000\<newline>'') # counted ts)"
      and d: "\<forall>k < length ts. denotes 10 (ts ! k) (k + 1)" and l: "length ts = 100" by blast
  have "denotes 10 (ts ! 99) 100" using d[rule_format, of 99] l by simp
  with c l show ?thesis by blast
qed


text \<open>
  C37: \<open>cat\<close> does not work for a file of which 1024 bytes in a row without a NUL are left to read: its buffer is full of
  file contents, and \<open>write\<close> of the kernel, which looks for the end of a string, reads past it.
\<close>

theorem cat_overruns:
  assumes "in_file n i inode s" "2 \<le> i" "i < 8" "length (fd (pcbs s n)) = 8"
    and "flags (fd_of n i s) \<noteq> 0" "sysops_ptr (fd_of n i s) = Some File_ops" "on_tty (fd_of n 1 s)" "length b = 1024"
    and "1024 \<le> length (file_rest n i inode s)" "0 \<notin> set (take 1024 (file_rest n i inode s))"
  shows "cat_loop (Suc fuel) (kernel_calls env child) (int i) b (s, log) = Undef"
proof -
  let ?t = "take 1024 (file_rest n i inode s)"
  have run: "running s n" using assms(1) by (simp add: in_file_def)
  obtain s1 where s1: "read_file i (Some b) 1024 s = Ret (1024, Some ?t, s1)" "in_file n i inode s1" "only_fd n i s s1"
    using read_file_chunk[OF assms(1), of 1024 b] assms(8,9) by auto
  have "read_call env (int i) (Some b) 1024 s = Ret (Some (1024, Some ?t, s1))"
    using run s1(1) assms(2-6) by (simp add: read_call_def read_driver_def fd_of_def)
  then have rd: "ece391_read (kernel_calls env child) (int i) b 1024 (s, log) = Ret (1024, ?t, s1, log)"
    by (simp add: ece391_read_def kernel_calls_def bytes_of_def)
  have len: "0 < length ?t" using assms(9) by simp
  have t: "?t \<noteq> []" "?t ! 0 \<noteq> 0" "\<not> terminated ?t"
    using len nth_mem[OF len] assms(10) by (fastforce, metis, simp add: terminated_def)
  have "write_loop ?t 1024 0 s1 = Undef"
    by (subst write_loop.simps) (use t in \<open>simp add: strlen_eq\<close>)
  moreover have "running s1 n" using s1(2) by (simp add: in_file_def)
  moreover have "on_tty (fd (pcbs s1 n) ! 1)" "length (fd (pcbs s1 n)) = 8"
    using s1(3) assms(2,4,7) by (auto simp: only_fd_def fd_of_def)
  ultimately have "write_call env 1 (Some ?t) 1024 s1 = Undef"
    by (simp add: write_call_def write_driver_def on_tty_def terminal_write_def bytes_of_def Let_def)
  then show ?thesis using rd by (simp add: ece391_write_def kernel_calls_def)
qed

text \<open>The file of the demonstration image with 1024 bytes of the letter A.\<close>

definition demo_long :: kernel where
  "demo_long = demo_kernel\<lparr>mem := (\<lambda>a. if 8192 \<le> a then 65 else if a = 4097 then 4 else if a = 4096 then 0 else demo_image a)\<rparr>"

lemma demo_long_simps:
  "bootHead demo_long = 0" "pcbs demo_long n = demo_pcb" "running demo_long 1"
  "mem demo_long = (\<lambda>a. if 8192 \<le> a then 65 else if a = 4097 then 4 else if a = 4096 then 0 else demo_image a)"
  using demo_kernel_image by (simp_all add: demo_long_def running_def same_image_def)

lemma demo_long_numbers: "numInode demo_long = 1" "file_size demo_long 0 = 1024"
  by (simp_all add: numInode_def file_size_def inode_length_def get_inodeptr_def le32_def demo_long_simps demo_image_def)

lemma demo_long_byte:
  assumes "j < 1024"
  shows "file_byte demo_long 0 j = 65"
proof -
  have "data_block demo_long 0 0 = 8192"
    by (simp add: data_block_def block_ptr_def get_inodeptr_def demo_long_numbers demo_long_simps le32_def demo_image_def)
  moreover have "unat (8192 + of_nat j :: u32) = 8192 + j" using assms by (simp add: unat_word_ariths unat_of_nat)
  ultimately show ?thesis using assms by (simp add: file_byte_def demo_long_simps word_le_nat_alt)
qed

lemma demo_long_lookup: "\<exists>d. read_dentry_by_name (102 # replicate 31 0) demo_long = Ret (Some d) \<and> inodeNum d = 0"
proof -
  have "mem demo_long (64 + of_nat k) = (if k = 0 then 102 else 0)" if "k < 32" for k
  proof -
    have "unat (64 + of_nat k :: u32) = 64 + k" using that by (simp add: unat_word_ariths unat_of_nat)
    then have "\<not> 8192 \<le> (64 + of_nat k :: u32)" "64 + of_nat k \<noteq> (4097 :: u32)" "64 + of_nat k \<noteq> (4096 :: u32)"
      using that by (auto simp: word_le_nat_alt dest: arg_cong[where f = unat])
    then show ?thesis using demo_name_bytes[of 0 k] that by (simp add: demo_long_simps)
  qed
  then have "fileName (entry demo_long 0) = 102 # replicate 31 0"
    by (intro nth_equalityI) (simp_all add: entry_def mem_bytes_def demo_long_simps(1) nth_Cons split: nat.split)
  moreover have "inodeNum (entry demo_long 0) = 0" by (simp add: entry_def le32_def demo_long_simps demo_image_def)
  moreover have "[0..<63] = 0 # [1..<63]" by (simp add: upt_rec)
  ultimately show ?thesis
    using read_dentry_by_name_find[of "102 # replicate 31 0" demo_long] by (simp add: demo_terminated demo_cstr same_prefix_def)
qed

theorem cat_overruns_witness:
  "cat_loop (Suc 0) (kernel_calls demo_env (\<lambda>_ _. Undef)) 2 (replicate 1024 0) (demo_long, []) = Undef"
proof -
  have fds: "fd_of 1 2 demo_long = demo_fd 1 (Some File_ops)" "fd_of 1 1 demo_long = demo_fd 1 (Some Terminal_ops)" "length (fd demo_pcb) = 8"
    by (simp_all add: fd_of_def demo_long_simps demo_pcb_def)
  have rest: "file_rest 1 2 0 demo_long = replicate 1024 65"
    unfolding file_rest_def fds(1) file_bytes_def demo_long_numbers
    by (rule nth_equalityI) (simp_all add: demo_fd_def demo_long_byte)
  have "in_file 1 2 0 demo_long"
    using demo_long_lookup by (simp add: in_file_def fds demo_long_simps demo_long_numbers valid_inode_def demo_fd_def del: One_nat_def)
  then show ?thesis
    using cat_overruns[of 1 2 0 demo_long "replicate 1024 0" 0 demo_env "\<lambda>_ _. Undef" "[]"]
    by (simp add: fds demo_long_simps demo_fd_def on_tty_def rest del: cat_loop.simps One_nat_def)
qed

end
