(* ===== verification/Apart.thy ===== *)
theory Apart
  imports Runs
begin

text \<open>
  The file system and the screen share the memory: a program that reads a file while it writes to
  the terminal relies on the image lying apart from the screen. This theory shows which bytes \<open>terminal_write\<close> can reach,
  which bytes lookups and files depend on, and, with the two apart, what \<open>cat\<close> and \<open>ls\<close> do.
\<close>

section \<open>The bytes terminal\_write can reach\<close>

text \<open>
  Twenty-six rows from the start of video memory: a short text at the end of the last row goes to the row below it.
\<close>

abbreviation "window \<equiv> in_range VIDEO 4160"

definition apart :: "'a machine_scheme \<Rightarrow> 'b machine_scheme \<Rightarrow> bool" where
  "apart s s' \<longleftrightarrow> (\<forall>a. \<not> window a \<longrightarrow> mem s' a = mem s a)"

definition writable :: "'a console_scheme \<Rightarrow> bool" where
  "writable s \<longleftrightarrow> 0 \<le> screen_x s \<and> screen_x s < NUM_COLS \<and> 0 \<le> screen_y s \<and> screen_y s \<le> 26 \<and> (screen_x s = 0 \<or> screen_y s < NUM_ROWS)"

lemma apart_refl [simp]: "apart s s"
  by (simp add: apart_def)

lemma apart_trans: "apart s1 s2 \<Longrightarrow> apart s2 s3 \<Longrightarrow> apart s1 s3"
  by (simp add: apart_def)

lemma vid_window: "0 \<le> k \<Longrightarrow> k < 4160 \<Longrightarrow> window (vid k)"
  by (subst vid_range) auto

lemma scroll_apart: "apart s (pressed_enter s)"
proof -
  have "mem (pressed_enter s) a = mem s a" if "\<not> window a" for a
  proof (rule pressed_enter_outside(2))
    show "\<not> in_range VIDEO 4000 a" using that by (auto simp: in_range_def)
    show "a \<noteq> vid 4001" using that vid_window[of 4001] by auto
  qed
  then show ?thesis by (simp add: apart_def)
qed

lemma write_newrow_apart:
  assumes "writable s"
  shows "apart s (write_newrow s)" "writable (write_newrow s)" "screen_y (write_newrow s) < NUM_ROWS"
  using assms scroll_apart[of s]
  by (auto simp: write_newrow_def writable_def get_cursor_x_def get_cursor_y_def apart_def)

lemma write_wrap_apart:
  assumes "writable s" "screen_y s < NUM_ROWS"
  shows "apart s (write_wrap len s)" "writable (write_wrap len s)" "screen_y (write_wrap len s) \<le> NUM_ROWS"
  using assms scroll_apart[of s]
  by (auto simp: write_wrap_def writable_def get_cursor_x_def get_cursor_y_def apart_def)

lemma putc_apart:
  assumes "writable s" "screen_y s \<le> NUM_ROWS"
  shows "apart s (putc c s)" "writable (putc c s)"
proof -
  let ?k = "cell_off (screen_x s) (screen_y s)"
  have k: "0 \<le> ?k" "?k + 1 < 4160" using assms by (auto simp: cell_off_def writable_def)
  then show "apart s (putc c s)"
    using vid_window[of ?k] vid_window[of "?k + 1"]
    by (cases "is_newline c") (auto simp: apart_def putc_newline putc_mem put_cell_def Let_def poke_def)
  show "writable (putc c s)"
  proof (cases "is_newline c")
    case True
    then show ?thesis using assms putc_newline[OF True, of s] by (simp add: writable_def)
  next
    case False
    have "screen_x s + 1 = 80 \<or> screen_x s + 1 < 80" using assms by (auto simp: writable_def)
    with False show ?thesis using assms by (auto simp: putc_def is_newline_def writable_def cmod_def cdiv_def Let_def sgn_if)
  qed
qed

lemma write_loop_apart:
  assumes "terminated buf" "i \<le> length (cstr buf)" "writable s"
  shows "\<exists>s'. write_loop buf nbytes i s = Ret s' \<and> writable s' \<and> apart s s'"
  using assms
proof (induction buf nbytes i s rule: write_loop.induct)
  case (1 buf nbytes i s)
  have len: "i < length buf" using "1.prems" length_cstr_less le_less_trans by blast
  show ?case
  proof (cases "buf ! i \<noteq> 0 \<and> int i < nbytes")
    case False
    with len "1.prems"(3) show ?thesis by (subst write_loop.simps) auto
  next
    case True
    let ?n = "length (cstr buf)"
    have i: "i < ?n" using True "1.prems" nth_length_cstr[of buf] length_cstr_less[of buf] by (cases "i = ?n") auto
    note r = write_newrow_apart[OF "1.prems"(3)]
    note w = write_wrap_apart[OF r(2,3), of ?n]
    let ?s = "write_wrap ?n (write_newrow s)"
    note p = putc_apart[OF w(2,3), of "buf ! i"]
    have sl: "strlen buf = Ret ?n" using "1.prems"(1) by (simp add: strlen_eq)
    obtain s' where s': "write_loop buf nbytes (Suc i) (putc (buf ! i) ?s) = Ret s'" "writable s'" "apart (putc (buf ! i) ?s) s'"
      using "1.IH"[OF len True, of ?n "(2, putc (buf ! i) ?s)"] "1.prems"(1) i sl p(2) by (auto simp: printf_char)
    have "apart s s'" using r(1) w(1) p(1) s'(3) apart_trans by blast
    with s' len True sl show ?thesis by (subst write_loop.simps) (auto simp: printf_char)
  qed
qed

section \<open>The bytes lookups and files depend on\<close>

text \<open>The boot block with the directory, the block of an inode, and its data blocks.\<close>

definition boot_bytes :: "'a fs_scheme \<Rightarrow> u32 \<Rightarrow> bool" where
  "boot_bytes s a \<longleftrightarrow> in_range (bootHead s) 4096 a"

definition inode_bytes :: "'a fs_scheme \<Rightarrow> u32 \<Rightarrow> u32 \<Rightarrow> bool" where
  "inode_bytes s inode a \<longleftrightarrow> in_range (get_inodeptr inode s) 4096 a \<or>
     (\<exists>k. 4096 * k < file_size s inode \<and> in_range (data_block s inode k) 4096 a)"

definition dir_apart :: "'a fs_scheme \<Rightarrow> bool" where
  "dir_apart s \<longleftrightarrow> (\<forall>a. window a \<longrightarrow> \<not> boot_bytes s a)"

definition file_apart :: "'a fs_scheme \<Rightarrow> u32 \<Rightarrow> bool" where
  "file_apart s inode \<longleftrightarrow> dir_apart s \<and> (\<forall>a. window a \<longrightarrow> \<not> inode_bytes s inode a)"

lemma in_range_of_nat: "k < n \<Longrightarrow> n \<le> 2 ^ 32 \<Longrightarrow> in_range b n (b + of_nat k)"
  by (simp add: in_range_def unat_of_nat32)

text \<open>Bytes of a block of 4096 that is apart from the screen.\<close>

lemma block_apart:
  assumes "apart s s'" "\<forall>a. window a \<longrightarrow> \<not> in_range b 4096 a"
  shows "k < 4096 \<Longrightarrow> mem s' (b + of_nat k) = mem s (b + of_nat k)"
    and "k + 4 \<le> 4096 \<Longrightarrow> le32 (mem s') (b + of_nat k) = le32 (mem s) (b + of_nat k)"
    and "k + n \<le> 4096 \<Longrightarrow> mem_bytes (mem s') (b + of_nat k) n = mem_bytes (mem s) (b + of_nat k) n"
proof -
  have byte: "mem s' (b + of_nat k) = mem s (b + of_nat k)" if "k < 4096" for k
    using assms in_range_of_nat[OF that, of b] by (auto simp: apart_def)
  then show "k < 4096 \<Longrightarrow> mem s' (b + of_nat k) = mem s (b + of_nat k)" .
  show "le32 (mem s') (b + of_nat k) = le32 (mem s) (b + of_nat k)" if "k + 4 \<le> 4096"
    using byte[of k] byte[of "k + 1"] byte[of "k + 2"] byte[of "k + 3"] that by (simp add: le32_def ac_simps)
  show "mem_bytes (mem s') (b + of_nat k) n = mem_bytes (mem s) (b + of_nat k) n" if "k + n \<le> 4096"
  proof -
    have "mem s' (b + of_nat k + of_nat i) = mem s (b + of_nat k + of_nat i)" if "i < n" for i
      using byte[of "k + i"] that \<open>k + n \<le> 4096\<close> by (simp add: add.assoc)
    then show ?thesis by (simp add: mem_bytes_def)
  qed
qed

lemma dir_apart_same:
  assumes "apart s s'" "dir_apart s" "bootHead s' = bootHead s"
  shows "numInode s' = numInode s" "numDirectory s' = numDirectory s" "i < 63 \<Longrightarrow> entry s' i = entry s i"
    "read_dentry_by_name f s' = read_dentry_by_name f s" "dir_apart s'"
proof -
  have b: "\<forall>a. window a \<longrightarrow> \<not> in_range (bootHead s) 4096 a" using assms(2) by (simp add: dir_apart_def boot_bytes_def)
  note blk = block_apart[OF assms(1) b]
  show "numInode s' = numInode s" "numDirectory s' = numDirectory s"
    using blk(2)[of 4] blk(2)[of 0] assms(3) by (simp_all add: numInode_def numDirectory_def)
  show ent: "entry s' i = entry s i" if "i < 63" for i
  proof -
    show ?thesis
      using blk(3)[of "64 + 64 * i" 32] blk(2)[of "96 + 64 * i"] blk(2)[of "100 + 64 * i"] blk(3)[of "104 + 64 * i" 24] that assms(3)
      by (simp add: entry_def ac_simps)
  qed
  have "dir_Entries s' j = dir_Entries s j" for j
    using ent[of j] by (cases "j < 63") (simp add: dir_Entries_entry, simp add: dir_Entries_def)
  then have "find_dentry s' t is = find_dentry s t is" for t "is"
    by (induction "is") (simp_all cong: obind_cong if_cong)
  then show "read_dentry_by_name f s' = read_dentry_by_name f s" by (simp add: read_dentry_by_name_def)
  show "dir_apart s'" using assms(2,3) by (simp add: dir_apart_def boot_bytes_def)
qed

lemma file_apart_same:
  assumes "apart s s'" "file_apart s inode" "bootHead s' = bootHead s" "valid_inode s inode"
  shows "file_size s' inode = file_size s inode" "file_bytes s' inode = file_bytes s inode" "valid_inode s' inode" "file_apart s' inode"
proof -
  have dir: "dir_apart s" using assms(2) by (simp add: file_apart_def)
  note d = dir_apart_same[OF assms(1) dir assms(3)]
  have ptr: "get_inodeptr inode s' = get_inodeptr inode s" using assms(3) by (simp add: get_inodeptr_def)
  have b: "\<forall>a. window a \<longrightarrow> \<not> in_range (get_inodeptr inode s) 4096 a"
    using assms(2) by (auto simp: file_apart_def inode_bytes_def)
  note blk = block_apart[OF assms(1) b]
  show size: "file_size s' inode = file_size s inode"
    using blk(2)[of 0] ptr by (simp add: file_size_def inode_length_def)
  have data: "data_block s' inode k = data_block s inode k" if "4096 * k < file_size s inode" for k
  proof -
    have "k < 1023" using that assms(4) by (simp add: valid_inode_def)
    then have "le32 (mem s') (get_inodeptr inode s + 4 + 4 * of_nat k) = le32 (mem s) (get_inodeptr inode s + 4 + 4 * of_nat k)"
      using blk(2)[of "4 + 4 * k"] by (simp add: ac_simps)
    then show ?thesis using ptr d(1) assms(3) by (simp add: data_block_def block_ptr_def)
  qed
  have "file_byte s' inode j = file_byte s inode j" if "j < file_size s inode" for j
  proof -
    have k: "4096 * (j div 4096) < file_size s inode" using that by (meson le_less_trans div_times_less_eq_dividend mult.commute order_trans times_div_less_eq_dividend)
    then have "\<forall>a. window a \<longrightarrow> \<not> in_range (data_block s inode (j div 4096)) 4096 a"
      using assms(2) by (auto simp: file_apart_def inode_bytes_def)
    from block_apart(1)[OF assms(1) this, of "j mod 4096"] show ?thesis using data[OF k] by (simp add: file_byte_def)
  qed
  then show "file_bytes s' inode = file_bytes s inode" using size by (simp add: file_bytes_def)
  show "valid_inode s' inode" using assms(4) size d(1) by (simp add: valid_inode_def)
  have "inode_bytes s' inode = inode_bytes s inode"
    using ptr size data by (auto simp: inode_bytes_def intro!: ext)
  then show "file_apart s' inode" using assms(2) d(5) by (simp add: file_apart_def)
qed

section \<open>Programs that copy items to the terminal\<close>

text \<open>The buffers a copying program passes to \<open>write\<close>, one after the other.\<close>

fun buffers :: "(u8 list \<Rightarrow> u8 list \<Rightarrow> u8 list) \<Rightarrow> u8 list \<Rightarrow> u8 list list \<Rightarrow> u8 list list" where
  "buffers f b [] = []"
| "buffers f b (x # xs) = f x b # buffers f (f x b) xs"

text \<open>
  A descriptor hands out one item per call, in a buffer of \<open>sz\<close> bytes that then reads \<open>put x b\<close>; writing to the
  terminal does not disturb it. The call that finds nothing left ends in a state with \<open>fin\<close>.
\<close>

locale item_out = tty_out c ok for c :: "'s calls" and ok :: "'s \<Rightarrow> bool" +
  fixes des :: int and n :: int and sz :: nat and todo :: "'s \<Rightarrow> u8 list list" and put :: "u8 list \<Rightarrow> u8 list \<Rightarrow> u8 list"
    and fin :: "'s \<Rightarrow> bool"
  assumes read_item: "ok s \<Longrightarrow> todo s = x # xs \<Longrightarrow> length b = sz \<Longrightarrow>
      \<exists>s'. sys_read c des b n s = Ret (int (length x), put x b, s') \<and> ok s' \<and> todo s' = xs"
    and read_end: "ok s \<Longrightarrow> todo s = [] \<Longrightarrow> length b = sz \<Longrightarrow> \<exists>s'. sys_read c des b n s = Ret (0, b, s') \<and> fin s'"
    and item_put: "ok s \<Longrightarrow> x \<in> set (todo s) \<Longrightarrow> length b = sz \<Longrightarrow> x \<noteq> [] \<and> length (put x b) = sz \<and> take (length x) (put x b) = x"
    and write_keeps: "ok s \<Longrightarrow> terminated b \<Longrightarrow> sys_write c 1 b k s = Ret (r, s') \<Longrightarrow> todo s' = todo s"

begin

lemma write_next:
  assumes "ok s" "terminated b"
  shows "\<exists>s' r. ece391_write c 1 b k (s, log) = Ret (r, s', log @ [(1, take (nat k) b)]) \<and> 0 \<le> r \<and> ok s' \<and> todo s' = todo s"
proof -
  obtain s' where "sys_write c 1 b k s = Ret (int (length (cstr b)), s')" "ok s'" using write_text[OF assms, of k] by blast
  with write_keeps[OF assms] show ?thesis by (auto simp: ece391_write_def)
qed

lemma cat_copies:
  assumes "ok s" "length b = sz" "n = 1024" "\<forall>b1\<in>set (buffers put b (todo s)). terminated b1" "length (todo s) < fuel"
  shows "\<exists>s'. cat_loop fuel c des b (s, log) = Ret (Some (0, s', log @ map (Pair 1) (todo s)))"
  using assms
proof (induction fuel arbitrary: s b log)
  case (Suc fuel)
  show ?case
  proof (cases "todo s")
    case Nil
    with read_end[OF Suc.prems(1) Nil Suc.prems(2)] Suc.prems(3) show ?thesis by (auto simp: ece391_read_def)
  next
    case (Cons x xs)
    let ?b = "put x b"
    obtain s1 where s1: "sys_read c des b 1024 s = Ret (int (length x), ?b, s1)" "ok s1" "todo s1 = xs"
      using read_item[OF Suc.prems(1) Cons Suc.prems(2)] Suc.prems(3) by auto
    have x: "x \<noteq> []" "length ?b = sz" "take (length x) ?b = x"
      using item_put[OF Suc.prems(1) _ Suc.prems(2), of x] Cons by auto
    have t: "terminated ?b" "\<forall>b1\<in>set (buffers put ?b (todo s1)). terminated b1" using Suc.prems(4) Cons s1(3) by auto
    obtain s2 r where s2: "ece391_write c 1 ?b (int (length x)) (s1, log) = Ret (r, s2, log @ [(1, x)])" "0 \<le> r" "ok s2" "todo s2 = xs"
      using write_next[OF s1(2) t(1), of "int (length x)" log] x(3) s1(3) by auto
    obtain s' where "cat_loop fuel c des ?b (s2, log @ [(1, x)]) = Ret (Some (0, s', (log @ [(1, x)]) @ map (Pair 1) xs))"
      using Suc.IH[OF s2(3) x(2) Suc.prems(3), of "log @ [(1, x)]"] t(2) s1(3) s2(4) Suc.prems(5) Cons by auto
    with s1 s2 x Cons show ?thesis by (auto simp: ece391_read_def)
  qed
qed simp

lemma ls_copies:
  assumes "ok s" "length b = sz" "n = 32" "\<forall>b1\<in>set (buffers (\<lambda>x b. (put x b)[length x := 10]) b (todo s)). terminated b1"
    and "\<forall>x\<in>set (todo s). length x < sz" "length (todo s) < fuel"
  shows "\<exists>s'. ls_loop fuel c des b (s, log) = Ret (Some (0, s', log @ map (\<lambda>x. (1, x @ [10])) (todo s))) \<and> fin s'"
  using assms
proof (induction fuel arbitrary: s b log)
  case (Suc fuel)
  show ?case
  proof (cases "todo s")
    case Nil
    with read_end[OF Suc.prems(1) Nil Suc.prems(2)] Suc.prems(3) show ?thesis by (auto simp: ece391_read_def)
  next
    case (Cons x xs)
    let ?b = "(put x b)[length x := 10]"
    obtain s1 where s1: "sys_read c des b 32 s = Ret (int (length x), put x b, s1)" "ok s1" "todo s1 = xs"
      using read_item[OF Suc.prems(1) Cons Suc.prems(2)] Suc.prems(3) by auto
    have x: "x \<noteq> []" "length (put x b) = sz" "take (length x) (put x b) = x" "length x < sz"
      using item_put[OF Suc.prems(1) _ Suc.prems(2), of x] Cons Suc.prems(5) by auto
    have line: "take (Suc (length x)) ?b = x @ [10]"
      using x by (simp add: take_Suc_conv_app_nth)
    have t: "terminated ?b" "\<forall>b1\<in>set (buffers (\<lambda>x b. (put x b)[length x := 10]) ?b (todo s1)). terminated b1"
      using Suc.prems(4) Cons s1(3) by auto
    obtain s2 r where s2: "ece391_write c 1 ?b (int (length x) + 1) (s1, log) = Ret (r, s2, log @ [(1, x @ [10])])" "0 \<le> r" "ok s2" "todo s2 = xs"
      using write_next[OF s1(2) t(1), of "int (length x) + 1" log] line s1(3) by (auto simp: nat_add_distrib)
    obtain s' where "ls_loop fuel c des ?b (s2, log @ [(1, x @ [10])]) = Ret (Some (0, s', (log @ [(1, x @ [10])]) @ map (\<lambda>x. (1, x @ [10])) xs))" "fin s'"
      using Suc.IH[OF s2(3) _ Suc.prems(3), of ?b "log @ [(1, x @ [10])]"] t(2) s1(3) s2(4) Suc.prems(5,6) Cons x(2) by auto
    with s1 s2 x Cons show ?thesis by (auto simp: ece391_read_def)
  qed
qed simp

end

section \<open>cat and ls on the kernel\<close>

lemma console_step_fs:
  assumes "console_step s s'"
  shows "bootHead s' = bootHead s" "currentDirIndex s' = currentDirIndex s"
  using arg_cong[OF assms[unfolded console_step_def], of bootHead]
    arg_cong[OF assms[unfolded console_step_def], of currentDirIndex] by simp_all

lemma update_terminal_fs [simp]:
  "bootHead (update_terminal k f s) = bootHead s" "currentDirIndex (update_terminal k f s) = currentDirIndex s"
  "mem (update_terminal k f s) = mem s" "screen_x (update_terminal k f s) = screen_x s" "screen_y (update_terminal k f s) = screen_y s"
  by (simp_all add: update_terminal_def)

lemma write_call_apart:
  assumes "tty_open s" "writable s" "terminated b"
  shows "\<exists>s'. write_call env 1 (Some b) n s = Ret (int (length (cstr b)), s') \<and> tty_open s' \<and> writable s' \<and> apart s s' \<and>
    bootHead s' = bootHead s \<and> currentDirIndex s' = currentDirIndex s \<and> prog_view s' = prog_view s"
proof -
  obtain p where p: "running s p" "find_terminal (int p) s = int (old_terminal s)" "length (fd (pcbs s p)) = 8"
      "on_tty (fd (pcbs s p) ! 1)" and wf: "term_wf s" using assms(1) by (auto simp: tty_open_def)
  obtain s1 where s1: "write_loop b n 0 s = Ret s1" "writable s1" "apart s s1" "console_step s s1"
    using write_loop_apart[OF assms(3) _ assms(2), of 0 n] write_loop_total[OF assms(3), of 0 n s] by auto
  let ?s = "update_terminal (old_terminal s) (\<lambda>t. t\<lparr>buffer_i := 0\<rparr>) s1"
  have "terminal_write b n s = Ret (0, ?s)" using p s1 by (simp add: terminal_write_def Let_def)
  then have w: "write_call env 1 (Some b) n s = Ret (int (length (cstr b)), ?s)"
    using p assms(3) by (simp add: write_call_def write_driver_def on_tty_def bytes_of_def strlen_eq)
  have "term_wf s1" "old_terminal s1 = old_terminal s"
    using console_step_wf[OF s1(4)] console_step_terminals[OF s1(4)] wf by auto
  then have "term_wf ?s" using shown_wf[of s1] term_wf_update[of s1] by auto
  moreover have v: "prog_view ?s = prog_view s" using prog_view_console[OF s1(4)] by (simp add: prog_view_terminal)
  ultimately have "tty_open ?s" using tty_open_view[OF assms(1)] by blast
  moreover have "writable ?s" "apart s ?s" using s1(2,3) by (simp_all add: writable_def apart_def)
  ultimately show ?thesis using w v console_step_fs[OF s1(4)] by auto
qed

definition cat_at :: "nat \<Rightarrow> nat \<Rightarrow> u32 \<Rightarrow> 'a kernel_scheme \<Rightarrow> bool" where
  "cat_at p i inode s \<longleftrightarrow> tty_open s \<and> writable s \<and> in_file p i inode s \<and> file_apart s inode \<and> 2 \<le> i \<and> i < 8 \<and>
     flags (fd_of p i s) \<noteq> 0 \<and> sysops_ptr (fd_of p i s) = Some File_ops"

lemma prog_view_fields:
  assumes "prog_view s' = prog_view s"
  shows "running s' p = running s p" "fd_of p i s' = fd_of p i s" "pcbs s' = pcbs s"
  using assms by (auto simp: prog_view_def running_def fd_of_def)

lemma cat_at_write:
  assumes "cat_at p i inode s" "terminated b"
  shows "\<exists>s'. write_call env 1 (Some b) n s = Ret (int (length (cstr b)), s') \<and> cat_at p i inode s' \<and> file_rest p i inode s' = file_rest p i inode s"
proof -
  have c: "tty_open s" "writable s" "in_file p i inode s" "file_apart s inode" using assms(1) by (auto simp: cat_at_def)
  obtain s' where s': "write_call env 1 (Some b) n s = Ret (int (length (cstr b)), s')" "tty_open s'" "writable s'" "apart s s'"
      "bootHead s' = bootHead s" "prog_view s' = prog_view s" using write_call_apart[OF c(1,2) assms(2)] by blast
  have v: "valid_inode s inode" using c(3) by (simp add: in_file_def)
  note f = file_apart_same[OF s'(4) c(4) s'(5) v]
  have "dir_apart s" using c(4) by (simp add: file_apart_def)
  note d = dir_apart_same[OF s'(4) this s'(5)]
  note pv = prog_view_fields[OF s'(6)]
  have "in_file p i inode s'" using c(3) f d pv by (simp add: in_file_def)
  moreover have "file_rest p i inode s' = file_rest p i inode s" using f pv by (simp add: file_rest_def)
  ultimately show ?thesis using assms(1) s' f pv by (simp add: cat_at_def)
qed

lemma read_file_state:
  assumes "running s p" "read_file i buf k s = Ret (v, b, s')"
  shows "s' = s \<or> (\<exists>q. s' = update_fd p i (\<lambda>d. d\<lparr>filePosition := q\<rparr>) s)"
  using assms by (auto simp: read_file_def outcome_simps split: option.splits if_splits prod.splits)

text \<open>Changes of descriptors from 2 on.\<close>

definition only_fds :: "'a kernel_scheme \<Rightarrow> 'a kernel_scheme \<Rightarrow> bool" where
  "only_fds s s' \<longleftrightarrow> cr3 s' = cr3 s \<and> terminals s' = terminals s \<and> old_terminal s' = old_terminal s \<and> mem s' = mem s \<and>
     bootHead s' = bootHead s \<and> screen_x s' = screen_x s \<and> screen_y s' = screen_y s \<and>
     (\<forall>q. length (fd (pcbs s' q)) = length (fd (pcbs s q)) \<and> (\<forall>j<2. fd (pcbs s' q) ! j = fd (pcbs s q) ! j))"

lemma only_fds_refl [simp]: "only_fds s s"
  by (simp add: only_fds_def)

lemma only_fds_trans: "only_fds s1 s2 \<Longrightarrow> only_fds s2 s3 \<Longrightarrow> only_fds s1 s3"
  by (simp add: only_fds_def)

lemma only_fds_update [simp]:
  "2 \<le> i \<Longrightarrow> only_fds s (update_fd p i f s)" "only_fds s (s\<lparr>ops_value := v\<rparr>)" "only_fds s (s\<lparr>currentDirIndex := k\<rparr>)"
  by (auto simp: only_fds_def update_fd_def update_pcb_def)

lemma only_fds_tty:
  assumes "only_fds s s'"
  shows "tty_open s \<Longrightarrow> tty_open s'" "writable s' = writable s" "apart s s'" "running s' p = running s p"
proof -
  have f: "find_terminal k s' = find_terminal k s" for k using assms by (simp add: find_terminal_def only_fds_def)
  show "tty_open s'" if o: "tty_open s"
  proof -
    obtain n where n: "running s n" "find_terminal (int n) s = int (old_terminal s)" "length (fd (pcbs s n)) = 8"
        "on_tty (fd (pcbs s n) ! 0)" "on_tty (fd (pcbs s n) ! 1)" and "term_wf s" using o by (auto simp: tty_open_def)
    then have "running s' n" "find_terminal (int n) s' = int (old_terminal s')" "length (fd (pcbs s' n)) = 8"
        "on_tty (fd (pcbs s' n) ! 0)" "on_tty (fd (pcbs s' n) ! 1)" "term_wf s'"
      using assms f by (simp_all add: only_fds_def running_def term_wf_def)
    then show ?thesis by (auto simp: tty_open_def)
  qed
  show "writable s' = writable s" "apart s s'" "running s' p = running s p"
    using assms by (simp_all add: only_fds_def writable_def apart_def running_def)
qed

lemma cat_at_read_some:
  assumes "cat_at p i inode s" "0 < n" "n \<le> length b" "n < 2 ^ 32" "x = take n (file_rest p i inode s)"
  shows "\<exists>s'. read_call env (int i) (Some b) (of_nat n) s = Ret (Some (int (length x), Some (x @ drop (length x) b), s')) \<and>
    cat_at p i inode s' \<and> file_rest p i inode s' = drop n (file_rest p i inode s)"
proof -
  let ?r = "file_rest p i inode s"
  have c: "in_file p i inode s" "2 \<le> i" "i < 8" "flags (fd_of p i s) \<noteq> 0" "sysops_ptr (fd_of p i s) = Some File_ops"
    and o: "tty_open s" "writable s" "file_apart s inode"
    using assms(1) by (auto simp: cat_at_def)
  have run: "running s p" and len: "i < length (fd (pcbs s p))" using c(1) by (auto simp: in_file_def)
  have n: "unat (of_nat n :: u32) = n" "(of_nat n :: u32) \<noteq> 0" using assms(2,4) by (simp_all add: unat_of_nat word_of_nat_eq_0_iff nat_dvd_not_less)
  obtain s' where s': "read_file i (Some b) (of_nat n) s = Ret (int (length x), Some (x @ drop (length x) b), s')"
      "in_file p i inode s'" "file_rest p i inode s' = drop (length x) ?r" "same_image s s'"
    using read_file_chunk[OF c(1), of "of_nat n" b] assms(2-5) n by auto
  have "read_call env (int i) (Some b) (of_nat n) s = Ret (Some (int (length x), Some (x @ drop (length x) b), s'))"
    using run c s'(1) len n by (simp add: read_call_def read_driver_def fd_of_def)
  moreover have "s' = s \<or> (\<exists>q. s' = update_fd p i (\<lambda>d. d\<lparr>filePosition := q\<rparr>) s)" using read_file_state[OF run s'(1)] .
  then have "only_fds s s'" "flags (fd_of p i s') \<noteq> 0" "sysops_ptr (fd_of p i s') = Some File_ops"
    using c len by (auto simp: fd_of_def)
  then have "tty_open s' \<and> writable s' \<and> flags (fd_of p i s') \<noteq> 0 \<and> sysops_ptr (fd_of p i s') = Some File_ops"
    using o only_fds_tty[of s s'] by simp
  moreover have "apart s s'" "bootHead s' = bootHead s" using s'(4) by (simp_all add: same_image_def apart_def)
  then have "file_apart s' inode" using file_apart_same(4) o(3) c(1) by (auto simp: in_file_def)
  moreover have "drop (length x) ?r = drop n ?r" using assms(5) by (cases "length ?r \<le> n") simp_all
  ultimately show ?thesis using s' c by (auto simp: cat_at_def)
qed

lemma cat_at_read:
  assumes "cat_at p i inode s" "length b = 1024" "chunks 1024 (file_rest p i inode s) = x # xs \<or> chunks 1024 (file_rest p i inode s) = [] \<and> x = [] \<and> xs = []"
  shows "\<exists>s'. read_call env (int i) (Some b) 1024 s = Ret (Some (int (length x), Some (x @ drop (length x) b), s')) \<and>
    cat_at p i inode s' \<and> chunks 1024 (file_rest p i inode s') = xs"
proof -
  let ?r = "file_rest p i inode s"
  have x: "x = take 1024 ?r" "xs = chunks 1024 (drop 1024 ?r)" using assms(3) by (cases "?r = []"; simp)+
  show ?thesis using cat_at_read_some[OF assms(1), of 1024 b x env] assms(2) x by auto
qed

lemma chunks_nonempty: "x \<in> set (chunks k xs) \<Longrightarrow> x \<noteq> []"
proof (induction k xs rule: chunks.induct)
  case (1 k xs)
  then show ?case by (subst (asm) chunks.simps) (auto split: if_splits)
qed

interpretation file_items: item_out "kernel_calls env child" "cat_at p i inode" "int i" 1024 1024
  "\<lambda>s. chunks 1024 (file_rest p i inode s)" "\<lambda>x b. x @ drop (length x) b" "\<lambda>_. True" for env :: "'a env" and child p i inode
proof unfold_locales
  fix s :: "'a kernel_scheme" and b k
  assume "cat_at p i inode s" "terminated b"
  then show "\<exists>s'. sys_write (kernel_calls env child) 1 b k s = Ret (int (length (cstr b)), s') \<and> cat_at p i inode s'"
    using cat_at_write[of p i inode s b env k] by (auto simp: kernel_calls_def)
next
  fix s :: "'a kernel_scheme" and x xs and b :: "u8 list"
  assume "cat_at p i inode s" "chunks 1024 (file_rest p i inode s) = x # xs" "length b = 1024"
  then show "\<exists>s'. sys_read (kernel_calls env child) (int i) b 1024 s = Ret (int (length x), x @ drop (length x) b, s') \<and>
      cat_at p i inode s' \<and> chunks 1024 (file_rest p i inode s') = xs"
    using cat_at_read[of p i inode s b x xs env] by (auto simp: kernel_calls_def bytes_of_def)
next
  fix s :: "'a kernel_scheme" and b :: "u8 list"
  assume "cat_at p i inode s" "chunks 1024 (file_rest p i inode s) = []" "length b = 1024"
  then show "\<exists>s'. sys_read (kernel_calls env child) (int i) b 1024 s = Ret (0, b, s') \<and> True"
    using cat_at_read[of p i inode s b "[]" "[]" env] by (auto simp: kernel_calls_def bytes_of_def)
next
  fix s :: "'a kernel_scheme" and x b :: "u8 list"
  assume "x \<in> set (chunks 1024 (file_rest p i inode s))" "length b = 1024"
  then show "x \<noteq> [] \<and> length (x @ drop (length x) b) = 1024 \<and> take (length x) (x @ drop (length x) b) = x"
    using chunks_nonempty chunks_le[of 1024 x] by fastforce
next
  fix s s' :: "'a kernel_scheme" and b k r
  assume "cat_at p i inode s" "terminated b" "sys_write (kernel_calls env child) 1 b k s = Ret (r, s')"
  then show "chunks 1024 (file_rest p i inode s') = chunks 1024 (file_rest p i inode s)"
    using cat_at_write[of p i inode s b env k] by (auto simp: kernel_calls_def)
qed

definition ls_at :: "nat \<Rightarrow> nat \<Rightarrow> 'a kernel_scheme \<Rightarrow> bool" where
  "ls_at p i s \<longleftrightarrow> tty_open s \<and> writable s \<and> dir_ok s \<and> dir_apart s \<and> 0 \<le> currentDirIndex s \<and> running s p \<and> 2 \<le> i \<and> i < 8 \<and>
     length (fd (pcbs s p)) = 8 \<and> flags (fd_of p i s) \<noteq> 0 \<and> sysops_ptr (fd_of p i s) = Some Directory_ops"

definition names_left :: "'a fs_scheme \<Rightarrow> u8 list list" where
  "names_left s = drop (nat (currentDirIndex s)) (dir_names s)"

lemma dir_names_apart:
  assumes "apart s s'" "dir_apart s" "bootHead s' = bootHead s" "dir_ok s"
  shows "dir_names s' = dir_names s" "dir_ok s'"
proof -
  note d = dir_apart_same[OF assms(1-3)]
  then have n: "dir_name s' i = dir_name s i" if "i < 63" for i using that by (simp add: dir_name_def)
  then show "dir_names s' = dir_names s" using d(2) assms(4) by (auto simp: dir_names_def dir_ok_def)
  show "dir_ok s'" using assms(4) d n by (auto simp: dir_ok_def)
qed

lemma dir_names_fit:
  assumes "dir_ok s" "x \<in> set (dir_names s)"
  shows "x \<noteq> []" "length x < 32"
proof -
  obtain j where j: "j < nat (sint (numDirectory s))" "x = dir_name s j" using assms(2) by (auto simp: dir_names_def)
  then have "j < 63" "int j < sint (numDirectory s)" using assms(1) by (auto simp: dir_ok_def)
  then show "x \<noteq> []" "length x < 32"
    using assms(1) j(2) length_cstr_less[of "fileName (entry s j)"] by (auto simp: dir_ok_def dir_name_def)
qed

lemma ls_at_write:
  assumes "ls_at p i s" "terminated b"
  shows "\<exists>s'. write_call env 1 (Some b) n s = Ret (int (length (cstr b)), s') \<and> ls_at p i s' \<and> names_left s' = names_left s"
proof -
  have c: "tty_open s" "writable s" "dir_ok s" "dir_apart s" using assms(1) by (auto simp: ls_at_def)
  obtain s' where s': "write_call env 1 (Some b) n s = Ret (int (length (cstr b)), s')" "tty_open s'" "writable s'" "apart s s'"
      "bootHead s' = bootHead s" "currentDirIndex s' = currentDirIndex s" "prog_view s' = prog_view s"
    using write_call_apart[OF c(1,2) assms(2)] by blast
  then show ?thesis
    using dir_names_apart[OF s'(4) c(4) s'(5) c(3)] dir_apart_same(5)[OF s'(4) c(4) s'(5)] prog_view_fields[OF s'(7)] assms(1)
    by (auto simp: ls_at_def names_left_def)
qed

lemma ls_at_read:
  assumes "ls_at p i s" "length b = 33"
  shows "case names_left s of
      [] \<Rightarrow> \<exists>s'. read_call env (int i) (Some b) k s = Ret (Some (0, Some b, s')) \<and> currentDirIndex s' = 0
    | x # xs \<Rightarrow> \<exists>s'. read_call env (int i) (Some b) k s = Ret (Some (int (length x), Some (x @ 0 # drop (Suc (length x)) b), s')) \<and>
        ls_at p i s' \<and> names_left s' = xs \<and> x \<noteq> [] \<and> length x < 32"
proof -
  have c: "running s p" "2 \<le> i" "i < 8" "length (fd (pcbs s p)) = 8" "flags (fd_of p i s) \<noteq> 0" "sysops_ptr (fd_of p i s) = Some Directory_ops"
      "dir_ok s" "0 \<le> currentDirIndex s" using assms(1) by (auto simp: ls_at_def)
  have call: "read_call env (int i) (Some b) k s = obind (read_directory b s) (\<lambda>(k, b, s'). Ret (Some (k, Some b, s')))"
    using c by (simp add: read_call_def read_driver_def fd_of_def bytes_of_def put_back_def)
  show ?thesis
  proof (cases "names_left s")
    case Nil
    then have "sint (numDirectory s) \<le> currentDirIndex s" using c(8) by (auto simp: names_left_def dir_names_def)
    then show ?thesis using Nil call read_directory_end[of s b] by simp
  next
    case (Cons x xs)
    let ?i = "nat (currentDirIndex s)"
    have "?i < length (dir_names s)" using Cons by (metis names_left_def drop_all list.distinct(1) not_le)
    then have lt: "currentDirIndex s < sint (numDirectory s)" and x: "x = dir_name s ?i" "xs = drop (Suc ?i) (dir_names s)"
      using Cons c(8) by (auto simp: names_left_def dir_names_def Cons_nth_drop_Suc[symmetric])
    let ?s = "s\<lparr>currentDirIndex := currentDirIndex s + 1\<rparr>"
    have "x \<in> set (dir_names s)" using Cons by (auto simp: names_left_def intro: in_set_dropD[of x ?i])
    note nx = dir_names_fit[OF c(7) this]
    have "read_directory b s = Ret (int (length x), x @ 0 # drop (Suc (length x)) b, ?s)"
      using read_directory_name[OF c(7,8) lt, of b] assms(2) x(1) by simp
    moreover have "tty_open ?s" "writable ?s" using only_fds_tty[OF only_fds_update(3)[of s]] assms(1) by (auto simp: ls_at_def)
    then have "ls_at p i ?s" using assms(1) by (auto simp: ls_at_def dir_apart_def boot_bytes_def running_def fd_of_def)
    moreover have "names_left ?s = xs" using x(2) c(8) by (simp add: names_left_def nat_add_distrib)
    ultimately show ?thesis using Cons call nx by auto
  qed
qed

interpretation name_items: item_out "kernel_calls env child" "ls_at p i" "int i" 32 33 names_left "\<lambda>x b. x @ 0 # drop (Suc (length x)) b"
  "\<lambda>s. currentDirIndex s = 0" for env :: "'a env" and child p i
proof unfold_locales
  fix s :: "'a kernel_scheme" and b k
  assume "ls_at p i s" "terminated b"
  then show "\<exists>s'. sys_write (kernel_calls env child) 1 b k s = Ret (int (length (cstr b)), s') \<and> ls_at p i s'"
    using ls_at_write[of p i s b env k] by (auto simp: kernel_calls_def)
next
  fix s :: "'a kernel_scheme" and x xs and b :: "u8 list"
  assume "ls_at p i s" "names_left s = x # xs" "length b = 33"
  then show "\<exists>s'. sys_read (kernel_calls env child) (int i) b 32 s = Ret (int (length x), x @ 0 # drop (Suc (length x)) b, s') \<and>
      ls_at p i s' \<and> names_left s' = xs"
    using ls_at_read[of p i s b env 32] by (auto simp: kernel_calls_def bytes_of_def)
next
  fix s :: "'a kernel_scheme" and b :: "u8 list"
  assume "ls_at p i s" "names_left s = []" "length b = 33"
  then show "\<exists>s'. sys_read (kernel_calls env child) (int i) b 32 s = Ret (0, b, s') \<and> currentDirIndex s' = 0"
    using ls_at_read[of p i s b env 32] by (auto simp: kernel_calls_def bytes_of_def)
next
  fix s :: "'a kernel_scheme" and x b :: "u8 list"
  assume l: "ls_at p i s" "x \<in> set (names_left s)" "length b = 33"
  then have d: "dir_ok s" "x \<in> set (dir_names s)" by (auto simp: ls_at_def names_left_def dest: in_set_dropD)
  then show "x \<noteq> [] \<and> length (x @ 0 # drop (Suc (length x)) b) = 33 \<and> take (length x) (x @ 0 # drop (Suc (length x)) b) = x"
    using l(3) dir_names_fit[OF d] by simp
next
  fix s s' :: "'a kernel_scheme" and b k r
  assume "ls_at p i s" "terminated b" "sys_write (kernel_calls env child) 1 b k s = Ret (r, s')"
  then show "names_left s' = names_left s" using ls_at_write[of p i s b env k] by (auto simp: kernel_calls_def)
qed

section \<open>Opening a file\<close>

lemma lookup_cong:
  assumes "terminated f" "terminated g" "cstr f = cstr g" "length (cstr g) < 32"
  shows "read_dentry_by_name f s = read_dentry_by_name g s"
  using assms by (simp add: read_dentry_by_name_find same_prefix_def)

lemma only_fds_steps:
  assumes "only_fds s s1" "2 \<le> i"
  shows "only_fds s (update_fd p i f s1)" "only_fds s (set_ops p i ops v s1)"
proof -
  show u: "only_fds s (update_fd p i f s1)" for f using only_fds_trans[OF assms(1) only_fds_update(1)[OF assms(2)]] .
  show "only_fds s (set_ops p i ops v s1)" unfolding set_ops_def Let_def by (rule only_fds_trans[OF u only_fds_update(2)])
qed

lemma update_fd_index [simp]: "currentDirIndex (update_fd p i f s) = currentDirIndex s" "currentDirIndex (set_ops p i ops v s) = currentDirIndex s"
  by (simp_all add: update_fd_def update_pcb_def set_ops_def Let_def)

lemma setup_fd_only_fds:
  assumes "setup_fd p i d name s = Ret (r, s')" "2 \<le> i" "fileType d \<in> {1, 2}"
  shows "only_fds s s'" "currentDirIndex s' = currentDirIndex s" "r = Some Directory_ops \<or> r = Some File_ops"
proof -
  have o: "only_fds s (update_fd p i f s)" for f using assms(2) by simp
  show "only_fds s s'" "currentDirIndex s' = currentDirIndex s" "r = Some Directory_ops \<or> r = Some File_ops"
    using assms by (auto simp: setup_fd_def Let_def outcome_simps intro!: only_fds_steps o)
qed

lemma open_at_only_fds:
  assumes "open_at env p i d name s = Ret (v, s')" "fileType d \<in> {1, 2}" "2 \<le> i"
  shows "only_fds s s' \<and> currentDirIndex s' = currentDirIndex s"
proof -
  let ?s = "update_fd p i (\<lambda>d. d\<lparr>flags := 1\<rparr>) s"
  obtain r s1 where s1: "setup_fd p i d name ?s = Ret (r, s1)"
      "(case r of None \<Rightarrow> Ret (-1, s1) | Some ops \<Rightarrow> obind (open_driver env ops name s1) (\<lambda>(v, s2). Ret (if v = 0 then int i else -1, s2))) = Ret (v, s')"
    using assms(1) unfolding open_at_def obind_eq_Ret by auto
  note f = setup_fd_only_fds[OF s1(1) assms(3,2)]
  have "s' = s1" using s1(2) f(3) by (auto simp: open_driver_def outcome_simps)
  moreover have "only_fds s s1" using only_fds_trans[OF only_fds_update(1)[OF assms(3)] f(1)] .
  ultimately show ?thesis using f(2) by simp
qed

lemma open_call_tty:
  assumes "tty_open s" "writable s" "running s p" "pcb_ok (pcbs s p)" "terminated name" "cstr name \<noteq> []" "length (cstr name) < 32"
    and "read_dentry_by_name name s = Ret (Some d)" "fileType d \<in> {1, 2}" "fds_pick (fd (pcbs s p)) = Some i"
  shows "\<exists>s'. open_call env name s = Ret (int i, s') \<and> 2 \<le> i \<and> i < 8 \<and> only_fds s s' \<and> currentDirIndex s' = currentDirIndex s \<and>
    flags (fd_of p i s') = 1 \<and> filePosition (fd_of p i s') = 0 \<and> sysops_ptr (fd_of p i s') = Some (driver_for d) \<and>
    (fileType d = 2 \<longrightarrow> read_dentry_by_name (fd_fileName (fd_of p i s')) s' = Ret (Some d))"
proof -
  have free: "first_free (\<lambda>d. flags d = 0) (fd (pcbs s p)) [2..<8] = Some i" using assms(10) by (simp add: fds_pick_def)
  note i = first_free_fd[OF assms(4) free]
  obtain s' where s': "open_call env name s = Ret (int i, s')" "flags (fd_of p i s') = 1" "filePosition (fd_of p i s') = 0"
      "sysops_ptr (fd_of p i s') = Some (driver_for d)"
      "driver_for d = File_ops \<longrightarrow> cstr (fd_fileName (fd_of p i s')) = cstr name \<and> terminated (fd_fileName (fd_of p i s'))"
    using open_call_found[OF assms(3-8) _ free, of env] assms(9) by (auto simp: fd_of_def)
  have "buf_get name 0 = Ret (name ! 0)" "name ! 0 \<noteq> 0"
    using assms(5,6) by (cases name; auto simp: buf_get_def terminated_def cstr_def)+
  then have "open_at env p i d name s = Ret (int i, s')"
    using s'(1) assms(3,8) free by (simp add: open_call_def)
  note o = open_at_only_fds[OF this assms(9) i(1)]
  have "same_image s s'" using o by (simp add: only_fds_def same_image_def)
  then have "read_dentry_by_name (fd_fileName (fd_of p i s')) s' = Ret (Some d)" if "fileType d = 2"
    using that s'(5) lookup_cong[of "fd_fileName (fd_of p i s')" name s] assms(5,7,8)
    by (simp add: driver_for_def same_image_lookup)
  with s' i o show ?thesis by blast
qed

lemma open_to_read:
  assumes "tty_open s" "writable s" "running s p" "pcb_ok (pcbs s p)" "fds_pick (fd (pcbs s p)) = Some i"
    and "terminated name" "cstr name \<noteq> []" "length (cstr name) < 32" "read_dentry_by_name name s = Ret (Some d)" "fileType d = 2"
    and "valid_inode s (inodeNum d)" "file_apart s (inodeNum d)"
  shows "\<exists>s'. open_call env name s = Ret (int i, s') \<and> cat_at p i (inodeNum d) s' \<and> file_rest p i (inodeNum d) s' = file_bytes s (inodeNum d)"
proof -
  from open_call_tty[OF assms(1-4,6-9) _ assms(5), of env] obtain s1 where
    s1: "open_call env name s = Ret (int i, s1)" "2 \<le> i" "i < 8" "only_fds s s1" "flags (fd_of p i s1) = 1"
      "filePosition (fd_of p i s1) = 0" "sysops_ptr (fd_of p i s1) = Some (driver_for d)"
      "read_dentry_by_name (fd_fileName (fd_of p i s1)) s1 = Ret (Some d)"
    using assms(10) by auto
  note o = only_fds_tty[OF s1(4)]
  have bh: "bootHead s1 = bootHead s" using s1(4) by (simp add: only_fds_def)
  note f = file_apart_same[OF o(3) assms(12) bh assms(11)]
  have "length (fd (pcbs s1 p)) = 8" using s1(4) assms(4) by (simp add: only_fds_def pcb_ok_def)
  then have "in_file p i (inodeNum d) s1" using s1 o assms(3) f by (auto simp: in_file_def)
  then have "cat_at p i (inodeNum d) s1" using s1 o assms(1,2,10) f by (auto simp: cat_at_def driver_for_def)
  moreover have "file_rest p i (inodeNum d) s1 = file_bytes s (inodeNum d)" using s1(6) f(2) by (simp add: file_rest_def)
  ultimately show ?thesis using s1(1) by blast
qed

section \<open>Properties\<close>

text \<open>
  C14: \<open>cat\<close> copies the file named by its argument to the terminal: it returns 0 after passing the contents to
  \<open>write\<close> in pieces of 1024 bytes, in order and completely, for every file on an image that lies apart from
  the screen. Since \<open>write\<close> measures the string in the buffer, each time the buffer has to hold a NUL somewhere, in
  the piece or in what the buffer held behind it.
\<close>

theorem cat_prints_file:
  assumes "tty_open s" "writable s" "running s p" "pcb_ok (pcbs s p)" "fds_pick (fd (pcbs s p)) = Some i"
    and "terminated (argument (pcbs s p))" "a = cstr (argument (pcbs s p))" "a \<noteq> []" "length a < 32"
    and "read_dentry_by_name (a @ [0]) s = Ret (Some d)" "fileType d = 2" "valid_inode s (inodeNum d)" "file_apart s (inodeNum d)"
    and "length buf = 1024" "pieces = chunks 1024 (file_bytes s (inodeNum d))" "length pieces < fuel"
    and "\<forall>b\<in>set (buffers (\<lambda>x b. x @ drop (length x) b) (a @ 0 # drop (Suc (length a)) buf) pieces). terminated b"
  shows "(\<exists>s'. cat_main fuel (kernel_calls env child) buf (s, log) = Ret (Some (0, s', log @ map (Pair 1) pieces))) \<and>
    concat pieces = file_bytes s (inodeNum d)"
proof -
  let ?b = "a @ 0 # drop (Suc (length a)) buf"
  have a: "0 \<notin> set a" using assms(7) cstr_no_NUL by simp
  have b: "terminated ?b" "cstr ?b = a" "length ?b = 1024" using a assms(9,14) by (simp_all add: terminated_split cstr_split)
  have "getargs buf 1024 s = Ret (0, ?b)"
    using assms(3,6,7,9,14) strcpy_fits[OF assms(6), of buf] by (simp add: getargs_def strlen_eq)
  then have g: "ece391_getargs (kernel_calls env child) buf 1024 (s, log) = Ret (0, ?b, s, log)"
    by (simp add: ece391_getargs_def kernel_calls_def)
  have "read_dentry_by_name ?b s = Ret (Some d)"
    using lookup_cong[of ?b "a @ [0]" s] b a assms(9,10) cstr_split[of a "[]"] by (simp add: terminated_split)
  from open_to_read[OF assms(1-5) b(1) _ _ this assms(11-13), of env] obtain s1 where s1: "open_call env ?b s = Ret (int i, s1)"
    and "cat_at p i (inodeNum d) s1" "file_rest p i (inodeNum d) s1 = file_bytes s (inodeNum d)"
    using b(2) assms(8,9) by auto
  then obtain s' where "cat_loop fuel (kernel_calls env child) (int i) ?b (s1, log) = Ret (Some (0, s', log @ map (Pair 1) pieces))"
    using file_items.cat_copies[of p i "inodeNum d" s1 ?b fuel env child log] b(3) assms(15-17) by auto
  then have "cat_main fuel (kernel_calls env child) buf (s, log) = Ret (Some (0, s', log @ map (Pair 1) pieces))"
    using g s1 by (simp add: cat_main_def ece391_open_def kernel_calls_def)
  moreover have "concat pieces = file_bytes s (inodeNum d)" using assms(15) by (simp add: concat_chunks)
  ultimately show ?thesis by blast
qed

lemma terminated_nth: "k < length b \<Longrightarrow> b ! k = 0 \<Longrightarrow> terminated b"
  unfolding terminated_def by (metis nth_mem)

text \<open>The demonstration kernel with the file name as the program's argument.\<close>

definition demo_cat :: kernel where
  "demo_cat = demo_kernel\<lparr>pcbs := (\<lambda>_. demo_pcb\<lparr>argument := 102 # replicate 127 0\<rparr>)\<rparr>"

lemma window_high: "window a \<Longrightarrow> 0xB8000 \<le> unat a"
proof -
  assume "window a"
  then obtain k where "k < 4160" "a = VIDEO + of_nat k" using in_range_iff[of 4160 VIDEO a] by auto
  then show ?thesis by (simp add: unat_word_ariths unat_of_nat)
qed

lemma low_block: "window a \<Longrightarrow> unat b + 4096 \<le> 0xB8000 \<Longrightarrow> \<not> in_range b 4096 a"
proof
  assume "window a" "unat b + 4096 \<le> 0xB8000" "in_range b 4096 a"
  then obtain k where "k < 4096" "a = b + of_nat k" using in_range_iff[of 4096 b a] by auto
  then have "unat a = unat b + k" using \<open>unat b + 4096 \<le> 0xB8000\<close> by (simp add: unat_word_ariths unat_of_nat)
  with window_high[OF \<open>window a\<close>] \<open>unat b + 4096 \<le> 0xB8000\<close> \<open>k < 4096\<close> show False by simp
qed

lemma demo_file_apart: "file_apart demo_fs 0"
proof -
  have "data_block demo_fs 0 k = 8192" if "4096 * k < 40" for k
  proof -
    have "k = 0" using that by simp
    then show ?thesis by (simp add: data_block_def block_ptr_def get_inodeptr_def le32_def demo_image_def)
  qed
  then show ?thesis
    using low_block[of _ 0] low_block[of _ 4096] low_block[of _ 8192]
    by (auto simp: file_apart_def dir_apart_def boot_bytes_def inode_bytes_def get_inodeptr_def)
qed

lemma demo_cat_image: "same_image demo_fs demo_cat"
  using demo_kernel_image by (simp add: demo_cat_def same_image_def)

lemma demo_cat_tty: "tty_open demo_cat" "writable demo_cat" "running demo_cat 1"
proof -
  have o: "only_fds demo_kernel demo_cat" by (simp add: only_fds_def demo_cat_def)
  have "writable demo_kernel" by (simp add: writable_def demo_extend)
  then show "tty_open demo_cat" "writable demo_cat" "running demo_cat 1"
    using only_fds_tty[OF o] demo_tty_open demo_running by auto
qed

lemma demo_cat_pcb: "pcb_ok (pcbs demo_cat 1)" "fds_pick (fd (pcbs demo_cat 1)) = Some 3"
    "argument (pcbs demo_cat 1) = 102 # replicate 127 0"
proof -
  show "argument (pcbs demo_cat 1) = 102 # replicate 127 0" by (simp add: demo_cat_def)
  show "pcb_ok (pcbs demo_cat 1)" using demo_pcb_ok by (simp add: demo_cat_def pcb_ok_def)
  show "fds_pick (fd (pcbs demo_cat 1)) = Some 3"
    by (simp add: demo_cat_def fds_pick_def demo_pcb_def demo_fd_def upt_rec first_free.simps)
qed

theorem cat_prints_file_witness:
  "\<exists>s'. cat_main 2 (kernel_calls demo_env (\<lambda>_ _. Undef)) (replicate 1024 1) (demo_cat, []) = Ret (Some (0, s', [(1, file_bytes demo_fs 0)]))"
proof -
  let ?d = "entry demo_fs 0"
  have arg: "cstr (102 # replicate 127 0) = [102]" "terminated (102 # replicate 127 0)" by (simp_all add: demo_cstr demo_terminated)
  have look: "read_dentry_by_name ([102] @ [0]) demo_cat = Ret (Some ?d)"
    using lookup_cong[of "[102, 0]" "102 # replicate 31 0" demo_cat] demo_lookup same_image_lookup[OF demo_cat_image] same_image_lookup[OF demo_kernel_image]
    by (simp add: demo_cstr demo_terminated terminated_def cstr_def)
  have im: "file_bytes demo_cat 0 = file_bytes demo_fs 0" "valid_inode demo_cat 0"
    using same_image_inode[OF demo_cat_image] by simp_all
  have ap: "file_apart demo_cat 0"
    using file_apart_same(4)[of demo_fs demo_cat 0] demo_file_apart demo_cat_image by (simp add: same_image_def apart_def)
  have len: "length (file_bytes demo_fs 0) = 40" by simp
  have ch: "chunks 1024 (file_bytes demo_fs 0) = [file_bytes demo_fs 0]"
    using len by (subst chunks.simps) (auto simp flip: length_0_conv simp del: length_file_bytes)
  define b :: "u8 list" where "b = replicate 1024 1"
  have b: "length b = 1024" by (simp add: b_def)
  have "file_bytes demo_fs 0 ! 4 = 0" by (simp add: file_bytes_def demo_file_byte) (simp add: demo_image_def)
  then have "terminated (file_bytes demo_fs 0)" using terminated_nth[of 4] len by simp
  then have t: "\<forall>b\<in>set (buffers (\<lambda>x b. x @ drop (length x) b) ([102] @ 0 # drop (Suc (length [102 :: u8])) b) [file_bytes demo_fs 0]). terminated b"
    by (simp add: terminated_def)
  have d: "fileType ?d = 2" "inodeNum ?d = 0" by (rule demo_entry_0)+
  show ?thesis
    using cat_prints_file[OF demo_cat_tty demo_cat_pcb(1,2) _ _ _ _ look d(1) _ _ b _ _ t, of 2 demo_env "\<lambda>_ _. Undef" "[]"] im ap ch
    by (simp add: demo_cat_pcb(3) arg d b_def del: replicate.simps length_file_bytes One_nat_def)
qed

text \<open>
  C16: \<open>ls\<close> prints the names of the directory entries from the kernel's directory position on, in order, each followed by a newline,
  returns 0, and leaves the position at the start, for a directory that lies apart from the screen, names of 1 to 31 characters, and a program with a descriptor free. So it lists
  all entries when the position is 0, as at boot and after a complete listing; opening the directory does not reset the position, and after a
  listing that another program began and did not finish only the rest is printed. It overwrites the NUL behind each name, so that this
  depends on a byte it never sets: the last one of its buffer has to be 0.
\<close>

theorem ls_lists_names:
  assumes "tty_open s" "writable s" "running s p" "pcb_ok (pcbs s p)" "fds_pick (fd (pcbs s p)) = Some i"
    and "read_dentry_by_name (lit ''.'') s = Ret (Some d)" "fileType d = 1" "dir_ok s" "dir_apart s" "0 \<le> currentDirIndex s"
    and "length buf = 33" "buf ! 32 = 0" "length (dir_names s) < fuel"
  shows "\<exists>s'. ls_main fuel (kernel_calls env child) buf (s, log) =
    Ret (Some (0, s', log @ map (\<lambda>x. (1, x @ [10])) (drop (nat (currentDirIndex s)) (dir_names s)))) \<and> currentDirIndex s' = 0"
proof -
  have nm: "terminated (lit ''.'')" "cstr (lit ''.'') \<noteq> []" "length (cstr (lit ''.'')) < 32"
    by (simp_all add: lit_def terminated_def cstr_def)
  obtain s1 where s1: "open_call env (lit ''.'') s = Ret (int i, s1)" "2 \<le> i" "i < 8" "only_fds s s1" "currentDirIndex s1 = currentDirIndex s"
      "flags (fd_of p i s1) = 1" "sysops_ptr (fd_of p i s1) = Some Directory_ops"
    using open_call_tty[OF assms(1-4) nm assms(6) _ assms(5), of env] assms(7,10) by (auto simp: driver_for_def)
  note o = only_fds_tty[OF s1(4)]
  have bh: "bootHead s1 = bootHead s" using s1(4) by (simp add: only_fds_def)
  note d = dir_names_apart[OF o(3) assms(9) bh assms(8)]
  have "length (fd (pcbs s1 p)) = 8" using s1(4) assms(4) by (simp add: only_fds_def pcb_ok_def)
  then have at: "ls_at p i s1" using s1 o d assms(1-3,10) dir_apart_same(5)[OF o(3) assms(9) bh] by (simp add: ls_at_def)
  have left: "names_left s1 = drop (nat (currentDirIndex s)) (dir_names s)" using s1(5) d(1) by (simp add: names_left_def)
  have fit: "x \<in> set (dir_names s) \<Longrightarrow> length x < 32" for x using dir_names_fit[OF assms(8)] by blast
  let ?g = "\<lambda>x b. (x @ 0 # drop (Suc (length x)) b)[length x := 10]"
  have "\<forall>b1\<in>set (buffers ?g b xs). terminated b1" if "length b = 33" "b ! 32 = 0" "\<forall>x\<in>set xs. length x < 32" for b xs
    using that
  proof (induction xs arbitrary: b)
    case (Cons x xs)
    have "length (?g x b) = 33" "?g x b ! 32 = 0" using Cons.prems by (auto simp: nth_append)
    moreover from this have "terminated (?g x b)" using terminated_nth[of 32 "?g x b"] by simp
    ultimately show ?case using Cons.IH[of "?g x b"] Cons.prems by simp
  qed simp
  from this[OF assms(11,12), of "names_left s1"] have t: "\<forall>b1\<in>set (buffers ?g buf (names_left s1)). terminated b1"
    using left fit by (auto dest: in_set_dropD)
  have all: "\<forall>x\<in>set (names_left s1). length x < 33" using left fit[THEN less_trans, of _ 33] by (auto dest: in_set_dropD)
  have "length (names_left s1) < fuel" using left assms(13) by simp
  from name_items.ls_copies[OF at assms(11) refl t all this, of env child log] obtain s' where
    "ls_loop fuel (kernel_calls env child) (int i) buf (s1, log) = Ret (Some (0, s', log @ map (\<lambda>x. (1, x @ [10])) (names_left s1)))"
    "currentDirIndex s' = 0" by blast
  then show ?thesis using s1(1) left by (auto simp: ls_main_def ece391_open_def kernel_calls_def)
qed

text \<open>The demonstration kernel with an entry for the directory itself.\<close>

definition demo_dir :: kernel where
  "demo_dir = demo_kernel\<lparr>mem := demo_image(64 := 46, 96 := 1)\<rparr>"

lemma demo_dir_simps: "bootHead demo_dir = 0" "mem demo_dir = demo_image(64 := 46, 96 := 1)" "currentDirIndex demo_dir = 0" "pcbs demo_dir n = demo_pcb"
  using demo_kernel_image by (simp_all add: demo_dir_def same_image_def demo_extend)

lemma demo_dir_name: "i < 63 \<Longrightarrow> fileName (entry demo_dir i) = (if i = 0 then 46 else 0) # replicate 31 0"
proof -
  assume i: "i < 63"
  have "mem demo_dir (64 + 64 * of_nat i + of_nat k) = (if i = 0 \<and> k = 0 then 46 else 0)" if "k < 32" for k
  proof -
    define w :: u32 where "w = 64 + 64 * of_nat i + of_nat k"
    have "unat w = 64 + 64 * i + k" using i that by (simp add: w_def unat_word_ariths unat_of_nat)
    then have "w \<noteq> 96" "w = 64 \<longleftrightarrow> i = 0 \<and> k = 0" using that by (auto simp: word_unat_eq_iff; presburger)+
    moreover have "demo_image w = (if i = 0 \<and> k = 0 then 102 else 0)" using demo_name_bytes[OF i that] by (simp add: w_def)
    ultimately show ?thesis by (auto simp: demo_dir_simps simp flip: w_def)
  qed
  then show ?thesis
    by (intro nth_equalityI) (simp_all add: entry_def mem_bytes_def demo_dir_simps(1) nth_Cons split: nat.split)
qed

lemma demo_dir_names_dot: "numDirectory demo_dir = 1" "dir_names demo_dir = [[46]]" "dir_ok demo_dir" "dir_apart demo_dir"
proof -
  show n: "numDirectory demo_dir = 1" by (simp add: numDirectory_def le32_def demo_dir_simps demo_image_def)
  show "dir_names demo_dir = [[46]]" using n by (simp add: dir_names_def dir_name_def demo_dir_name cstr_def)
  show "dir_ok demo_dir" using n by (auto simp: dir_ok_def dir_name_def demo_dir_name cstr_def terminated_def)
  show "dir_apart demo_dir" using low_block[of _ 0] by (auto simp: dir_apart_def boot_bytes_def demo_dir_simps)
qed

theorem ls_lists_names_witness:
  "\<exists>s'. ls_main 2 (kernel_calls demo_env (\<lambda>_ _. Undef)) (replicate 33 0) (demo_dir, []) = Ret (Some (0, s', [(1, [46, 10])])) \<and>
    currentDirIndex s' = 0"
proof -
  have "writable demo_dir" by (simp add: writable_def demo_dir_def demo_extend)
  moreover have "tty_open demo_dir" using demo_tty_open by (simp add: tty_open_def demo_dir_def term_wf_def find_terminal_def running_def)
  moreover have "running demo_dir 1" using demo_running by (simp add: demo_dir_def running_def)
  moreover have "fds_pick (fd (pcbs demo_dir 1)) = Some 3" using demo_cat_pcb(2) by (simp add: demo_cat_def demo_dir_simps)
  moreover have "read_dentry_by_name (lit ''.'') demo_dir = Ret (Some (entry demo_dir 0))"
  proof -
    have "[0..<63] = 0 # [1..<63]" by (simp add: upt_rec)
    then show ?thesis using read_dentry_by_name_find[of "lit ''.''" demo_dir]
      by (simp add: demo_dir_name lit_def terminated_def cstr_def same_prefix_def)
  qed
  moreover have "fileType (entry demo_dir 0) = 1" by (simp add: entry_def le32_def demo_dir_simps demo_image_def)
  ultimately show ?thesis
    using ls_lists_names[of demo_dir 1 3 "entry demo_dir 0" "replicate 33 0" 2 demo_env "\<lambda>_ _. Undef" "[]"] demo_dir_names_dot demo_dir_simps
    by simp
qed

text \<open>A control block with no file open.\<close>

definition demo_unopened :: pcb where
  "demo_unopened = demo_pcb\<lparr>fd := take 2 (fd demo_pcb) @ replicate 6 (demo_fd 0 None)\<rparr>"

lemma demo_unopened_ok: "pcb_ok demo_unopened" "fds_used (fd demo_unopened) = {}"
  by (auto simp: demo_unopened_def pcb_ok_def demo_pcb_def demo_fd_def fds_used_def nth_append)

end
