(* ===== verification/Syserr.thy ===== *)
theory Syserr
  imports Apart
begin

text \<open>
  The test program of \<open>ece391syserr.c\<close>, which calls the kernel in eight wrong ways and expects every call to be
  refused with \<open>-1\<close>. What it takes of a kernel to pass is the contract \<open>checked_calls\<close>; the kernel's
  system calls are an instance, so that the program reports \<open>PASS\<close> for every test.
\<close>

section \<open>The tests\<close>

text \<open>
  \<open>call_sys\<close> loads only the number: what the other registers and the memory hold is the argument \<open>r\<close>. The arrays of the tests are not
  initialised: \<open>buf\<close> is what they hold at first.
\<close>

definition call_sys :: "'s calls \<Rightarrow> (int \<Rightarrow> regs) \<Rightarrow> int \<Rightarrow> 's user \<Rightarrow> (int \<times> 's user) outcome" where
  "call_sys c r num u = obind (sys_number c (word_of_int num) (r num) (fst u)) (\<lambda>(v, s). Ret (v, s, snd u))"

definition NEG_FD :: int where
  "NEG_FD = -1073741823"

definition BIG_FD :: int where
  "BIG_FD = 1073741823"

definition BIG_NUM :: int where
  "BIG_NUM = 1073741823"

definition NEG_NUM :: int where
  "NEG_NUM = -1073741823"

text \<open>The branch after a call that has to fail, and the line at the end of a test.\<close>

definition refused :: "'s calls \<Rightarrow> string \<Rightarrow> int \<Rightarrow> int \<Rightarrow> 's user \<Rightarrow> (int \<times> 's user) outcome" where
  "refused c message r failed u =
     (if r \<noteq> -1 then obind (ece391_fdputs c 1 (lit message) u) (\<lambda>u1. Ret (2, u1)) else Ret (failed, u))"

definition verdict :: "'s calls \<Rightarrow> string \<Rightarrow> int \<Rightarrow> 's user \<Rightarrow> (int \<times> 's user) outcome" where
  "verdict c name failed u =
     obind (ece391_fdputs c 1 (lit (name @ (if failed \<noteq> 0 then '': FAIL\<newline>'' else '': PASS\<newline>''))) u) (\<lambda>u1. Ret (failed, u1))"

fun for_each :: "(int \<Rightarrow> 'b \<Rightarrow> 's user \<Rightarrow> ('b \<times> 's user) outcome) \<Rightarrow> int list \<Rightarrow> 'b \<Rightarrow> 's user \<Rightarrow> ('b \<times> 's user) outcome" where
  "for_each f [] x u = Ret (x, u)"
| "for_each f (i # is) x u = obind (f i x u) (\<lambda>(x1, u1). for_each f is x1 u1)"

definition err_fd :: "string \<Rightarrow> int \<Rightarrow> 's calls \<Rightarrow> u8 list \<Rightarrow> 's user \<Rightarrow> (int \<times> 's user) outcome" where
  "err_fd name des c buf u =
     obind (ece391_read c des buf 31 u) (\<lambda>(r, buf1, u1).
     obind (refused c ''read fail\<newline>'' r 0 u1) (\<lambda>(fail, u2).
     obind (ece391_write c des buf1 31 u2) (\<lambda>(r, u3).
     obind (refused c ''write fail\<newline>'' r fail u3) (\<lambda>(fail, u4).
     obind (ece391_close c des u4) (\<lambda>(r, u5).
     obind (refused c ''close fail\<newline>'' r fail u5) (\<lambda>(fail, u6).
     verdict c name fail u6))))))"

definition err_neg_fd :: "'s calls \<Rightarrow> u8 list \<Rightarrow> 's user \<Rightarrow> (int \<times> 's user) outcome" where
  "err_neg_fd = err_fd ''err_neg_fd'' NEG_FD"

definition err_big_fd :: "'s calls \<Rightarrow> u8 list \<Rightarrow> 's user \<Rightarrow> (int \<times> 's user) outcome" where
  "err_big_fd = err_fd ''err_big_fd'' BIG_FD"

definition err_open_lots :: "'s calls \<Rightarrow> 's user \<Rightarrow> (int \<times> 's user) outcome" where
  "err_open_lots c u =
     obind (for_each (\<lambda>i cnt u. obind (ece391_open c (lit ''.'') u) (\<lambda>(r, u1). Ret (if r = -1 then cnt + 1 else cnt, u1))) [0..6] (0 :: int) u)
       (\<lambda>(cnt, u1).
     obind (for_each (\<lambda>i _ u. obind (ece391_close c i u) (\<lambda>(r, u1). Ret ((), u1))) [2..7] () u1) (\<lambda>(_, u2).
     if cnt = 1 then fail c ''err_open_lots: PASS\<newline>'' 0 u2 else fail c ''err_open_lots: FAIL\<newline>'' 2 u2))"

definition err_open :: "'s calls \<Rightarrow> 's user \<Rightarrow> (int \<times> 's user) outcome" where
  "err_open c u =
     obind (ece391_open c (lit ''helloo'') u) (\<lambda>(r, u1).
     obind (refused c (CHR 0x27 # ''helloo'' @ CHR 0x27 # '' fail\<newline>'') r 0 u1) (\<lambda>(fail, u2).
     obind (ece391_open c (lit ''shel'') u2) (\<lambda>(r, u3).
     obind (refused c (CHR 0x27 # ''shel'' @ CHR 0x27 # '' fail\<newline>'') r fail u3) (\<lambda>(fail, u4).
     obind (ece391_open c (lit '''') u4) (\<lambda>(r, u5).
     obind (refused c ''empty string fail\<newline>'' r fail u5) (\<lambda>(fail, u6).
     verdict c ''err_open'' fail u6))))))"

definition err_unopened :: "'s calls \<Rightarrow> u8 list \<Rightarrow> 's user \<Rightarrow> (int \<times> 's user) outcome" where
  "err_unopened c buf u =
     obind (for_each (\<lambda>i fail u. obind (ece391_close c i u) (\<lambda>(r, u1).
       refused c ''close unopened or invalid fd fail\<newline>'' r fail u1)) [0..7] 0 u) (\<lambda>(fail, u1).
     obind (for_each (\<lambda>i (fail, buf) u. obind (ece391_read c i buf 31 u) (\<lambda>(r, buf1, u1).
       obind (refused c ''read from unopened fd fail\<newline>'' r fail u1) (\<lambda>(fail, u2). Ret ((fail, buf1), u2)))) [2..7] (fail, buf) u1)
       (\<lambda>((fail, buf1), u2).
     obind (for_each (\<lambda>i fail u. obind (ece391_write c i buf1 31 u) (\<lambda>(r, u1).
       refused c ''write to unopened fd fail\<newline>'' r fail u1)) [2..7] fail u2) (\<lambda>(fail, u3).
     verdict c ''err_unopened'' fail u3)))"

definition err_vidmap :: "'s calls \<Rightarrow> 's user \<Rightarrow> (int \<times> 's user) outcome" where
  "err_vidmap c u =
     obind (ece391_vidmap c 0 u) (\<lambda>(r, _, u1).
     obind (refused c ''Null pointer fail\<newline>'' r 0 u1) (\<lambda>(fail, u2).
     obind (ece391_vidmap c 0x400000 u2) (\<lambda>(r, _, u3).
     obind (refused c ''Kernel pointer fail fail\<newline>'' r fail u3) (\<lambda>(fail, u4).
     verdict c ''err_vidmap'' fail u4))))"

definition err_stdin_out :: "'s calls \<Rightarrow> u8 list \<Rightarrow> 's user \<Rightarrow> (int \<times> 's user) outcome" where
  "err_stdin_out c buf u =
     obind (ece391_write c 0 buf 31 u) (\<lambda>(r, u1).
     obind (refused c ''write to stdin fail\<newline>'' r 0 u1) (\<lambda>(fail, u2).
     obind (ece391_read c 1 buf 31 u2) (\<lambda>(r, _, u3).
     obind (refused c ''read from stdout fail\<newline>'' r fail u3) (\<lambda>(fail, u4).
     verdict c ''err_stdin_out'' fail u4))))"

definition err_syscall_num :: "'s calls \<Rightarrow> (int \<Rightarrow> regs) \<Rightarrow> 's user \<Rightarrow> (int \<times> 's user) outcome" where
  "err_syscall_num c r u =
     obind (call_sys c r BIG_NUM u) (\<lambda>(v, u1).
     obind (refused c ''syscall 0 fail\<newline>'' v 0 u1) (\<lambda>(fail, u2).
     obind (call_sys c r NEG_NUM u2) (\<lambda>(v, u3).
     obind (refused c ''big num syscall fail\<newline>'' v fail u3) (\<lambda>(fail, u4).
     obind (call_sys c r 0 u4) (\<lambda>(v, u5).
     obind (refused c ''neg num syscall fail\<newline>'' v fail u5) (\<lambda>(fail, u6).
     verdict c ''err_syscall_num'' fail u6))))))"

text \<open>
  Each test by its number, the eight of them with the sum of their results, and the program: \<open>junk\<close> is what the
  arrays of each test hold at first.
\<close>

definition err_test :: "'s calls \<Rightarrow> (int \<Rightarrow> regs) \<Rightarrow> (int \<Rightarrow> u8 list) \<Rightarrow> int \<Rightarrow> 's user \<Rightarrow> (int \<times> 's user) outcome" where
  "err_test c r junk n =
     (if n = 1 then err_neg_fd c (junk n) else if n = 2 then err_big_fd c (junk n) else if n = 3 then err_open_lots c
      else if n = 4 then err_open c else if n = 5 then err_unopened c (junk n) else if n = 6 then err_vidmap c
      else if n = 7 then err_stdin_out c (junk n) else err_syscall_num c r)"

definition syserr_select :: "'s calls \<Rightarrow> (int \<Rightarrow> regs) \<Rightarrow> (int \<Rightarrow> u8 list) \<Rightarrow> int \<Rightarrow> 's user \<Rightarrow> (int \<times> 's user) outcome" where
  "syserr_select c r junk select u =
     (if select = 0
      then obind (for_each (\<lambda>i fail u. obind (err_test c r junk i u) (\<lambda>(v, u1). Ret (fail + v, u1))) [1..8] 0 u) (\<lambda>(fail, u1).
           obind (ece391_fdputs c 1 (lit (if fail \<noteq> 0 then ''\<newline>Overall Tests: FAIL\<newline>'' else ''\<newline>Overall Tests: PASS\<newline>'')) u1)
             (\<lambda>u2. Ret (fail, u2)))
      else if 1 \<le> select \<and> select \<le> 8 then err_test c r junk select u
      else fail c ''Invalid test number. Choose from tests 1-8 or 0'' 0 u)"

definition syserr_main :: "'s calls \<Rightarrow> (int \<Rightarrow> regs) \<Rightarrow> (int \<Rightarrow> u8 list) \<Rightarrow> u8 list \<Rightarrow> 's user \<Rightarrow> (int \<times> 's user) outcome" where
  "syserr_main c r junk buf u =
     obind (ece391_fdputs c 1 (lit ''Choose from tests 1-8. 0 to run all: '') u) (\<lambda>u1.
     obind (ece391_read c 0 buf 127 u1) (\<lambda>(cnt, buf1, u2).
     if cnt = -1 then fail c ''Can't read test #\<newline>'' 2 u2
     else obind (buf_get buf1 0) (\<lambda>b. syserr_select c r junk (int (unat b) - 48) u2)))"

section \<open>What the tests ask of a kernel\<close>

text \<open>The texts a program has written to its standard output.\<close>

definition said :: "(int \<times> u8 list) list \<Rightarrow> u8 list list" where
  "said log = map snd (filter (\<lambda>e. fst e = 1) log)"

lemma said_simps [simp]:
  "said [] = []" "said ((d, t) # l) = (if d = 1 then t # said l else said l)" "said (l1 @ l2) = said l1 @ said l2"
  by (simp_all add: said_def)

definition passed :: "string \<Rightarrow> u8 list" where
  "passed name = map of_char (name @ '': PASS\<newline>'')"

definition test_name :: "int \<Rightarrow> string" where
  "test_name n =
     (if n = 1 then ''err_neg_fd'' else if n = 2 then ''err_big_fd'' else if n = 3 then ''err_open_lots''
      else if n = 4 then ''err_open'' else if n = 5 then ''err_unopened'' else if n = 6 then ''err_vidmap''
      else if n = 7 then ''err_stdin_out'' else ''err_syscall_num'')"

lemma refused_pass [simp]: "refused c m (-1) f u = Ret (f, u)"
  by (simp add: refused_def)

lemma for_each_keeps:
  assumes "\<And>i u. i \<in> set is \<Longrightarrow> I u \<Longrightarrow> \<exists>u1. f i x u = Ret (x, u1) \<and> I u1" "I u"
  shows "\<exists>u1. for_each f is x u = Ret (x, u1) \<and> I u1"
  using assms
proof (induction "is" arbitrary: u)
  case (Cons i "is")
  obtain u1 where "f i x u = Ret (x, u1)" "I u1" using Cons.prems(1)[of i u] Cons.prems(2) by auto
  with Cons.IH[of u1] Cons.prems(1) show ?case by auto
qed simp

text \<open>
  The descriptors from 2 on that are open are \<open>A\<close>. A call with a wrong argument is refused with \<open>-1\<close> and leaves the state alone;
  a directory can be opened as long as a descriptor is free.
\<close>

locale checked_calls = tty_out c "opened {}" for c :: "'s calls" and opened :: "nat set \<Rightarrow> 's \<Rightarrow> bool" +
  assumes opened_fds: "opened A s \<Longrightarrow> A \<subseteq> {2..<8}"
    and read_refused: "opened A s \<Longrightarrow> d < 0 \<or> 7 < d \<or> d = 1 \<or> d \<noteq> 0 \<and> nat d \<notin> A \<Longrightarrow> sys_read c d b n s = Ret (-1, b, s)"
    and write_refused: "opened A s \<Longrightarrow> d < 0 \<or> 7 < d \<or> d = 0 \<or> d \<noteq> 1 \<and> nat d \<notin> A \<Longrightarrow> sys_write c d b n s = Ret (-1, s)"
    and close_refused: "opened A s \<Longrightarrow> d < 2 \<or> 7 < d \<or> nat d \<notin> A \<Longrightarrow> sys_close c d s = Ret (-1, s)"
    and close_done: "opened A s \<Longrightarrow> i \<in> A \<Longrightarrow> \<exists>s'. sys_close c (int i) s = Ret (0, s') \<and> opened (A - {i}) s'"
    and open_full: "opened {2..<8} s \<Longrightarrow> sys_open c (lit ''.'') s = Ret (-1, s)"
    and open_free: "opened A s \<Longrightarrow> A \<noteq> {2..<8} \<Longrightarrow>
      \<exists>i s'. sys_open c (lit ''.'') s = Ret (int i, s') \<and> i \<in> {2..<8} - A \<and> opened (insert i A) s'"
    and open_refused: "opened A s \<Longrightarrow> name \<in> {''helloo'', ''shel'', ''''} \<Longrightarrow> sys_open c (lit name) s = Ret (-1, s)"
    and vidmap_refused: "opened A s \<Longrightarrow> p \<in> {0, 0x400000} \<Longrightarrow> \<exists>v. sys_vidmap c p s = Ret (-1, v, s)"
    and number_refused: "opened A s \<Longrightarrow> sint num < 1 \<or> 8 < sint num \<Longrightarrow> sys_number c num r s = Ret (-1, s)"
begin

lemma says:
  assumes "opened {} s" "0 \<notin> set (map of_char t :: u8 list)"
  shows "\<exists>s'. ece391_fdputs c 1 (lit t) (s, log) = Ret (s', log @ [(1, map of_char t)]) \<and> opened {} s'"
  using puts_lit[OF assms] .

lemma verdict_pass:
  assumes "opened {} s" "0 \<notin> set (map of_char name :: u8 list)"
  shows "\<exists>s'. verdict c name 0 (s, log) = Ret (0, s', log @ [(1, passed name)]) \<and> opened {} s'"
proof -
  have "0 \<notin> set (map of_char (name @ '': PASS\<newline>'') :: u8 list)" using assms(2) by simp
  from says[OF assms(1) this, of log] show ?thesis by (auto simp: verdict_def passed_def)
qed

lemma err_fd_passes:
  assumes "opened {} s" "0 \<notin> set (map of_char name :: u8 list)" "d < 0 \<or> 7 < d"
  shows "\<exists>s' log'. err_fd name d c buf (s, log) = Ret (0, s', log') \<and> opened {} s' \<and> said log' = said log @ [passed name]"
proof -
  have w: "sys_read c d buf 31 s = Ret (-1, buf, s)" "sys_write c d buf 31 s = Ret (-1, s)" "sys_close c d s = Ret (-1, s)"
    using read_refused[OF assms(1)] write_refused[OF assms(1)] close_refused[OF assms(1)] assms(3) by auto
  obtain s' where "verdict c name 0 (s, log @ [(d, take 31 buf)]) = Ret (0, s', (log @ [(d, take 31 buf)]) @ [(1, passed name)])" "opened {} s'"
    using verdict_pass[OF assms(1,2)] by blast
  moreover have "d \<noteq> 1" using assms(3) by auto
  ultimately show ?thesis using w by (auto simp: err_fd_def ece391_read_def ece391_write_def ece391_close_def)
qed

lemma open_many:
  assumes "opened A s"
  shows "\<exists>A' s'. for_each (\<lambda>i cnt u. obind (ece391_open c (lit ''.'') u) (\<lambda>(r, u1). Ret (if r = -1 then cnt + 1 else cnt, u1))) is cnt (s, log) =
      Ret (cnt + int (length is) - (int (card A') - int (card A)), s', log) \<and> opened A' s' \<and> card A' = min 6 (card A + length is)"
  using assms
proof (induction "is" arbitrary: A s cnt)
  case Nil
  then show ?case using card_mono[OF finite_atLeastLessThan opened_fds[OF Nil]] by auto
next
  case (Cons i "is")
  have A: "A \<subseteq> {2..<8}" "finite A" using opened_fds[OF Cons.prems] finite_subset by auto
  show ?case
  proof (cases "A = {2..<8}")
    case True
    with Cons.prems have o: "opened {2..<8} s" by simp
    from Cons.IH[OF o, of "cnt + 1"] open_full[OF o] True show ?thesis by (fastforce simp: ece391_open_def)
  next
    case False
    then obtain j s1 where j: "sys_open c (lit ''.'') s = Ret (int j, s1)" "j \<in> {2..<8} - A" "opened (insert j A) s1"
      using open_free[OF Cons.prems] by blast
    then have k: "card (insert j A) = Suc (card A)" "int j \<noteq> -1" using A(2) by auto
    obtain A' s' where "for_each (\<lambda>i cnt u. obind (ece391_open c (lit ''.'') u) (\<lambda>(r, u1). Ret (if r = -1 then cnt + 1 else cnt, u1))) is cnt (s1, log) =
        Ret (cnt + int (length is) - (int (card A') - int (card (insert j A))), s', log)" "opened A' s'" "card A' = min 6 (card (insert j A) + length is)"
      using Cons.IH[OF j(3)] by blast
    with j k show ?thesis by (intro exI[of _ A'] exI[of _ s']) (simp add: ece391_open_def)
  qed
qed

lemma close_many:
  assumes "opened A s" "\<forall>i\<in>set is. 2 \<le> i \<and> i \<le> 7"
  shows "\<exists>s'. for_each (\<lambda>i _ u. obind (ece391_close c i u) (\<lambda>(r, u1). Ret ((), u1))) is () (s, log) = Ret ((), s', log) \<and> opened (A - nat ` set is) s'"
  using assms
proof (induction "is" arbitrary: A s)
  case (Cons i "is")
  have i: "int (nat i) = i" using Cons.prems(2) by auto
  have "\<exists>r s1. sys_close c i s = Ret (r, s1) \<and> opened (A - {nat i}) s1"
    using close_done[OF Cons.prems(1), of "nat i"] close_refused[OF Cons.prems(1), of i] Cons.prems(1) i
    by (cases "nat i \<in> A") auto
  then obtain r s1 where s1: "sys_close c i s = Ret (r, s1)" "opened (A - {nat i}) s1" by blast
  have "A - {nat i} - nat ` set is = A - nat ` set (i # is)" by auto
  with Cons.IH[OF s1(2)] Cons.prems(2) s1(1) show ?case by (auto simp: ece391_close_def)
qed simp

end

context checked_calls
begin

lemma err_open_lots_passes:
  assumes "opened {} s"
  shows "\<exists>s' log'. err_open_lots c (s, log) = Ret (0, s', log') \<and> opened {} s' \<and> said log' = said log @ [passed ''err_open_lots'']"
proof -
  obtain A s1 where s1: "for_each (\<lambda>i cnt u. obind (ece391_open c (lit ''.'') u) (\<lambda>(r, u1). Ret (if r = -1 then cnt + 1 else cnt, u1))) [0..6] (0 :: int) (s, log) =
      Ret (1, s1, log)" "opened A s1"
    using open_many[OF assms, of "[0..6]" 0 log] by auto
  have r: "\<forall>i\<in>set [2..7]. 2 \<le> i \<and> i \<le> (7 :: int)" by auto
  have e: "A - nat ` set [2..7] = {}"
    using opened_fds[OF s1(2)] by (force simp: subset_iff)
  from close_many[OF s1(2) r, of log, unfolded e] obtain s2 where
    s2: "for_each (\<lambda>i _ u. obind (ece391_close c i u) (\<lambda>(r, u1). Ret ((), u1))) [2..7] () (s1, log) = Ret ((), s2, log)" "opened {} s2" by blast
  show ?thesis using says[OF s2(2), of "''err_open_lots: PASS\<newline>''" log] s1(1) s2(1)
    by (auto simp: err_open_lots_def fail_def passed_def)
qed

lemma err_open_passes:
  assumes "opened {} s"
  shows "\<exists>s' log'. err_open c (s, log) = Ret (0, s', log') \<and> opened {} s' \<and> said log' = said log @ [passed ''err_open'']"
  using open_refused[OF assms, of "''helloo''"] open_refused[OF assms, of "''shel''"] open_refused[OF assms, of "''''"]
    verdict_pass[OF assms, of "''err_open''" log]
  by (auto simp: err_open_def ece391_open_def)

lemma err_unopened_passes:
  assumes "opened {} s"
  shows "\<exists>s' log'. err_unopened c buf (s, log) = Ret (0, s', log') \<and> opened {} s' \<and> said log' = said log @ [passed ''err_unopened'']"
proof -
  let ?I = "\<lambda>u. opened {} (fst u) \<and> said (snd u) = said log"
  have "\<exists>u1. for_each (\<lambda>i fail u. obind (ece391_close c i u) (\<lambda>(r, u1).
      refused c ''close unopened or invalid fd fail\<newline>'' r fail u1)) [0..7] 0 (s, log) = Ret (0, u1) \<and> ?I u1"
    by (rule for_each_keeps) (use assms close_refused in \<open>auto simp: ece391_close_def\<close>)
  then obtain u1 where u1: "for_each (\<lambda>i fail u. obind (ece391_close c i u) (\<lambda>(r, u1).
      refused c ''close unopened or invalid fd fail\<newline>'' r fail u1)) [0..7] 0 (s, log) = Ret (0, u1)" "?I u1" by blast
  have "\<exists>u2. for_each (\<lambda>i (fail, buf) u. obind (ece391_read c i buf 31 u) (\<lambda>(r, buf1, u1).
      obind (refused c ''read from unopened fd fail\<newline>'' r fail u1) (\<lambda>(fail, u2). Ret ((fail, buf1), u2)))) [2..7] (0, buf) u1 =
      Ret ((0, buf), u2) \<and> ?I u2"
    by (rule for_each_keeps) (use u1(2) read_refused[of "{}"] in \<open>auto simp: ece391_read_def\<close>)
  then obtain u2 where u2: "for_each (\<lambda>i (fail, buf) u. obind (ece391_read c i buf 31 u) (\<lambda>(r, buf1, u1).
      obind (refused c ''read from unopened fd fail\<newline>'' r fail u1) (\<lambda>(fail, u2). Ret ((fail, buf1), u2)))) [2..7] (0, buf) u1 =
      Ret ((0, buf), u2)" "?I u2" by blast
  have "\<exists>u3. for_each (\<lambda>i fail u. obind (ece391_write c i buf 31 u) (\<lambda>(r, u1).
      refused c ''write to unopened fd fail\<newline>'' r fail u1)) [2..7] 0 u2 = Ret (0, u3) \<and> ?I u3"
    by (rule for_each_keeps) (use u2(2) write_refused[of "{}"] in \<open>auto simp: ece391_write_def\<close>)
  then obtain s3 log3 where u3: "for_each (\<lambda>i fail u. obind (ece391_write c i buf 31 u) (\<lambda>(r, u1).
      refused c ''write to unopened fd fail\<newline>'' r fail u1)) [2..7] 0 u2 = Ret (0, s3, log3)" "?I (s3, log3)" by (metis surj_pair)
  then show ?thesis using verdict_pass[of s3 "''err_unopened''" log3] u1(1) u2(1) by (auto simp: err_unopened_def)
qed

lemma err_vidmap_passes:
  assumes "opened {} s"
  shows "\<exists>s' log'. err_vidmap c (s, log) = Ret (0, s', log') \<and> opened {} s' \<and> said log' = said log @ [passed ''err_vidmap'']"
  using vidmap_refused[OF assms, where p = 0] vidmap_refused[OF assms, where p = "0x400000"] verdict_pass[OF assms, of "''err_vidmap''" log]
  by (auto simp: err_vidmap_def ece391_vidmap_def)

lemma err_stdin_out_passes:
  assumes "opened {} s"
  shows "\<exists>s' log'. err_stdin_out c buf (s, log) = Ret (0, s', log') \<and> opened {} s' \<and> said log' = said log @ [passed ''err_stdin_out'']"
  using write_refused[OF assms, of 0 buf 31] read_refused[OF assms, of 1 buf 31]
    verdict_pass[OF assms, of "''err_stdin_out''" "log @ [(0, take 31 buf)]"]
  by (auto simp: err_stdin_out_def ece391_write_def ece391_read_def)

lemma err_syscall_num_passes:
  assumes "opened {} s"
  shows "\<exists>s' log'. err_syscall_num c r (s, log) = Ret (0, s', log') \<and> opened {} s' \<and> said log' = said log @ [passed ''err_syscall_num'']"
proof -
  have n: "sys_number c (word_of_int i) g s = Ret (-1, s)" if "i = BIG_NUM \<or> i = NEG_NUM \<or> i = 0" for i g
  proof -
    have "sint (word_of_int i :: u32) < 1 \<or> 8 < sint (word_of_int i :: u32)"
      using that by (auto simp: BIG_NUM_def NEG_NUM_def)
    from number_refused[OF assms this] show ?thesis .
  qed
  from n[of BIG_NUM] n[of NEG_NUM] n[of 0] verdict_pass[OF assms, of "''err_syscall_num''" log] show ?thesis
    by (auto simp: err_syscall_num_def call_sys_def)
qed

lemma err_test_passes:
  assumes "opened {} s" "1 \<le> n" "n \<le> 8"
  shows "\<exists>s' log'. err_test c r junk n (s, log) = Ret (0, s', log') \<and> opened {} s' \<and> said log' = said log @ [passed (test_name n)]"
proof -
  from assms(2,3) consider "n = 1" | "n = 2" | "n = 3" | "n = 4" | "n = 5" | "n = 6" | "n = 7" | "n = 8" by linarith
  then show ?thesis
    by cases (use err_fd_passes[OF assms(1)] err_open_lots_passes[OF assms(1)] err_open_passes[OF assms(1)] err_unopened_passes[OF assms(1)]
        err_vidmap_passes[OF assms(1)] err_stdin_out_passes[OF assms(1)] err_syscall_num_passes[OF assms(1)]
      in \<open>simp_all add: err_test_def test_name_def err_neg_fd_def err_big_fd_def NEG_FD_def BIG_FD_def\<close>)
qed

lemma all_tests_pass:
  assumes "opened {} s" "set is \<subseteq> {1..8}"
  shows "\<exists>s' log'. for_each (\<lambda>i fail u. obind (err_test c r junk i u) (\<lambda>(v, u1). Ret (fail + v, u1))) is 0 (s, log) = Ret (0, s', log') \<and>
    opened {} s' \<and> said log' = said log @ map (passed \<circ> test_name) is"
  using assms
proof (induction "is" arbitrary: s log)
  case (Cons i "is")
  obtain s1 log1 where s1: "err_test c r junk i (s, log) = Ret (0, s1, log1)" "opened {} s1" "said log1 = said log @ [passed (test_name i)]"
    using err_test_passes[OF Cons.prems(1), of i r junk log] Cons.prems(2) by auto
  from Cons.IH[OF s1(2), of log1] Cons.prems(2) s1 show ?case by auto
qed simp

lemma select_passes:
  assumes "opened {} s" "0 \<le> select" "select \<le> 8"
  shows "\<exists>s' log'. syserr_select c r junk select (s, log) = Ret (0, s', log') \<and> opened {} s' \<and>
    said log' = said log @ (if select = 0 then map (passed \<circ> test_name) [1..8] @ [map of_char ''\<newline>Overall Tests: PASS\<newline>'']
                            else [passed (test_name select)])"
proof (cases "select = 0")
  case True
  obtain s1 log1 where s1: "for_each (\<lambda>i fail u. obind (err_test c r junk i u) (\<lambda>(v, u1). Ret (fail + v, u1))) [1..8] 0 (s, log) = Ret (0, s1, log1)"
      "opened {} s1" "said log1 = said log @ map (passed \<circ> test_name) [1..8]"
    using all_tests_pass[OF assms(1), of "[1..8]" r junk log] by auto
  with True says[OF s1(2), of "''\<newline>Overall Tests: PASS\<newline>''" log1] show ?thesis by (auto simp: syserr_select_def)
next
  case False
  with assms err_test_passes[of s select r junk log] show ?thesis by (auto simp: syserr_select_def)
qed

end

section \<open>The kernel\<close>

text \<open>
  Program \<open>p\<close> runs on the terminal shown, its open descriptors from 2 on are \<open>A\<close>, and the image has a directory entry \<open>.\<close> but no
  files \<open>helloo\<close> and \<open>shel\<close>.
\<close>

definition names_ok :: "'a fs_scheme \<Rightarrow> bool" where
  "names_ok s \<longleftrightarrow> (\<exists>d. read_dentry_by_name (lit ''.'') s = Ret (Some d) \<and> fileType d = 1) \<and>
     read_dentry_by_name (lit ''helloo'') s = Ret None \<and> read_dentry_by_name (lit ''shel'') s = Ret None"

definition err_ready :: "nat \<Rightarrow> nat set \<Rightarrow> 'a kernel_scheme \<Rightarrow> bool" where
  "err_ready p A s \<longleftrightarrow> tty_open s \<and> writable s \<and> running s p \<and> pcb_ok (pcbs s p) \<and> dir_apart s \<and> names_ok s \<and> fds_used (fd (pcbs s p)) = A"

lemma names_ok_same:
  assumes "\<And>f. read_dentry_by_name f s' = read_dentry_by_name f s"
  shows "names_ok s' = names_ok s"
  using assms by (simp add: names_ok_def)

lemma err_ready_write:
  assumes "err_ready p A s" "terminated b"
  shows "\<exists>s'. write_call env 1 (Some b) n s = Ret (int (length (cstr b)), s') \<and> err_ready p A s'"
proof -
  have r: "tty_open s" "writable s" "dir_apart s" using assms(1) by (auto simp: err_ready_def)
  obtain s' where s': "write_call env 1 (Some b) n s = Ret (int (length (cstr b)), s')" "tty_open s'" "writable s'" "apart s s'"
      "bootHead s' = bootHead s" "prog_view s' = prog_view s" using write_call_apart[OF r(1,2) assms(2)] by blast
  note d = dir_apart_same(4,5)[OF s'(4) r(3) s'(5)]
  show ?thesis using s' d names_ok_same[OF d(1)] prog_view_fields[OF s'(6)] assms(1) by (auto simp: err_ready_def)
qed

text \<open>A change of the descriptors from 2 on keeps the rest.\<close>

lemma err_ready_fds:
  assumes "err_ready p A s" "only_fds s s'" "pcb_ok (pcbs s' p)" "fds_used (fd (pcbs s' p)) = B"
  shows "err_ready p B s'"
proof -
  have r: "dir_apart s" "bootHead s' = bootHead s" using assms(1,2) by (auto simp: err_ready_def only_fds_def)
  note o = only_fds_tty[OF assms(2)]
  note d = dir_apart_same(4,5)[OF o(3) r]
  show ?thesis using o d names_ok_same[OF d(1)] assms(1,3,4) by (auto simp: err_ready_def)
qed

lemma err_ready_close:
  assumes "err_ready p A s" "i \<in> A"
  shows "\<exists>s'. close_call (int i) s = Ret (0, s') \<and> err_ready p (A - {i}) s'"
proof -
  let ?f = "\<lambda>d. d\<lparr>flags := 0, sysops_ptr := None, filePosition := 0\<rparr>"
  have r: "running s p" "pcb_ok (pcbs s p)" "fds_used (fd (pcbs s p)) = A" using assms(1) by (auto simp: err_ready_def)
  then have i: "2 \<le> i" "i < 8" "flags (fd (pcbs s p) ! i) \<noteq> 0" using assms(2) by (auto simp: fds_used_def)
  have len: "length (fd (pcbs s p)) = 8" using r(2) by (simp add: pcb_ok_def)
  have ok: "pcb_ok (pcbs (update_fd p i ?f s) p)"
    using pcb_ok_update_fd[OF r(2), of ?f i] r(2) i len by (simp add: pcb_ok_def)
  have "fds_used (fd (pcbs (update_fd p i ?f s) p)) = A - {i}"
    using i len r(3) by (auto simp: fds_used_def nth_list_update split: if_splits)
  from err_ready_fds[OF assms(1) only_fds_update(1)[OF i(1)] ok this] close_call_open[OF r(1,2) i] show ?thesis by blast
qed

lemma err_ready_open:
  assumes "err_ready p A s"
  shows "A = {2..<8} \<Longrightarrow> open_call env (lit ''.'') s = Ret (-1, s)"
    and "A \<noteq> {2..<8} \<Longrightarrow> \<exists>i s'. open_call env (lit ''.'') s = Ret (int i, s') \<and> i \<in> {2..<8} - A \<and> err_ready p (insert i A) s'"
proof -
  have r: "tty_open s" "writable s" "running s p" "pcb_ok (pcbs s p)" "names_ok s" "fds_used (fd (pcbs s p)) = A"
    using assms by (auto simp: err_ready_def)
  then obtain d where d: "read_dentry_by_name (lit ''.'') s = Ret (Some d)" "fileType d = 1" by (auto simp: names_ok_def)
  have len: "length (fd (pcbs s p)) = 8" using r(4) by (simp add: pcb_ok_def)
  have nm: "terminated (lit ''.'')" "cstr (lit ''.'') \<noteq> []" "length (cstr (lit ''.'')) < 32" "buf_get (lit ''.'') 0 = Ret 46"
    by (simp_all add: lit_def terminated_def cstr_def buf_get_def)
  show "open_call env (lit ''.'') s = Ret (-1, s)" if "A = {2..<8}"
  proof -
    have "fds_pick (fd (pcbs s p)) = None" using fd_pool.pick_eq_None[OF len] that r(6) by simp
    then show ?thesis using nm d r by (simp add: open_call_def fds_pick_def)
  qed
  show "\<exists>i s'. open_call env (lit ''.'') s = Ret (int i, s') \<and> i \<in> {2..<8} - A \<and> err_ready p (insert i A) s'" if ne: "A \<noteq> {2..<8}"
  proof -
    have "A \<subseteq> {2..<8}" using r(6) by (auto simp: fds_used_def)
    then obtain i where i: "fds_pick (fd (pcbs s p)) = Some i" using fd_pool.pick_eq_None[OF len] ne r(6) by auto
    note f = fd_pool.pick_free[OF len i]
    have free: "first_free (\<lambda>d. flags d = 0) (fd (pcbs s p)) [2..<8] = Some i" using i by (simp add: fds_pick_def)
    obtain s' where s': "open_call env (lit ''.'') s = Ret (int i, s')" "only_fds s s'" "flags (fd_of p i s') = 1"
      using open_call_tty[OF r(1-4) nm(1-3) d(1) _ i, of env] d(2) by auto
    have "only_fd p i s s' \<and> pcb_ok (pcbs s' p)"
      using s'(1) nm(4) d r free len f pcb_ok_update_fd[OF r(4), of "\<lambda>d. d\<lparr>flags := 1, filePosition := 0, sysops_ptr := Some Directory_ops\<rparr>" i]
      by (auto simp: open_call_def open_at_def setup_fd_def Let_def open_driver_def open_directory_def only_fd_def pcb_ok_def)
    with fds_used_only[of p i s s'] err_ready_fds[OF assms s'(2)] s' f r(4,6) show ?thesis by (auto simp: fd_of_def)
  qed
qed

interpretation kernel_checks: checked_calls "kernel_calls env child" "err_ready p" for env :: "'a env" and child p
proof unfold_locales
  fix s :: "'a kernel_scheme" and b n
  assume "err_ready p {} s" "terminated b"
  then show "\<exists>s'. sys_write (kernel_calls env child) 1 b n s = Ret (int (length (cstr b)), s') \<and> err_ready p {} s'"
    using err_ready_write[of p "{}" s b env n] by (simp add: kernel_calls_def)
next
  fix s :: "'a kernel_scheme" and A
  assume o: "err_ready p A s"
  then have run: "running s p" "pcb_ok (pcbs s p)" and A: "fds_used (fd (pcbs s p)) = A" by (auto simp: err_ready_def)
  have closed: "flags (fd (pcbs s p) ! nat d) = 0" if "2 \<le> d" "d \<le> 7" "nat d \<notin> A" for d
    using that A by (auto simp: fds_used_def)
  show "A \<subseteq> {2..<8}" using A by (auto simp: fds_used_def)
  fix d n and b :: "u8 list"
  show "sys_read (kernel_calls env child) d b n s = Ret (-1, b, s)" if "d < 0 \<or> 7 < d \<or> d = 1 \<or> d \<noteq> 0 \<and> nat d \<notin> A"
  proof -
    have "d < 0 \<or> 7 < d \<or> d = 1 \<or> flags (fd (pcbs s p) ! nat d) = 0" using that closed[of d] by force
    then show ?thesis using run by (auto simp: kernel_calls_def read_call_def bytes_of_def pcb_ok_def)
  qed
  show "sys_write (kernel_calls env child) d b n s = Ret (-1, s)" if "d < 0 \<or> 7 < d \<or> d = 0 \<or> d \<noteq> 1 \<and> nat d \<notin> A"
  proof -
    have "d < 0 \<or> 7 < d \<or> d = 0 \<or> flags (fd (pcbs s p) ! nat d) = 0" using that closed[of d] by force
    then show ?thesis using run by (auto simp: kernel_calls_def write_call_def pcb_ok_def)
  qed
  show "sys_close (kernel_calls env child) d s = Ret (-1, s)" if "d < 2 \<or> 7 < d \<or> nat d \<notin> A"
    using close_call_bad[OF run, of d] closed[of d] that by (force simp: kernel_calls_def)
  show "\<exists>s'. sys_close (kernel_calls env child) (int i) s = Ret (0, s') \<and> err_ready p (A - {i}) s'" if "i \<in> A" for i
    using err_ready_close[OF o that] by (simp add: kernel_calls_def)
  show "\<exists>i s'. sys_open (kernel_calls env child) (lit ''.'') s = Ret (int i, s') \<and> i \<in> {2..<8} - A \<and> err_ready p (insert i A) s'" if "A \<noteq> {2..<8}"
    using err_ready_open(2)[OF o that, of env] by (simp add: kernel_calls_def)
  show "sys_open (kernel_calls env child) (lit name) s = Ret (-1, s)" if "name \<in> {''helloo'', ''shel'', ''''}" for name
    using that o run by (auto simp: kernel_calls_def open_call_def err_ready_def names_ok_def lit_def buf_get_def)
  show "\<exists>v. sys_vidmap (kernel_calls env child) a s = Ret (-1, v, s)" if "a \<in> {0, 0x400000}" for a
    using that by (auto simp: kernel_calls_def vidmap_def)
  show "sys_number (kernel_calls env child) num r s = Ret (-1, s)" if "sint num < 1 \<or> 8 < sint num" for num r
    using that by (auto simp: kernel_calls_def syscall_wrapper_def split: prod.splits)
next
  fix s :: "'a kernel_scheme"
  assume "err_ready p {2..<8} s"
  then show "sys_open (kernel_calls env child) (lit ''.'') s = Ret (-1, s)"
    using err_ready_open(1)[of p "{2..<8}" s env] by (simp add: kernel_calls_def)
qed

section \<open>Properties\<close>

text \<open>
  C17: On this kernel the test program reports \<open>PASS\<close> for each of the tests 1 to 8, and for all of them one after the other and
  overall with test 0, and returns 0: reading, writing and closing of descriptors that are out of range or not open, the
  seventh \<open>open\<close>, \<open>open\<close> of names that are nearly those of files, writing to the standard input and reading
  from the standard output, \<open>vidmap\<close> of null and of the kernel's page, and system call numbers out of range are all refused. It is assumed
  that the program starts with no descriptor from 2 on open and that the directory lies apart from the screen.
\<close>

theorem syserr_passes:
  assumes "tty_open s" "writable s" "running s p" "pcb_ok (pcbs s p)" "fds_used (fd (pcbs s p)) = {}"
    and "dir_apart s" "names_ok s" "0 \<le> select" "select \<le> 8"
  shows "\<exists>s' log'. syserr_select (kernel_calls env child) r junk select (s, log) = Ret (0, s', log') \<and>
    said log' = said log @ (if select = 0 then map (passed \<circ> test_name) [1..8] @ [map of_char ''\<newline>Overall Tests: PASS\<newline>'']
                            else [passed (test_name select)])"
proof -
  have "err_ready p {} s" using assms by (simp add: err_ready_def)
  from kernel_checks.select_passes[OF this assms(8,9), of env child r junk log] show ?thesis by blast
qed

text \<open>The demonstration kernel with an entry for the directory and no descriptor open.\<close>

definition demo_closed :: kernel where
  "demo_closed = demo_dir\<lparr>pcbs := (\<lambda>_. demo_unopened)\<rparr>"

lemma demo_dir_other:
  assumes "terminated f" "length (cstr f) < 32" "cstr f \<noteq> []" "f ! 0 \<noteq> 46"
  shows "read_dentry_by_name f demo_dir = Ret None"
proof -
  have "f ! 0 \<noteq> 0" using nth_cstr_nonzero[of 0 f] assms(3) by simp
  then have "\<not> same_prefix f (fileName (entry demo_dir i)) 31" if "i < 63" for i
    using demo_dir_name[OF that] assms(3,4) by (cases f) (auto simp: same_prefix_def cstr_def)
  then show ?thesis using read_dentry_by_name_find[OF assms(1,2), of demo_dir] by (auto simp: find_None_iff)
qed

lemma demo_dir_lookup:
  "read_dentry_by_name (lit ''.'') demo_dir = Ret (Some (entry demo_dir 0))" "fileType (entry demo_dir 0) = 1"
  "read_dentry_by_name (lit ''helloo'') demo_dir = Ret None" "read_dentry_by_name (lit ''shel'') demo_dir = Ret None"
proof -
  have "[0..<63] = 0 # [1..<63]" by (simp add: upt_rec)
  then show "read_dentry_by_name (lit ''.'') demo_dir = Ret (Some (entry demo_dir 0))"
    using read_dentry_by_name_find[of "lit ''.''" demo_dir] by (simp add: demo_dir_name lit_def terminated_def cstr_def same_prefix_def)
  show "fileType (entry demo_dir 0) = 1" by (simp add: entry_def le32_def demo_dir_simps demo_image_def)
  show "read_dentry_by_name (lit ''helloo'') demo_dir = Ret None" "read_dentry_by_name (lit ''shel'') demo_dir = Ret None"
    by (rule demo_dir_other; simp add: lit_def terminated_def cstr_def)+
qed

theorem syserr_passes_witness:
  "\<exists>s' log'. syserr_select (kernel_calls demo_env (\<lambda>_ _. Undef)) (\<lambda>_. (\<lambda>_. None, 0, 0, 0)) (\<lambda>_. replicate 32 0) 3 (demo_closed, []) = Ret (0, s', log') \<and>
    said log' = [map of_char ''err_open_lots: PASS\<newline>'']"
proof -
  have f: "read_dentry_by_name f demo_closed = read_dentry_by_name f demo_dir" for f
    by (rule same_image_lookup) (simp add: same_image_def demo_closed_def)
  have "names_ok demo_closed" using demo_dir_lookup by (simp add: names_ok_def f)
  moreover have "writable demo_closed" by (simp add: writable_def demo_closed_def demo_dir_def demo_extend)
  moreover have "tty_open demo_closed"
    using demo_tty_open by (simp add: tty_open_def demo_closed_def demo_dir_def term_wf_def find_terminal_def running_def demo_unopened_def demo_pcb_def on_tty_def demo_fd_def)
  moreover have "running demo_closed 1" using demo_running by (simp add: demo_closed_def demo_dir_def running_def)
  moreover have "dir_apart demo_closed" using demo_dir_names_dot(4) by (simp add: dir_apart_def boot_bytes_def demo_closed_def)
  moreover have "pcb_ok (pcbs demo_closed 1)" "fds_used (fd (pcbs demo_closed 1)) = {}" 
    using demo_unopened_ok by (simp_all add: demo_closed_def)
  ultimately show ?thesis
    using syserr_passes[of demo_closed 1 3 demo_env "\<lambda>_ _. Undef" "\<lambda>_. (\<lambda>_. None, 0, 0, 0)" "\<lambda>_. replicate 32 0" "[]"]
    by (simp add: passed_def test_name_def)
qed

end
