(* ===== verification/Grep.thy ===== *)
theory Grep
  imports Apart
begin

text \<open>
  What \<open>grep\<close> finds in a file: the file is read in pieces into a buffer of 1024 bytes, the start of a line that is not complete at the end of
  the buffer is moved to its beginning, and every line is searched once. For a text file with lines that fit in the buffer, the
  lines printed are exactly those with an occurrence of the search string.
\<close>

section \<open>Specification\<close>

definition occurs :: "u8 list \<Rightarrow> u8 list \<Rightarrow> bool" where
  "occurs w l \<longleftrightarrow> (\<exists>k<length l. take (length w) (drop k l) = w)"

definition hits :: "u8 list \<Rightarrow> u8 list \<Rightarrow> u8 list list \<Rightarrow> (int \<times> u8 list) list" where
  "hits w fname ls = concat (map (\<lambda>l. [(1, fname), (1, [58]), (1, l), (1, [10])]) (filter (occurs w) ls))"

lemma occurs_upt: "occurs w l \<longleftrightarrow> (\<exists>k\<in>set [0..<length l]. take (length w) (drop k l) = w)"
  by (auto simp: occurs_def)

lemma hits_append [simp]: "hits w fname (ls @ ls') = hits w fname ls @ hits w fname ls'"
  by (simp add: hits_def)

lemma hits_one: "hits w fname [l] @ hits w fname ls = hits w fname (l # ls)"
  by (simp add: hits_def)

lemma hits_empty [simp]: "hits w fname [] = []" "hits w fname [[]] = []"
  by (simp_all add: hits_def occurs_def)

lemma text_lines_split: "text_lines r = ls @ [q] \<Longrightarrow> text_lines (r @ t) = ls @ text_lines (q @ t)"
proof (induction r arbitrary: ls q)
  case (Cons x r)
  obtain ls' q' where l: "text_lines r = ls' @ [q']" by (metis split_on_nonempty append_butlast_last_id)
  note IH = Cons.IH[OF l]
  show ?case
  proof (cases "x = 10")
    case True
    with Cons.prems l IH show ?thesis by (cases ls) auto
  next
    case False
    show ?thesis
    proof (cases ls')
      case Nil
      then show ?thesis using False Cons.prems l IH by (auto split: list.splits)
    next
      case (Cons a as)
      then show ?thesis using False Cons.prems l IH by (cases ls) (auto split: list.splits)
    qed
  qed
qed simp

lemma text_lines_first: "10 \<notin> set q \<Longrightarrow> \<exists>l ls. text_lines (q @ t) = (q @ l) # ls"
proof (induction q)
  case Nil
  then show ?case by (cases "text_lines t") auto
qed auto

lemma text_lines_single: "text_lines r = [p] \<Longrightarrow> r = p"
  by (cases "10 \<in> set r") (auto simp: split_on_append split_on_one dest!: split_list, metis append_is_Nil_conv butlast_append butlast.simps(2) split_on_nonempty)

section \<open>Searching a line\<close>

lemma strncmp_rest_run:
  "w \<noteq> [] \<Longrightarrow> 0 \<notin> set w \<Longrightarrow> 0 \<notin> set l \<Longrightarrow> \<exists>r. strncmp_rest (l @ 0 # p) (w @ q) (length w) = Ret r \<and> (r = 0 \<longleftrightarrow> take (length w) l = w)"
proof (induction w arbitrary: l)
  case (Cons a w)
  show ?case
  proof (cases l)
    case Nil
    with Cons.prems show ?thesis by (auto simp: word_uint_eq_iff)
  next
    case (Cons b l')
    then show ?thesis using Cons.IH[of l'] Cons.prems by (cases "w = []") (auto simp: word_uint_eq_iff)
  qed
qed simp

lemma matches_at_line:
  assumes "drop ls d = l @ 0 # post" "0 \<notin> set l" "k < length l" "s = w @ q" "w \<noteq> []" "0 \<notin> set w" "hd w < 128"
  shows "matches_at s (length w) d (ls + k) = Ret (take (length w) (drop k l) = w)"
proof -
  have d: "drop (ls + k) d = drop k l @ 0 # post" 
  proof -
    have "drop (ls + k) d = drop k (drop ls d)" by (simp add: add.commute)
    then show ?thesis using assms(1,3) by simp
  qed
  have len: "ls + k < length d" using arg_cong[OF d, of length] assms(3) by simp
  have nth: "d ! (ls + k) = l ! k" using d assms(3) len by (metis Cons_nth_drop_Suc append_Cons list.inject)
  have s: "buf_get s 0 = Ret (hd w)" using assms(4,5) by (cases w) (auto simp: buf_get_def)
  have "0 \<le> uint (hd w)" by simp
  then have "-128 \<le> uint (hd w)" by linarith
  then have sint: "sint (hd w) = uint (hd w)"
    using assms(7) by (simp add: sint_uint word_less_def signed_take_bit_int_eq_self)
  have "0 \<notin> set (drop k l)" using assms(2) by (meson in_set_dropD)
  then obtain r where r: "strncmp_rest (drop k l @ 0 # post) (w @ q) (length w) = Ret r" "r = 0 \<longleftrightarrow> take (length w) (drop k l) = w"
    using strncmp_rest_run[OF assms(5,6)] by blast
  have hd: "hd w = l ! k" if "take (length w) (drop k l) = w"
    using that assms(3,5) by (metis hd_drop_conv_nth hd_take length_greater_0_conv)
  show ?thesis
  proof (cases "hd w = l ! k")
    case True
    then have "uint (l ! k) = sint (hd w)" using sint by simp
    then show ?thesis using s nth len r d assms(4,5) by (simp add: matches_at_def ece391_strncmp_def)
  next
    case False
    then have "uint (l ! k) \<noteq> sint (hd w)" using sint by (simp add: word_uint_eq_iff)
    then show ?thesis using s nth len hd False by (auto simp: matches_at_def)
  qed
qed

text \<open>A string that begins with a byte from 128 on is found nowhere: as a \<open>char\<close> the byte is negative.\<close>

lemma high_never_matches:
  assumes "s \<noteq> []" "128 \<le> s ! 0" "k < length d"
  shows "matches_at s n d k = Ret False"
proof -
  have "sint (s ! 0) \<noteq> uint (d ! k)"
  proof
    assume "sint (s ! 0) = uint (d ! k)"
    from arg_cong[OF this, of "word_of_int :: int \<Rightarrow> u8"] have "s ! 0 = d ! k" by simp
    then have "uint (s ! 0) = sint (s ! 0)" using \<open>sint (s ! 0) = uint (d ! k)\<close> by simp
    moreover have "sint (s ! 0) < 128" using sint_lt[of "s ! 0"] by simp
    ultimately show False using assms(2) by (simp add: word_le_def)
  qed
  then show ?thesis using assms(1,3) by (simp add: matches_at_def buf_get_def)
qed

section \<open>Moving text in the buffer\<close>

lemma strcpy_down:
  assumes "drop src b = l @ 0 # q" "0 \<notin> set l" "dst \<le> src"
  shows "ece391_strcpy dst src b = Ret (take dst b @ l @ 0 # drop (Suc (dst + length l)) b)"
  using assms
proof (induction l arbitrary: dst src b)
  case Nil
  have src: "src < length b" using arg_cong[OF Nil(1), of length] by simp
  then have "b ! src = 0" using Nil(1) by (simp add: Cons_nth_drop_Suc[symmetric])
  with src Nil(3) show ?case by (subst ece391_strcpy.simps) (simp add: upd_conv_take_nth_drop)
next
  case (Cons x l)
  have src: "src < length b" using arg_cong[OF Cons.prems(1), of length] by simp
  have x: "b ! src = x" "drop (Suc src) b = l @ 0 # q" using Cons.prems(1) src by (simp_all add: Cons_nth_drop_Suc[symmetric])
  have "drop (Suc src) (b[dst := x]) = l @ 0 # q" using x(2) Cons.prems(3) by simp
  from Cons.IH[OF this, of "Suc dst"] Cons.prems(2,3)
  have "ece391_strcpy (Suc dst) (Suc src) (b[dst := x]) = Ret (take (Suc dst) (b[dst := x]) @ l @ 0 # drop (Suc (Suc dst + length l)) (b[dst := x]))"
    by simp
  also have "take (Suc dst) (b[dst := x]) = take dst b @ [x]" using src Cons.prems(3) by (simp add: take_Suc_conv_app_nth)
  finally show ?case using src x(1) Cons.prems by (subst ece391_strcpy.simps) auto
qed

lemma line_end_skip:
  "10 \<notin> set l \<Longrightarrow> length pre + length l \<le> lim \<Longrightarrow>
     line_end (pre @ l @ post) lim (length pre) = line_end (pre @ l @ post) lim (length pre + length l)"
proof (induction l arbitrary: pre)
  case (Cons x l)
  have "line_end (pre @ (x # l) @ post) lim (length pre) = line_end (pre @ (x # l) @ post) lim (Suc (length pre))"
    using Cons.prems by (subst line_end.simps) (auto simp: nth_append)
  with Cons.IH[of "pre @ [x]"] Cons.prems show ?case by simp
qed simp

lemma last_or_drop: "last (r @ x # drop n d) \<in> {x, last d}"
  by (cases "n < length d") (auto simp: last_drop)

lemma strcpy_to_start:
  assumes "drop src b = l @ 0 # q" "0 \<notin> set l"
  shows "\<exists>b'. ece391_strcpy 0 src b = Ret b' \<and> length b' = length b \<and> take (length l) b' = l \<and> last b' \<in> {0, last b}"
  using strcpy_down[OF assms, of 0] last_or_drop[of l 0 "Suc (length l)" b] arg_cong[OF assms(1), of length] by auto

section \<open>Reading and searching\<close>

locale text_out = tty_out c ok for c :: "'s calls" and ok :: "'s \<Rightarrow> bool" +
  fixes des :: int and rest :: "'s \<Rightarrow> u8 list"
  assumes read_some: "ok s \<Longrightarrow> 0 < n \<Longrightarrow> n \<le> 1024 \<Longrightarrow> n \<le> length b \<Longrightarrow> x = take n (rest s) \<Longrightarrow>
      \<exists>s'. sys_read c des b (int n) s = Ret (int (length x), x @ drop (length x) b, s') \<and> ok s' \<and> rest s' = drop n (rest s)"
    and write_keeps: "ok s \<Longrightarrow> terminated b \<Longrightarrow> sys_write c 1 b k s = Ret (r, s') \<Longrightarrow> rest s' = rest s"
begin

lemma puts_keeps:
  assumes "ok s" "terminated t"
  shows "\<exists>s'. ece391_fdputs c 1 t (s, log) = Ret (s', log @ [(1, cstr t)]) \<and> ok s' \<and> rest s' = rest s"
proof -
  obtain s' where s': "ece391_fdputs c 1 t (s, log) = Ret (s', log @ [(1, cstr t)])" "ok s'" using puts[OF assms] by blast
  then obtain r where "sys_write c 1 t (int (length (cstr t))) s = Ret (r, s')"
    using assms(2) by (auto simp: ece391_fdputs_def ece391_strlen_eq ece391_write_def outcome_simps)
  with write_keeps[OF assms] s' show ?thesis by blast
qed

lemma search_line_run:
  assumes "ok s" "drop ls d = l @ 0 # post" "0 \<notin> set l" "str = w @ q" "w \<noteq> []" "0 \<notin> set w" "hd w < 128" "terminated fname" "j \<le> length l"
  shows "\<exists>s'. search_line c str (length w) fname d ls [ls + j..<ls + length l] (s, log) =
      Ret (s', log @ (if \<exists>k\<in>{j..<length l}. take (length w) (drop k l) = w then [(1, cstr fname), (1, [58]), (1, l), (1, [10])] else [])) \<and>
    ok s' \<and> rest s' = rest s"
  using assms(9)
proof (induction "length l - j" arbitrary: j)
  case 0
  with assms(1) show ?case by simp
next
  case (Suc n)
  then have j: "j < length l" by simp
  have up: "[ls + j..<ls + length l] = (ls + j) # [ls + Suc j..<ls + length l]" using j by (simp add: upt_conv_Cons)
  note m = matches_at_line[OF assms(2,3) j assms(4-7)]
  show ?case
  proof (cases "take (length w) (drop j l) = w")
    case True
    have t: "terminated (drop ls d)" "cstr (drop ls d) = l" using assms(2,3) by (simp_all add: terminated_split cstr_split)
    have lt: "terminated (lit '':'')" "cstr (lit '':'') = [58]" "terminated (lit ''\<newline>'')" "cstr (lit ''\<newline>'') = [10]"
      by (simp_all add: lit_def terminated_def cstr_def)
    obtain s1 where s1: "ece391_fdputs c 1 fname (s, log) = Ret (s1, log @ [(1, cstr fname)])" "ok s1" "rest s1 = rest s"
      using puts_keeps[OF assms(1,8)] by blast
    obtain s2 where s2: "ece391_fdputs c 1 (lit '':'') (s1, log @ [(1, cstr fname)]) = Ret (s2, (log @ [(1, cstr fname)]) @ [(1, [58])])" "ok s2" "rest s2 = rest s"
      using puts_keeps[OF s1(2) lt(1)] s1(3) lt(2) by metis
    obtain s3 where s3: "ece391_fdputs c 1 (drop ls d) (s2, log @ [(1, cstr fname), (1, [58])]) = Ret (s3, (log @ [(1, cstr fname), (1, [58])]) @ [(1, l)])" "ok s3" "rest s3 = rest s"
      using puts_keeps[OF s2(2) t(1)] s2(3) t(2) by metis
    obtain s4 where s4: "ece391_fdputs c 1 (lit ''\<newline>'') (s3, log @ [(1, cstr fname), (1, [58]), (1, l)]) =
        Ret (s4, (log @ [(1, cstr fname), (1, [58]), (1, l)]) @ [(1, [10])])" "ok s4" "rest s4 = rest s"
      using puts_keeps[OF s3(2) lt(3)] s3(3) lt(4) by metis
    have "\<exists>k\<in>{j..<length l}. take (length w) (drop k l) = w" using True j by auto
    then show ?thesis unfolding up search_line.simps m using True s1 s2 s3 s4 by simp
  next
    case False
    have "{j..<length l} = insert j {Suc j..<length l}" using j by auto
    then have "(\<exists>k\<in>{j..<length l}. take (length w) (drop k l) = w) \<longleftrightarrow> (\<exists>k\<in>{Suc j..<length l}. take (length w) (drop k l) = w)"
      using False by auto
    with Suc.hyps(1)[of "Suc j"] Suc.hyps(2) j show ?thesis unfolding up search_line.simps m using False by simp
  qed
qed

lemma search_whole_line:
  assumes "ok s" "drop ls d = l @ 0 # post" "0 \<notin> set l" "str = w @ q" "w \<noteq> []" "0 \<notin> set w" "hd w < 128" "terminated fname"
  shows "\<exists>s'. search_line c str (length w) fname d ls [ls..<ls + length l] (s, log) = Ret (s', log @ hits w (cstr fname) [l]) \<and> ok s' \<and> rest s' = rest s"
proof -
  have "hits w (cstr fname) [l] =
      (if \<exists>k\<in>{0..<length l}. take (length w) (drop k l) = w then [(1, cstr fname), (1, [58]), (1, l), (1, [10])] else [])"
    by (auto simp: hits_def occurs_def)
  with search_line_run[OF assms, of 0 log] show ?thesis by simp
qed

end

text \<open>
  Searching the buffer: the text \<open>r\<close> is still to be searched, \<open>carry\<close> says that its last line is kept for
  the next round, and the byte after the data is what the buffer had there.
\<close>

definition carries :: "u8 list \<Rightarrow> int \<Rightarrow> bool \<Rightarrow> u8 list \<Rightarrow> bool" where
  "carries post cnt begun p \<longleftrightarrow> hd post \<noteq> 10 \<and> cnt \<noteq> 0 \<and> begun \<and> p \<noteq> []"

context text_out
begin

lemma grep_lines_last:
  assumes "ok s" "post \<noteq> []" "0 \<notin> set r" "10 \<notin> set r" "r \<noteq> [] \<or> pre = []" "carry = carries post cnt (pre \<noteq> []) r"
    and w: "str = w @ q" "w \<noteq> []" "0 \<notin> set w" "hd w < 128" "terminated fname"
  shows "\<exists>s' data1. grep_lines c str (length w) fname cnt (length pre + length r) (length pre) (pre @ r @ post) (s, log) =
      Ret (if carry then length r else 0, data1, s', log @ hits w (cstr fname) (if carry then [] else [r])) \<and>
    ok s' \<and> rest s' = rest s \<and> length data1 = length (pre @ r @ post) \<and> (carry \<longrightarrow> take (length r) data1 = r) \<and> last data1 \<in> {0, last post}"
proof -
  let ?lim = "length pre + length r"
  let ?d = "pre @ r @ 0 # tl post"
  have e: "line_end (pre @ r @ post) ?lim (length pre) = ?lim"
    using line_end_skip[of r pre ?lim post] assms(4) by (simp add: line_end.simps)
  have nth: "(pre @ r @ post) ! ?lim = hd post" using assms(2) by (simp add: nth_append hd_conv_nth)
  have upd: "(pre @ r @ post)[?lim := 0] = ?d" using assms(2) by (cases post) (auto simp: list_update_append)
  have dd: "drop (length pre) ?d = r @ 0 # tl post" by simp
  have len: "length ?d = length (pre @ r @ post)" "?lim < length (pre @ r @ post)" using assms(2) by (cases post; simp)+
  have cond: "(hd post \<noteq> 10 \<and> cnt \<noteq> 0 \<and> length pre \<noteq> 0) = carry" using assms(5,6) by (auto simp: carries_def)
  have lst: "last ?d \<in> {0, last post}" using assms(2) by (cases post) auto
  show ?thesis
  proof (cases carry)
    case True
    obtain d1 where d1: "ece391_strcpy 0 (length pre) ?d = Ret d1" "length d1 = length ?d" "take (length r) d1 = r" "last d1 \<in> {0, last ?d}"
      using strcpy_to_start[OF dd assms(3)] by blast
    then have "last d1 \<in> {0, last post}" using lst by auto
    then show ?thesis using True cond e nth upd len assms(1) d1(1-3) by (subst grep_lines.simps) (simp add: Let_def)
  next
    case False
    obtain s' where s': "search_line c str (length w) fname ?d (length pre) [length pre..<?lim] (s, log) = Ret (s', log @ hits w (cstr fname) [r])"
        "ok s'" "rest s' = rest s"
      using search_whole_line[OF assms(1) dd assms(3) w] by blast
    then show ?thesis using False cond e nth upd len lst by (subst grep_lines.simps) (auto simp: Let_def)
  qed
qed

lemma grep_lines_run:
  assumes "ok s" "post \<noteq> []" "0 \<notin> set r" "text_lines r = ls @ [p]" "r \<noteq> [] \<or> pre = []" "carry = carries post cnt (pre \<noteq> [] \<or> ls \<noteq> []) p"
    and w: "str = w @ q" "w \<noteq> []" "0 \<notin> set w" "hd w < 128" "terminated fname"
  shows "\<exists>s' data1. grep_lines c str (length w) fname cnt (length pre + length r) (length pre) (pre @ r @ post) (s, log) =
      Ret (if carry then length p else 0, data1, s', log @ hits w (cstr fname) (if carry then ls else ls @ [p])) \<and>
    ok s' \<and> rest s' = rest s \<and> length data1 = length (pre @ r @ post) \<and> (carry \<longrightarrow> take (length p) data1 = p) \<and> last data1 \<in> {0, last post}"
  using assms(1,3-6)
proof (induction "length r" arbitrary: r pre ls s log rule: less_induct)
  case less
  show ?case
  proof (cases "10 \<in> set r")
    case False
    then have "ls = []" "p = r" using less.prems(3) by (simp_all add: split_on_one)
    then show ?thesis using grep_lines_last[OF less.prems(1) assms(2) less.prems(2) False less.prems(4) _ w, of carry cnt log] less.prems(5)
      by (cases carry) simp_all
  next
    case True
    then obtain l r2 where r: "r = l @ 10 # r2" "10 \<notin> set l" by (meson split_list_first)
    obtain ls2 p2 where l2: "text_lines r2 = ls2 @ [p2]" by (metis split_on_nonempty append_butlast_last_id)
    have ls: "ls = l # ls2" "p = p2" using less.prems(3) l2 r by (auto simp: split_on_append split_on_one)
    let ?lim = "length pre + length r"
    let ?e = "length pre + length l"
    let ?d = "(pre @ l @ [0]) @ r2 @ post"
    have e: "line_end (pre @ r @ post) ?lim (length pre) = ?e"
      using line_end_skip[of l pre ?lim "10 # r2 @ post"] r by (simp add: line_end.simps nth_append)
    have nth: "(pre @ r @ post) ! ?e = 10" using r by (simp add: nth_append)
    have upd: "(pre @ r @ post)[?e := 0] = ?d" using r by (simp add: list_update_append)
    have "drop (length pre) ?d = l @ 0 # (r2 @ post)" by simp
    then obtain s1 where s1: "search_line c str (length w) fname ?d (length pre) [length pre..<?e] (s, log) = Ret (s1, log @ hits w (cstr fname) [l])"
        "ok s1" "rest s1 = rest s"
      using search_whole_line[OF less.prems(1) _ _ w, of "length pre" ?d l "r2 @ post" log] less.prems(2) r by auto
    have step: "grep_lines c str (length w) fname cnt ?lim (length pre) (pre @ r @ post) (s, log) =
        (if r2 = [] then Ret (0, ?d, s1, log @ hits w (cstr fname) [l])
         else grep_lines c str (length w) fname cnt ?lim (Suc ?e) ?d (s1, log @ hits w (cstr fname) [l]))"
      using e nth upd s1(1) r by (subst grep_lines.simps) (auto simp: Let_def)
    show ?thesis
    proof (cases "r2 = []")
      case True
      then have "ls2 = []" "p2 = []" using l2 by simp_all
      then show ?thesis using step s1 True ls less.prems(5) assms(2) r by (auto simp: carries_def hits_one[symmetric, of _ _ l "[[]]"])
    next
      case r2: False
      have c2: "carry = carries post cnt (pre @ l @ [0] \<noteq> [] \<or> ls2 \<noteq> []) p" using less.prems(5) ls by simp
      have l2': "text_lines r2 = ls2 @ [p]" using l2 ls(2) by simp
      have len: "Suc ?e + length r2 = ?lim" "length (pre @ l @ [0]) = Suc ?e" "length ?d = length (pre @ r @ post)"
        "length r2 < length r" "0 \<notin> set r2" using less.prems(2) r by simp_all
      have h: "hits w (cstr fname) [l] @ hits w (cstr fname) (if carry then ls2 else ls2 @ [p]) = hits w (cstr fname) (if carry then ls else ls @ [p])"
        unfolding ls hits_one by (cases carry) simp_all
      obtain s' d1 where "grep_lines c str (length w) fname cnt ?lim (Suc ?e) ?d (s1, log @ hits w (cstr fname) [l]) =
          Ret (if carry then length p else 0, d1, s', (log @ hits w (cstr fname) [l]) @ hits w (cstr fname) (if carry then ls2 else ls2 @ [p]))"
          "ok s'" "rest s' = rest s1" "length d1 = length ?d" "carry \<longrightarrow> take (length p) d1 = p" "last d1 \<in> {0, last post}"
        using less.hyps[OF len(4) s1(2) len(5) l2' disjI1[OF r2] c2, of "log @ hits w (cstr fname) [l]"] unfolding len(2) len(1) by blast
      then show ?thesis using r2 s1(3) len(3) unfolding step append_assoc h by auto
    qed
  qed
qed

lemma grep_loop_step:
  assumes "ece391_read c des (drop lim data) (1024 - int lim) u = Ret (int (length x), b, u1)"
    "grep_lines c s s_len fname (int (length x)) (lim + length x) 0 (take lim data @ b) u1 = Ret (lim1, data1, u2)"
  shows "grep_loop (Suc fuel) c s s_len fname des lim data u =
    (if x = [] then Ret (Some (True, u2)) else grep_loop fuel c s s_len fname des lim1 data1 u2)"
  using assms by simp

lemma grep_loop_run:
  assumes w: "str = w @ q" "w \<noteq> []" "0 \<notin> set w" "hd w < 128" "terminated fname"
  shows "ok s \<Longrightarrow> length data = 1025 \<Longrightarrow> take (length k) data = k \<Longrightarrow> last data \<noteq> 10 \<Longrightarrow> 0 \<notin> set (k @ rest s) \<Longrightarrow> 10 \<notin> set k \<Longrightarrow>
    (\<forall>l\<in>set (text_lines (k @ rest s)). length l < 1024) \<Longrightarrow> length (rest s) < fuel \<Longrightarrow>
    \<exists>s'. grep_loop fuel c str (length w) fname des (length k) data (s, log) =
      Ret (Some (True, s', log @ hits w (cstr fname) (text_lines (k @ rest s)))) \<and> ok s'"
proof (induction fuel arbitrary: s data k log)
  case (Suc fuel)
  define n where "n = 1024 - length k"
  define x where "x = take n (rest s)"
  define post where "post = drop (length k + length x) data"
  let ?r = "k @ x"
  have k: "length k < 1024" using text_lines_first[OF Suc.prems(6), of "rest s"] Suc.prems(7) by fastforce
  obtain s1 where s1: "sys_read c des (drop (length k) data) (int n) s = Ret (int (length x), x @ drop (length x) (drop (length k) data), s1)"
      "ok s1" "rest s1 = drop n (rest s)"
    using read_some[OF Suc.prems(1), of n "drop (length k) data" x] k Suc.prems(2) unfolding n_def x_def by force
  have x: "length x \<le> n" "length k + n = 1024" using k by (simp_all add: x_def n_def)
  then have post: "post \<noteq> []" "last post = last data" "length ?r + length post = 1025"
    using Suc.prems(2) by (simp_all add: post_def last_drop)
  obtain ls p where lp: "text_lines ?r = ls @ [p]" by (metis split_on_nonempty append_butlast_last_id)
  then have all: "text_lines (k @ rest s) = ls @ text_lines (p @ rest s1)"
    using text_lines_split[of ?r ls p "rest s1"] s1(3) by (simp add: x_def)
  have "p \<in> set (text_lines ?r)" using lp by simp
  then have p: "10 \<notin> set p" "set p \<subseteq> set ?r" using split_on_chars[of p 10 ?r] by auto
  have nul: "0 \<notin> set ?r" using Suc.prems(5) by (auto simp: x_def dest: in_set_takeD)
  define carry where "carry = carries post (int (length x)) ([] \<noteq> ([] :: u8 list) \<or> ls \<noteq> []) p"
  obtain s2 d1 where g: "grep_lines c str (length w) fname (int (length x)) (length ?r) 0 (?r @ post) (s1, log) =
        Ret (if carry then length p else 0, d1, s2, log @ hits w (cstr fname) (if carry then ls else ls @ [p]))"
      "ok s2" "rest s2 = rest s1" "length d1 = 1025" "carry \<longrightarrow> take (length p) d1 = p" "last d1 \<in> {0, last data}"
    using grep_lines_run[OF s1(2) post(1) nul lp _ carry_def w, of log] post(2,3) by auto
  have buf: "take (length k) data @ x @ drop (length x) (drop (length k) data) = ?r @ post"
    using Suc.prems(3) by (simp add: post_def add.commute)
  have int_n: "1024 - int (length k) = int n" using x(2) by linarith
  have rd: "ece391_read c des (drop (length k) data) (1024 - int (length k)) (s, log) =
      Ret (int (length x), x @ drop (length x) (drop (length k) data), s1, log)"
    using s1(1) int_n by (simp add: ece391_read_def)
  have step: "grep_loop (Suc fuel) c str (length w) fname des (length k) data (s, log) =
      (if x = [] then Ret (Some (True, s2, log @ hits w (cstr fname) (if carry then ls else ls @ [p])))
       else grep_loop fuel c str (length w) fname des (if carry then length p else 0) d1 (s2, log @ hits w (cstr fname) (if carry then ls else ls @ [p])))"
    by (rule grep_loop_step[OF rd]) (simp only: buf g(1) flip: length_append)
  have d1: "last d1 \<noteq> 10" using g(6) Suc.prems(4) by auto
  show ?case
  proof (cases "x = []")
    case True
    then have "rest s = []" using x k by (simp add: x_def n_def)
    then show ?thesis using True step g(2) all lp Suc.prems(6) by (auto simp: carry_def carries_def s1(3) split_on_one)
  next
    case False
    then have fuel: "length (rest s1) < fuel" using Suc.prems(8) s1(3) by (cases "rest s") (auto simp: x_def)
    have sub: "set (rest s1) \<subseteq> set (rest s)" unfolding s1(3) by (rule set_drop_subset)
    show ?thesis
    proof (cases carry)
      case True
      have "\<exists>s'. grep_loop fuel c str (length w) fname des (length p) d1 (s2, log @ hits w (cstr fname) ls) =
          Ret (Some (True, s', (log @ hits w (cstr fname) ls) @ hits w (cstr fname) (text_lines (p @ rest s2)))) \<and> ok s'"
        using Suc.prems(5,7) True g(3,5) p sub nul fuel all by (intro Suc.IH[OF g(2,4) _ d1]) auto
      with True False step all g(3) show ?thesis by simp
    next
      case no: False
      have rest0: "p = [] \<or> rest s1 = []"
      proof (rule ccontr)
        assume "\<not> (p = [] \<or> rest s1 = [])"
        then have "length x = n" "p \<noteq> []" using s1(3) by (auto simp: x_def)
        then have "hd post = last data" using x(2) post(1,2) Suc.prems(2) post(3) by (cases post) auto
        then have "ls = []" using no \<open>p \<noteq> []\<close> False Suc.prems(4) by (auto simp: carry_def carries_def)
        then have "?r = p" using lp text_lines_single by simp
        moreover have "\<exists>l ls. text_lines (k @ rest s) = (p @ l) # ls" using text_lines_first[OF p(1)] all \<open>ls = []\<close> by simp
        ultimately show False using Suc.prems(7) x(2) \<open>length x = n\<close> by fastforce
      qed
      have "\<exists>s'. grep_loop fuel c str (length w) fname des (length ([] :: u8 list)) d1 (s2, log @ hits w (cstr fname) (ls @ [p])) =
          Ret (Some (True, s', (log @ hits w (cstr fname) (ls @ [p])) @ hits w (cstr fname) (text_lines ([] @ rest s2)))) \<and> ok s'"
        using Suc.prems(5,7) g(3) sub fuel all rest0 by (intro Suc.IH[OF g(2,4) _ d1]) auto
      with no False step all g(3) rest0 p(1) show ?thesis by (auto simp: split_on_one)
    qed
  qed
qed simp

end

section \<open>Files of the kernel\<close>

interpretation file_text: text_out "kernel_calls env child" "cat_at p i inode" "int i" "file_rest p i inode" for env :: "'a env" and child p i inode
proof unfold_locales
  fix s :: "'a kernel_scheme" and n and b x :: "u8 list"
  assume "cat_at p i inode s" "0 < n" "n \<le> 1024" "n \<le> length b" "x = take n (file_rest p i inode s)"
  then show "\<exists>s'. sys_read (kernel_calls env child) (int i) b (int n) s = Ret (int (length x), x @ drop (length x) b, s') \<and>
      cat_at p i inode s' \<and> file_rest p i inode s' = drop n (file_rest p i inode s)"
    using cat_at_read_some[of p i inode s n b x env] by (auto simp: kernel_calls_def bytes_of_def)
next
  fix s s' :: "'a kernel_scheme" and b k r
  assume "cat_at p i inode s" "terminated b" "sys_write (kernel_calls env child) 1 b k s = Ret (r, s')"
  then show "file_rest p i inode s' = file_rest p i inode s"
    using cat_at_write[of p i inode s b env k] by (auto simp: kernel_calls_def)
qed

lemma cat_at_close: "cat_at p i inode s \<Longrightarrow> \<exists>s'. close_call (int i) s = Ret (0, s')"
  by (auto simp: close_call_def cat_at_def in_file_def fd_of_def)

section \<open>Properties\<close>

text \<open>
  C15: \<open>grep\<close> prints the lines of a file that contain the search string, and only those: \<open>do_one_file\<close> reads the whole file,
  returns 0, and has written the name, a colon, the line and a newline for every line with an occurrence of the string, in the order of the
  file, wherever the line lies with respect to the pieces the file is read in. The lines have to be shorter than the buffer and without NULs.
  The byte behind the buffer, which is never set, must not be a newline, and the string has to begin with an ASCII character.
\<close>

theorem grep_prints_matches:
  assumes "tty_open s" "writable s" "running s p" "pcb_ok (pcbs s p)" "fds_pick (fd (pcbs s p)) = Some i"
    and "terminated fname" "cstr fname \<noteq> []" "length (cstr fname) < 32"
    and "read_dentry_by_name fname s = Ret (Some d)" "fileType d = 2" "valid_inode s (inodeNum d)" "file_apart s (inodeNum d)"
    and "terminated str" "w = cstr str" "w \<noteq> []" "hd w < 128"
    and "t = file_bytes s (inodeNum d)" "0 \<notin> set t" "\<forall>l\<in>set (text_lines t). length l < 1024"
    and "length data = 1025" "data ! 1024 \<noteq> 10" "length t < fuel"
  shows "\<exists>s'. do_one_file fuel (kernel_calls env child) data str fname (s, log) =
    Ret (Some (0, s', log @ hits w (cstr fname) (text_lines t)))"
proof -
  let ?c = "kernel_calls env child"
  obtain s1 where s1: "open_call env fname s = Ret (int i, s1)" "cat_at p i (inodeNum d) s1" "file_rest p i (inodeNum d) s1 = t"
    using open_to_read[OF assms(1-12), of env] unfolding assms(17) by blast
  have w: "str = w @ dropWhile (\<lambda>x. x \<noteq> 0) str" "0 \<notin> set w" using assms(14) cstr_no_NUL by (simp_all add: cstr_def)
  have last: "last data \<noteq> 10" using assms(20,21) by (subst last_conv_nth) auto
  obtain s2 where s2: "grep_loop fuel ?c str (length w) fname (int i) 0 data (s1, log) = Ret (Some (True, s2, log @ hits w (cstr fname) (text_lines t)))"
      "cat_at p i (inodeNum d) s2"
    using file_text.grep_loop_run[OF w(1) assms(15) w(2) assms(16,6) s1(2) assms(20), of "[]" fuel env child log] last assms(18,19,22) s1(3) by auto
  obtain s3 where "close_call (int i) s2 = Ret (0, s3)" using cat_at_close[OF s2(2)] by blast
  then show ?thesis
    using s1(1) s2(1) assms(13,14)
    by (simp add: do_one_file_def ece391_strlen_eq ece391_open_def ece391_close_def kernel_calls_def)
qed

text \<open>The demonstration kernel with a text of two lines, \<open>ab\<close> and \<open>c\<close>, in its file \<open>f\<close>.\<close>

definition text_image :: memory where
  "text_image = (\<lambda>_. 0)(0 := 1, 4 := 1, 64 := 102, 96 := 2, 4096 := 4, 8192 := 97, 8193 := 98, 8194 := 10, 8195 := 99)"

definition demo_text :: kernel where
  "demo_text = demo_kernel\<lparr>mem := text_image\<rparr>"

lemma demo_text_simps:
  "mem demo_text = text_image" "bootHead demo_text = 0" "pcbs demo_text = pcbs demo_kernel"
  by (simp_all add: demo_text_def demo_extend)

lemma demo_text_file:
  "read_dentry_by_name [102, 0] demo_text = Ret (Some (entry demo_text 0))" "fileType (entry demo_text 0) = 2" "inodeNum (entry demo_text 0) = 0"
  "valid_inode demo_text 0" "file_bytes demo_text 0 = [97, 98, 10, 99]" "file_apart demo_text 0"
proof -
  have b: "mem_bytes text_image 64 32 = 102 # replicate 31 0" "le32 text_image 96 = 2" "le32 text_image 100 = 0" "le32 text_image 4 = 1"
      "le32 text_image 4096 = 4" "le32 text_image 4100 = 0"
    by (simp_all add: mem_bytes_def le32_def text_image_def upt_conv_Cons) (simp_all add: eval_nat_numeral)
  define rest where "rest = map (entry demo_text) [1..<63]"
  have "[0..<63] = 0 # [1..<63]" by (simp add: upt_rec)
  then have es: "map (entry demo_text) [0..<63] = entry demo_text 0 # rest" unfolding rest_def by (simp only: list.map)
  have "cstr (fileName (entry demo_text 0)) = [102]" using b(1) by (simp add: entry_def demo_text_simps cstr_def)
  then show "read_dentry_by_name [102, 0] demo_text = Ret (Some (entry demo_text 0))"
    using read_dentry_by_name_find[of "[102, 0]" demo_text] es by (simp add: same_prefix_def terminated_def cstr_def)
  show "fileType (entry demo_text 0) = 2" "inodeNum (entry demo_text 0) = 0" using b by (simp_all add: entry_def demo_text_simps)
  have ni: "numInode demo_text = 1" and sz: "file_size demo_text 0 = 4"
    using b by (simp_all add: numInode_def file_size_def inode_length_def get_inodeptr_def demo_text_simps)
  then show "valid_inode demo_text 0" by (simp add: valid_inode_def)
  have blk: "data_block demo_text 0 0 = 8192" using b ni by (simp add: data_block_def block_ptr_def get_inodeptr_def demo_text_simps)
  then have "map (file_byte demo_text 0) [0..<4] = [97, 98, 10, 99]"
    by (simp add: upt_rec file_byte_def demo_text_simps text_image_def)
  then show "file_bytes demo_text 0 = [97, 98, 10, 99]" using sz by (simp add: file_bytes_def)
  have "data_block demo_text 0 k = 8192" if "4096 * k < 4" for k using that blk by (cases k) simp_all
  then show "file_apart demo_text 0"
    using low_block[of _ 0] low_block[of _ 4096] low_block[of _ 8192] sz
    by (auto simp: file_apart_def dir_apart_def boot_bytes_def inode_bytes_def get_inodeptr_def demo_text_simps)
qed

lemma demo_text_tty: "tty_open demo_text" "writable demo_text" "running demo_text 1"
  using demo_tty_open demo_running by (simp_all add: tty_open_def demo_text_def term_wf_def find_terminal_def running_def writable_def demo_extend)

theorem grep_prints_matches_witness:
  "\<exists>s'. do_one_file 5 (kernel_calls demo_env (\<lambda>_ _. Undef)) (replicate 1025 7) [98, 0] [102, 0] (demo_text, []) =
     Ret (Some (0, s', [(1, [102]), (1, [58]), (1, [97, 98]), (1, [10])]))"
proof -
  have c: "cstr [98, 0] = [98 :: u8]" "cstr [102, 0] = [102 :: u8]" "terminated [98, 0]" "terminated [102, 0]" by (simp_all add: cstr_def terminated_def)
  have p: "pcb_ok (pcbs demo_text 1)" "fds_pick (fd (pcbs demo_text 1)) = Some 3"
    using demo_pcb_ok by (simp_all add: demo_text_simps fds_pick_def demo_pcb_def demo_fd_def upt_rec first_free.simps)
  have h: "hits [98] [102] (text_lines [97, 98, 10, 99]) = [(1, [102]), (1, [58]), (1, [97, 98]), (1, [10])]"
    by (simp add: hits_def occurs_upt upt_rec)
  define data :: "u8 list" where "data = replicate 1025 7"
  have d: "length data = 1025" "data ! 1024 \<noteq> 10" by (simp_all add: data_def)
  show ?thesis
    using grep_prints_matches[OF demo_text_tty p c(4) _ _ demo_text_file(1,2) _ _ c(3) _ _ _ _ _ _ d, of "[98]" "[97, 98, 10, 99]" 5 demo_env "\<lambda>_ _. Undef" "[]"]
      demo_text_file(3-6) h c by (simp add: data_def del: replicate.simps)
qed

end
