(* ===== verification/Wellformed.thy ===== *)
theory Wellformed
  imports Tasks
begin

text \<open>
  The tables of the kernel keep their shape: seven entries of \<open>openTasks\<close>, and control blocks with eight descriptors, each with
  32 bytes for a name, and 128 bytes for the argument, whatever the system calls are called with. Their contents keep an invariant as well: an open
  descriptor always has its operations, and a program that has been started and has not halted has its two standard descriptors open on the terminal.
\<close>

definition tables_typed :: "'a kernel_scheme \<Rightarrow> bool" where
  "tables_typed s \<longleftrightarrow> length (openTasks s) = 7 \<and> (\<forall>n. pcb_ok (pcbs s n))"

text \<open>What the invariant depends on, and that most calls leave it alone.\<close>

definition table_view :: "'a kernel_scheme \<Rightarrow> int list \<times> (nat \<Rightarrow> pcb)" where
  "table_view s = (openTasks s, pcbs s)"

lemma tables_typed_view: "tables_typed s \<longleftrightarrow> (case table_view s of (ts, ps) \<Rightarrow> length ts = 7 \<and> (\<forall>n. pcb_ok (ps n)))"
  by (simp add: tables_typed_def table_view_def)

lemma table_view_console:
  assumes "console_step s s'"
  shows "table_view s' = table_view s"
  using arg_cong[OF assms[unfolded console_step_def], of table_view] by (simp add: table_view_def)

interpretation table_calls: call_view table_view
  by unfold_locales (simp_all add: table_view_console, simp_all add: table_view_def)

lemma tables_typed_same: "table_view s' = table_view s \<Longrightarrow> tables_typed s \<Longrightarrow> tables_typed s'"
  by (simp add: tables_typed_view)

lemma tables_typed_fields:
  "tables_typed (s\<lparr>first_shell_entry_point := e\<rparr>) = tables_typed s" "tables_typed (s\<lparr>tss_esp0 := x\<rparr>) = tables_typed s"
  "tables_typed (s\<lparr>tss_ss0 := y\<rparr>) = tables_typed s" "tables_typed (s\<lparr>cr3 := d\<rparr>) = tables_typed s" "tables_typed (cli s) = tables_typed s"
  "tables_typed (s\<lparr>program_image := g\<rparr>) = tables_typed s" "tables_typed (s\<lparr>ops_value := v\<rparr>) = tables_typed s"
  "tables_typed (s\<lparr>curr_status := w\<rparr>) = tables_typed s" "tables_typed (s\<lparr>openTasks := (openTasks s)[n := k]\<rparr>) = tables_typed s"
  "tables_typed (update_terminal i f s) = tables_typed s" "tables_typed (requeue a b par s) = tables_typed s"
  by (simp_all add: tables_typed_def cli_def)

lemma tables_typed_pcb: "tables_typed s \<Longrightarrow> pcb_ok (f (pcbs s n)) \<Longrightarrow> tables_typed (update_pcb n f s)"
  by (simp add: tables_typed_def)

lemma tables_typed_name: "tables_typed s \<Longrightarrow> i < 8 \<Longrightarrow> length (fd_fileName (fd (pcbs s n) ! i)) = 32"
proof -
  assume "tables_typed s" "i < 8"
  then have "pcb_ok (pcbs s n)" by (simp add: tables_typed_def)
  with \<open>i < 8\<close> show ?thesis by (simp add: pcb_ok_def)
qed

lemma tables_typed_fd:
  assumes "tables_typed s" "\<And>d. length (fd_fileName d) = 32 \<Longrightarrow> length (fd_fileName (f d)) = 32"
  shows "tables_typed (update_fd n i f s)"
proof (cases "i < 8")
  case True
  have ok: "pcb_ok (pcbs s n)" using assms(1) by (simp add: tables_typed_def)
  have "length (fd_fileName (f (fd (pcbs s n) ! i))) = 32" using assms(2) tables_typed_name[OF assms(1) True] by blast
  from pcb_ok_update_fd[OF ok, of f i] this assms(1) show ?thesis by (simp add: tables_typed_def)
next
  case False
  moreover have "length (fd (pcbs s n)) = 8" using assms(1) by (simp add: tables_typed_def pcb_ok_def)
  ultimately have "(fd (pcbs s n))[i := x] = fd (pcbs s n)" for x by (simp add: list_update_beyond)
  then show ?thesis using assms(1) by (simp add: tables_typed_def)
qed

section \<open>Descriptors\<close>

lemma tables_set_ops: "tables_typed s \<Longrightarrow> tables_typed (set_ops n i ops v s)"
  by (simp add: set_ops_def Let_def tables_typed_fields tables_typed_fd)

lemma tables_setup_fd:
  assumes "setup_fd n i d name s = Ret (ops, s')" "tables_typed s" "i < 8"
  shows "tables_typed s'"
proof -
  let ?s = "update_fd n i (\<lambda>d. d\<lparr>filePosition := 0\<rparr>) s"
  have ok: "tables_typed ?s" using assms(2) by (simp add: tables_typed_fd)
  have "length (fd_fileName (fd (pcbs ?s n) ! i)) = 32" using tables_typed_name[OF ok assms(3)] .
  then have cp: "length nm = 32" if "strcpy (fd_fileName (fd (pcbs ?s n) ! i)) name = Ret nm" for nm
    using strcpy_length[OF that] by simp
  have named: "tables_typed (set_ops n i File_ops 3 (update_fd n i (\<lambda>d. d\<lparr>filePosition := 0, inode_ptr := q, fd_fileName := nm\<rparr>) ?s))"
    if "strcpy (fd_fileName (fd (pcbs ?s n) ! i)) name = Ret nm" for nm q
    using assms(2) cp[OF that] by (intro tables_set_ops tables_typed_fd) auto
  consider "fileType d = 0" | "fileType d = 1" | "fileType d = 2" | "fileType d \<notin> {0, 1, 2}" by auto
  then show ?thesis
  proof cases
    case 3
    then show ?thesis using assms(1) named by (auto simp: setup_fd_def Let_def outcome_simps simp del: update_fd_simps)
  qed (use assms(1) ok in \<open>auto simp: setup_fd_def Let_def tables_set_ops tables_typed_fd simp del: update_fd_simps\<close>)
qed

lemma tables_open_call:
  assumes "open_call env name s = Ret (r, s')" "tables_typed s"
  shows "tables_typed s'"
proof -
  have "tables_typed s'" if at: "open_at env n i d name s = Ret (r, s')" "i < 8" for n i d
  proof -
    obtain ops s1 where su: "setup_fd n i d name (update_fd n i (\<lambda>d. d\<lparr>flags := 1\<rparr>) s) = Ret (ops, s1)"
      and rest: "(case ops of None \<Rightarrow> Ret (-1, s1)
        | Some ops \<Rightarrow> obind (open_driver env ops name s1) (\<lambda>(v, s2). Ret (if v = 0 then int i else -1, s2))) = Ret (r, s')"
      using at(1) by (auto simp: open_at_def outcome_simps)
    have "tables_typed s1" using tables_setup_fd[OF su _ at(2)] assms(2) by (simp add: tables_typed_fd)
    moreover have "table_view s' = table_view s1"
      using rest by (auto simp: outcome_simps split: option.splits dest: table_calls.view_open_driver)
    ultimately show ?thesis using tables_typed_same by blast
  qed
  moreover have "i < 8" if "first_free (\<lambda>d. flags d = 0) ds [2..<8] = Some i" for i and ds :: "file_descriptor list"
    using first_free_Some[OF that] by auto
  ultimately show ?thesis using assms
    by (auto simp: open_call_def outcome_simps simp del: upt.simps first_free.simps split: if_splits option.splits)
qed

lemma tables_close_call: "close_call i s = Ret (r, s') \<Longrightarrow> tables_typed s \<Longrightarrow> tables_typed s'"
  by (auto simp: close_call_def outcome_simps tables_typed_fd split: if_splits)

lemma tables_close_all: "close_all is s = Ret s' \<Longrightarrow> tables_typed s \<Longrightarrow> tables_typed s'"
  by (induction "is" arbitrary: s) (auto simp: outcome_simps dest: tables_close_call)

lemma tables_read_call:
  assumes "read_call env i buf nbytes s = Ret (Some (r, b, s'))" "tables_typed s"
    and irqs: "\<forall>irq\<in>set (env_irqs env). \<forall>s s'. irq s = Ret s' \<longrightarrow> table_view s' = table_view s"
  shows "tables_typed s'"
proof -
  have "tables_typed s'" if "read_driver env ops (nat i) buf nbytes s = Ret (Some (r, b, s'))" for ops
  proof (cases "ops = File_ops")
    case True
    with that assms(2) show ?thesis
      by (auto simp: read_driver_def read_file_def outcome_simps tables_typed_fd split: if_splits option.splits)
  next
    case False
    from tables_typed_same[OF table_calls.view_read_driver[OF irqs False that] assms(2)] show ?thesis .
  qed
  with assms(1,2) show ?thesis by (auto simp: read_call_def outcome_simps split: if_splits option.splits)
qed

section \<open>Starting and ending programs\<close>

lemma init_pcb_ok:
  assumes "init_pcb a p = Ret p'" "pcb_ok p"
  shows "pcb_ok p'"
proof -
  let ?std = "\<lambda>d. d\<lparr>flags := 1, sysops_ptr := Some Terminal_ops\<rparr>"
  let ?ds = "(fd p)[0 := ?std (fd p ! 0), 1 := ?std (fd p ! 1)]"
  let ?r = "fold (\<lambda>i ds. ds[i := (ds ! i)\<lparr>flags := 0\<rparr>]) [2..<7] ?ds"
  have len: "length (fd p) = 8" "length (argument p) = 128" using assms(2) by (simp_all add: pcb_ok_def)
  obtain b where b: "strcpy (argument p) a = Ret b" "p' = p\<lparr>fd := ?r, argument := b\<rparr>"
    using assms(1) by (auto simp: init_pcb_def Let_def outcome_simps simp del: upt.simps)
  note cl = clear_flags[of ?ds]
  have "length (fd_fileName (?r ! j)) = 32" if "j < 8" for j
    using that cl(2)[of j] len assms(2) by (auto simp: pcb_ok_def nth_list_update)
  then show ?thesis using strcpy_length[OF b(1)] b(2) cl(1) len by (auto simp: pcb_ok_def in_set_conv_nth)
qed

lemma tables_page_loader: "page_loader f pid s = Ret (v, s') \<Longrightarrow> tables_typed s \<Longrightarrow> tables_typed s'"
  by (auto simp: page_loader_def set_programpage_def Let_def outcome_simps tables_typed_fields split: if_splits option.splits)

lemma tables_take_slot: "tables_typed s \<Longrightarrow> tables_typed (take_slot new cur s)"
  by (simp add: take_slot_def claim_task_def Let_def tables_typed_fields) (simp add: tables_typed_def)

lemma tables_save_registers: "tables_typed s \<Longrightarrow> tables_typed (save_registers env cur s)"
  by (simp add: save_registers_def tables_typed_def pcb_ok_def)

lemma tables_start_program:
  assumes "start_program env f a e s = Ret (t, s')" "tables_typed s"
  shows "tables_typed s'"
proof -
  obtain cur where cur: "find_programid s = Ret cur" using assms(1) by (auto simp: start_program_def outcome_simps)
  define s1 where "s1 = (if cur = 0 then s\<lparr>first_shell_entry_point := e\<rparr> else s)"
  obtain new where new: "first_free (\<lambda>p. p = -1) (openTasks s1) [1..<7] = Some new"
    using assms(1) cur by (auto simp: start_program_def s1_def[symmetric] split: option.splits)
  let ?s4 = "take_slot new cur s1"
  have ok4: "tables_typed ?s4" using assms(2) by (simp add: s1_def tables_take_slot tables_typed_fields)
  obtain p v s7 where p: "init_pcb a (pcbs ?s4 new) = Ret p"
    and ld: "page_loader f (int new) (save_registers env cur (update_pcb new (\<lambda>_. p) ?s4)) = Ret (v, s7)"
    and s': "s' = cli ((update_pcb new (\<lambda>p. p\<lparr>pcb_cr3 := cr3 s7, prev_pcb := cur, parent_pid := cur\<rparr>) s7)
        \<lparr>tss_esp0 := kernel_stack (of_nat new), tss_ss0 := KERNEL_DS\<rparr>)"
    using assms(1) cur new by (auto simp: start_program_def s1_def[symmetric] Let_def outcome_simps)
  have "pcb_ok (pcbs ?s4 new)" using ok4 unfolding tables_typed_def by blast
  then have "tables_typed (update_pcb new (\<lambda>_. p) ?s4)" using tables_typed_pcb[OF ok4, of "\<lambda>_. p" new] init_pcb_ok[OF p] by blast
  then have "tables_typed s7" using tables_page_loader[OF ld] tables_save_registers by blast
  moreover from this have "pcb_ok ((pcbs s7 new)\<lparr>pcb_cr3 := cr3 s7, prev_pcb := cur, parent_pid := cur\<rparr>)"
    by (simp add: tables_typed_def pcb_ok_def)
  ultimately show ?thesis unfolding s' by (simp add: tables_typed_fields tables_typed_pcb)
qed

lemma tables_execute:
  assumes "execute env cmd s = Ret (t, s')" "tables_typed s"
  shows "tables_typed s'"
proof -
  obtain c r where c: "cmd = Some c" "parse_command c = Ret r"
    using assms(1) by (auto simp: execute_def outcome_simps split: option.splits)
  show ?thesis
  proof (cases r)
    case None
    with assms(1) c invalid_command_step[of s] have "table_view s' = table_view s"
      by (auto simp: execute_def outcome_simps dest: table_view_console)
    from tables_typed_same[OF this assms(2)] show ?thesis .
  next
    case (Some fa)
    obtain f a where fa: "r = Some (f, a)" using Some by (cases fa) simp
    then have "s' = s \<or> (\<exists>e. start_program env f a e s = Ret (t, s'))"
      using assms(1) c by (auto simp: execute_def outcome_simps Let_def split: if_splits)
    then show ?thesis using tables_start_program assms(2) by blast
  qed
qed

lemma tables_halt:
  assumes "halt st s = Ret (t, s')" "tables_typed s"
  shows "tables_typed s'"
proof -
  obtain cur parent where cp: "find_programid s = Ret cur" "buf_get (openTasks s) (nat cur) = Ret parent"
    using assms(1) by (auto simp: halt_def outcome_simps)
  define s2 where "s2 = requeue cur parent parent (s\<lparr>curr_status := ucast st\<rparr>)"
  have ok2: "tables_typed s2" using assms(2) by (simp add: s2_def tables_typed_fields)
  show ?thesis
  proof (cases "parent = 0")
    case True
    have "s' = cli s2" using assms(1) cp True by (auto simp: halt_def s2_def Let_def)
    with ok2 show ?thesis by (simp add: tables_typed_fields)
  next
    case False
    let ?s3 = "update_terminal (old_terminal s2) (\<lambda>t. t\<lparr>program_id := word_of_int parent\<rparr>) s2"
    obtain s4 s6 where s4: "set_programpage parent ?s3 = Ret s4"
      and s6: "close_all [2, 3, 4, 5, 6, 7] (s4\<lparr>openTasks := (openTasks s4)[nat cur := -1]\<rparr>) = Ret s6"
      and s': "s' = s6\<lparr>tss_esp0 := kernel_stack (word_of_int parent)\<rparr>"
      using assms(1) cp False by (auto simp: halt_def s2_def[symmetric] Let_def outcome_simps simp del: close_all.simps)
    have "tables_typed s4" using s4 ok2 by (auto simp: set_programpage_def tables_typed_fields split: if_splits)
    then show ?thesis using tables_close_all[OF s6] s' by (simp add: tables_typed_fields)
  qed
qed

section \<open>Open descriptors\<close>

text \<open>
  An open descriptor has its operations, and that of a file a name with an end; a program that has been started and has not halted has
  descriptors 0 and 1 open on the terminal.
\<close>

definition desc_ok :: "file_descriptor \<Rightarrow> bool" where
  "desc_ok d \<longleftrightarrow> flags d = 0 \<or> flags d = 1 \<and> sysops_ptr d \<noteq> None \<and> (sysops_ptr d = Some File_ops \<longrightarrow> terminated (fd_fileName d))"

definition std_open :: "file_descriptor list \<Rightarrow> bool" where
  "std_open ds \<longleftrightarrow> (\<forall>i<2. flags (ds ! i) = 1 \<and> sysops_ptr (ds ! i) = Some Terminal_ops)"

definition fds_ok :: "'a kernel_scheme \<Rightarrow> bool" where
  "fds_ok s \<longleftrightarrow> (\<forall>n. \<forall>d\<in>set (fd (pcbs s n)). desc_ok d) \<and> (\<forall>n\<in>used_slots (openTasks s). std_open (fd (pcbs s n)))"

text \<open>The directory has entries of the three known types only.\<close>

definition types_known :: "'a fs_scheme \<Rightarrow> bool" where
  "types_known s \<longleftrightarrow> (\<forall>i<63. fileType (entry s i) \<in> {0, 1, 2})"

lemma find_dentry_entry: "find_dentry s t is = Ret (Some d) \<Longrightarrow> \<exists>i<63. d = entry s i"
  by (induction s t "is" rule: find_dentry.induct) (auto simp: outcome_simps dir_Entries_entry split: if_splits)

lemma types_known_found: "types_known s \<Longrightarrow> read_dentry_by_name name s = Ret (Some d) \<Longrightarrow> fileType d \<in> {0, 1, 2}"
  by (auto simp: types_known_def read_dentry_by_name_def outcome_simps simp del: upt.simps dest!: find_dentry_entry)

lemma fds_ok_same: "openTasks s' = openTasks s \<Longrightarrow> (\<And>n. fd (pcbs s' n) = fd (pcbs s n)) \<Longrightarrow> fds_ok s \<Longrightarrow> fds_ok s'"
  by (simp add: fds_ok_def)

lemma fds_ok_view: "table_view s' = table_view s \<Longrightarrow> fds_ok s \<Longrightarrow> fds_ok s'"
  by (rule fds_ok_same) (simp_all add: table_view_def)

lemma fds_ok_update:
  assumes "fds_ok s" "openTasks s' = openTasks s" "pcbs s' = (pcbs s)(n := (pcbs s n)\<lparr>fd := (fd (pcbs s n))[i := d]\<rparr>)"
    and "desc_ok d" "2 \<le> i"
  shows "fds_ok s'"
  using assms set_update_subset_insert[of "fd (pcbs s n)" i d] by (fastforce simp: fds_ok_def std_open_def)

lemma fds_setup_fd:
  assumes "setup_fd n i e name (update_fd n i (\<lambda>d. d\<lparr>flags := 1\<rparr>) s) = Ret (ops, s1)" "fileType e \<in> {0, 1, 2}"
    and "i < length (fd (pcbs s n))"
  shows "\<exists>d. pcbs s1 = (pcbs s)(n := (pcbs s n)\<lparr>fd := (fd (pcbs s n))[i := d]\<rparr>) \<and> openTasks s1 = openTasks s \<and> desc_ok d"
proof -
  let ?upd = "\<lambda>d. (pcbs s)(n := (pcbs s n)\<lparr>fd := (fd (pcbs s n))[i := d]\<rparr>)"
  from assms(2) consider "fileType e = 0" | "fileType e = 1" | "fileType e = 2" by auto
  then obtain d where "pcbs s1 = ?upd d" "openTasks s1 = openTasks s" "flags d = 1" "sysops_ptr d \<noteq> None"
      "sysops_ptr d = Some File_ops \<longrightarrow> terminated (fd_fileName d)"
    by cases (use assms(1,3) in \<open>auto simp: setup_fd_def set_ops_def Let_def outcome_simps dest!: strcpy_terminated\<close>)
  then show ?thesis by (auto simp: desc_ok_def)
qed

lemma fds_open_call:
  assumes "open_call env name s = Ret (r, s')" "fds_ok s" "tables_typed s" "types_known s"
  shows "fds_ok s'"
proof -
  have "fds_ok s'" if at: "open_at env n i e name s = Ret (r, s')" "2 \<le> i" "i < 8" "fileType e \<in> {0, 1, 2}" for n i e
  proof -
    obtain ops s1 where su: "setup_fd n i e name (update_fd n i (\<lambda>d. d\<lparr>flags := 1\<rparr>) s) = Ret (ops, s1)"
      and rest: "(case ops of None \<Rightarrow> Ret (-1, s1)
        | Some ops \<Rightarrow> obind (open_driver env ops name s1) (\<lambda>(v, s2). Ret (if v = 0 then int i else -1, s2))) = Ret (r, s')"
      using at(1) by (auto simp: open_at_def outcome_simps)
    have "length (fd (pcbs s n)) = 8" using assms(3) by (simp add: tables_typed_def pcb_ok_def)
    then have "fds_ok s1" using fds_setup_fd[OF su at(4)] at(3) fds_ok_update[OF assms(2) _ _ _ at(2)] by auto
    moreover have "table_view s' = table_view s1"
      using rest by (auto simp: outcome_simps split: option.splits dest: table_calls.view_open_driver)
    ultimately show ?thesis using fds_ok_view by blast
  qed
  moreover have "2 \<le> i \<and> i < 8" if "first_free (\<lambda>d. flags d = 0) ds [2..<8] = Some i" for i and ds :: "file_descriptor list"
    using first_free_Some[OF that] by auto
  moreover have "fileType e \<in> {0, 1, 2}" if "read_dentry_by_name name s = Ret (Some e)" for e
    using types_known_found[OF assms(4) that] .
  ultimately show ?thesis using assms(1,2)
    by (auto simp: open_call_def outcome_simps simp del: upt.simps first_free.simps split: if_splits option.splits)
qed

lemma fds_close_call: "close_call i s = Ret (r, s') \<Longrightarrow> fds_ok s \<Longrightarrow> fds_ok s'"
  by (auto simp: close_call_def outcome_simps desc_ok_def split: if_splits elim!: fds_ok_update)

lemma fds_close_all: "close_all is s = Ret s' \<Longrightarrow> fds_ok s \<Longrightarrow> fds_ok s'"
  by (induction "is" arbitrary: s) (auto simp: outcome_simps dest: fds_close_call)

lemma fds_position:
  assumes "fds_ok s" "tables_typed s"
  shows "fds_ok (update_fd n i (\<lambda>d. d\<lparr>filePosition := x\<rparr>) s)"
proof -
  have len: "length (fd (pcbs s n)) = 8" using assms(2) by (simp add: tables_typed_def pcb_ok_def)
  have all: "\<forall>d\<in>set (fd (pcbs s n)). desc_ok d" using assms(1) by (simp add: fds_ok_def)
  have "\<forall>d\<in>set ((fd (pcbs s n))[i := (fd (pcbs s n) ! i)\<lparr>filePosition := x\<rparr>]). desc_ok d"
  proof (cases "i < 8")
    case True
    moreover from this len have "fd (pcbs s n) ! i \<in> set (fd (pcbs s n))" by simp
    ultimately show ?thesis using all set_update_subset_insert[of "fd (pcbs s n)" i] by (force simp: desc_ok_def)
  next
    case False
    then show ?thesis using all len by (simp add: list_update_beyond)
  qed
  moreover have "std_open ds \<Longrightarrow> std_open (ds[i := (ds ! i)\<lparr>filePosition := x\<rparr>])" if "length ds = 8" for ds
    using that by (cases "i < 8") (simp_all add: std_open_def nth_list_update list_update_beyond)
  ultimately show ?thesis using assms(1) len by (auto simp: fds_ok_def)
qed

lemma fds_read_call:
  assumes "read_call env i buf nbytes s = Ret (Some (r, b, s'))" "fds_ok s" "tables_typed s"
    and irqs: "\<forall>irq\<in>set (env_irqs env). \<forall>s s'. irq s = Ret s' \<longrightarrow> table_view s' = table_view s"
  shows "fds_ok s'"
proof -
  have "fds_ok s'" if "read_driver env ops (nat i) buf nbytes s = Ret (Some (r, b, s'))" for ops
  proof (cases "ops = File_ops")
    case True
    with that assms(2,3) show ?thesis
      by (auto simp: read_driver_def read_file_def outcome_simps fds_position simp del: update_fd_simps split: if_splits option.splits)
  next
    case False
    from fds_ok_view[OF table_calls.view_read_driver[OF irqs False that] assms(2)] show ?thesis .
  qed
  with assms(1,2) show ?thesis by (auto simp: read_call_def outcome_simps split: if_splits option.splits)
qed

lemma init_pcb_fds:
  assumes "init_pcb a p = Ret p'" "pcb_ok p" "\<forall>d\<in>set (fd p). desc_ok d"
  shows "(\<forall>d\<in>set (fd p'). desc_ok d) \<and> std_open (fd p')"
proof -
  let ?std = "\<lambda>d. d\<lparr>flags := 1, sysops_ptr := Some Terminal_ops\<rparr>"
  let ?ds = "(fd p)[0 := ?std (fd p ! 0), 1 := ?std (fd p ! 1)]"
  let ?r = "fold (\<lambda>i ds. ds[i := (ds ! i)\<lparr>flags := 0\<rparr>]) [2..<7] ?ds"
  have len: "length (fd p) = 8" using assms(2) by (simp add: pcb_ok_def)
  have r: "fd p' = ?r" using assms(1) by (auto simp: init_pcb_def Let_def outcome_simps simp del: upt.simps)
  note cl = clear_flags[of ?ds]
  have "desc_ok (?r ! j)" if "j < 8" for j
    using that cl(2)[of j] len assms(3) by (auto simp: desc_ok_def nth_list_update)
  moreover have "std_open ?r" using cl(2) len by (simp add: std_open_def nth_list_update)
  ultimately show ?thesis using r cl(1) len by (auto simp: in_set_conv_nth)
qed

lemma fds_start_program:
  assumes "start_program env f a e s = Ret (t, s')" "fds_ok s" "tables_typed s"
  shows "fds_ok s'"
proof -
  obtain cur where cur: "find_programid s = Ret cur" using assms(1) by (auto simp: start_program_def outcome_simps)
  define s1 where "s1 = (if cur = 0 then s\<lparr>first_shell_entry_point := e\<rparr> else s)"
  obtain new where new: "first_free (\<lambda>p. p = -1) (openTasks s1) [1..<7] = Some new"
    using assms(1) cur by (auto simp: start_program_def s1_def[symmetric] split: option.splits)
  let ?s4 = "take_slot new cur s1"
  obtain p v s7 where p: "init_pcb a (pcbs ?s4 new) = Ret p"
    and ld: "page_loader f (int new) (save_registers env cur (update_pcb new (\<lambda>_. p) ?s4)) = Ret (v, s7)"
    and s': "s' = cli ((update_pcb new (\<lambda>p. p\<lparr>pcb_cr3 := cr3 s7, prev_pcb := cur, parent_pid := cur\<rparr>) s7)
        \<lparr>tss_esp0 := kernel_stack (of_nat new), tss_ss0 := KERNEL_DS\<rparr>)"
    using assms(1) cur new by (auto simp: start_program_def s1_def[symmetric] Let_def outcome_simps)
  have s4: "pcbs ?s4 = pcbs s" "\<exists>x. openTasks ?s4 = (openTasks s)[new := x]"
    by (auto simp: s1_def take_slot_def claim_task_def Let_def)
  then obtain x where x: "openTasks ?s4 = (openTasks s)[new := x]" by blast
  have "pcbs s7 = pcbs (save_registers env cur (update_pcb new (\<lambda>_. p) ?s4)) \<and> openTasks s7 = openTasks ?s4"
    using ld by (auto simp: page_loader_def set_programpage_def save_registers_def update_pcb_def Let_def outcome_simps split: if_splits option.splits)
  then have s7: "openTasks s' = (openTasks s)[new := x]" "fd (pcbs s' n) = (if n = new then fd p else fd (pcbs s n))" for n
    using s4(1) x by (auto simp: s' cli_def update_pcb_def save_registers_def)
  have "pcb_ok (pcbs s new)" "\<forall>d\<in>set (fd (pcbs s new)). desc_ok d" using assms(2,3) by (simp_all add: tables_typed_def fds_ok_def)
  with init_pcb_fds[OF p] s4(1) have fresh: "\<forall>d\<in>set (fd p). desc_ok d" "std_open (fd p)" by simp_all
  have "n \<in> used_slots (openTasks s)" if "n \<in> used_slots ((openTasks s)[new := x])" "n \<noteq> new" for n
    using that by (simp add: used_slots_def nth_list_update_neq)
  then show ?thesis using assms(2) fresh by (auto simp: fds_ok_def s7)
qed

lemma fds_execute:
  assumes "execute env cmd s = Ret (t, s')" "fds_ok s" "tables_typed s"
  shows "fds_ok s'"
proof -
  obtain c r where c: "cmd = Some c" "parse_command c = Ret r"
    using assms(1) by (auto simp: execute_def outcome_simps split: option.splits)
  show ?thesis
  proof (cases r)
    case None
    with assms(1) c invalid_command_step[of s] have "table_view s' = table_view s"
      by (auto simp: execute_def outcome_simps dest: table_view_console)
    from fds_ok_view[OF this assms(2)] show ?thesis .
  next
    case (Some fa)
    obtain f a where fa: "r = Some (f, a)" using Some by (cases fa) simp
    then have "s' = s \<or> (\<exists>e. start_program env f a e s = Ret (t, s'))"
      using assms(1) c by (auto simp: execute_def outcome_simps Let_def split: if_splits)
    then show ?thesis using fds_start_program assms(2,3) by blast
  qed
qed

lemma fds_halt:
  assumes "halt st s = Ret (t, s')" "fds_ok s"
  shows "fds_ok s'"
proof -
  obtain cur parent where cp: "find_programid s = Ret cur" "buf_get (openTasks s) (nat cur) = Ret parent"
    using assms(1) by (auto simp: halt_def outcome_simps)
  define s2 where "s2 = requeue cur parent parent (s\<lparr>curr_status := ucast st\<rparr>)"
  have ok2: "fds_ok s2" using assms(2) by (simp add: s2_def fds_ok_def)
  show ?thesis
  proof (cases "parent = 0")
    case True
    have "s' = cli s2" using assms(1) cp True by (auto simp: halt_def s2_def Let_def)
    with ok2 show ?thesis by (simp add: fds_ok_def cli_def)
  next
    case False
    let ?s3 = "update_terminal (old_terminal s2) (\<lambda>t. t\<lparr>program_id := word_of_int parent\<rparr>) s2"
    obtain s4 s6 where s4: "set_programpage parent ?s3 = Ret s4"
      and s6: "close_all [2, 3, 4, 5, 6, 7] (s4\<lparr>openTasks := (openTasks s4)[nat cur := -1]\<rparr>) = Ret s6"
      and s': "s' = s6\<lparr>tss_esp0 := kernel_stack (word_of_int parent)\<rparr>"
      using assms(1) cp False by (auto simp: halt_def s2_def[symmetric] Let_def outcome_simps simp del: close_all.simps)
    have "fds_ok s4" using s4 ok2 by (auto simp: set_programpage_def fds_ok_def split: if_splits)
    moreover have "used_slots ((openTasks s4)[nat cur := -1]) \<subseteq> used_slots (openTasks s4)"
      by (auto simp: used_slots_def) (metis nth_list_update_eq nth_list_update_neq list_update_beyond not_le)
    ultimately have "fds_ok (s4\<lparr>openTasks := (openTasks s4)[nat cur := -1]\<rparr>)" by (auto simp: fds_ok_def)
    from fds_close_all[OF s6 this] show ?thesis by (simp add: s' fds_ok_def)
  qed
qed

section \<open>All calls\<close>

lemma step_keeps_tables:
  assumes "syscall_step s s'" "tables_typed s" "fds_ok s" "types_known s"
  shows "tables_typed s' \<and> fds_ok s'"
  using assms(1)
proof (cases rule: syscall_step.cases)
  case (step_read env ks i buf nbytes r b)
  have "\<forall>irq\<in>set (env_irqs env). \<forall>s s'. irq s = Ret s' \<longrightarrow> table_view s' = table_view s"
    using step_read(1) table_calls.view_key_irq by auto
  then show ?thesis using tables_read_call[OF step_read(2) assms(2)] fds_read_call[OF step_read(2) assms(3,2)] by blast
next
  case (step_write env i buf n r)
  then show ?thesis using tables_typed_same[OF table_calls.view_write_call] fds_ok_view[OF table_calls.view_write_call] assms(2,3) by blast
next
  case (step_vidmap env a r)
  then have "table_view s' = table_view s" by (auto simp: vidmap_def table_view_def outcome_simps split: if_splits)
  then show ?thesis using assms(2,3) tables_typed_same fds_ok_view by blast
qed (use assms(2-4) in \<open>blast dest: tables_execute tables_halt tables_open_call tables_close_call
    fds_execute fds_halt fds_open_call fds_close_call\<close>)+

lemma read_finds_driver:
  assumes "tables_typed s" "fds_ok s" "running s p" "i < 8" "i \<noteq> 1" "flags (fd (pcbs s p) ! i) \<noteq> 0"
  shows "\<exists>ops. sysops_ptr (fd (pcbs s p) ! i) = Some ops \<and> (\<forall>env buf n. read_call env (int i) buf n s = read_driver env ops i buf n s)"
proof -
  have len: "length (fd (pcbs s p)) = 8" using assms(1) by (simp add: tables_typed_def pcb_ok_def)
  then have "fd (pcbs s p) ! i \<in> set (fd (pcbs s p))" using assms(4) by simp
  then have "desc_ok (fd (pcbs s p) ! i)" using assms(2) unfolding fds_ok_def by blast
  then obtain ops where "sysops_ptr (fd (pcbs s p) ! i) = Some ops" using assms(6) by (auto simp: desc_ok_def)
  then show ?thesis using assms(3-6) len find_programid_running[OF assms(3)]
    by (auto simp: read_call_def pcb_of_def running_def buf_get_def)
qed

section \<open>Properties\<close>

lemma demo_types: "types_known demo_kernel"
proof -
  have "fileType (entry demo_kernel i) = (if i = 0 then 2 else 0)" if "i < 63" for i
  proof -
    have a: "unat (64 + 64 * of_nat i + 32 + of_nat k :: u32) = 96 + 64 * i + k" if "k < 4" for k :: nat
      using that \<open>i < 63\<close> by (simp add: unat_word_ariths unat_of_nat)
    have "demo_image (64 + 64 * of_nat i + 32 + of_nat k) = (if i = 0 \<and> k = 0 then 2 else 0)" if "k < 4" for k :: nat
    proof (cases "i = 0 \<and> k = 0")
      case False
      then show ?thesis using a[OF that] demo_image_gap[of "64 + 64 * of_nat i + 32 + of_nat k"] that \<open>i < 63\<close> by auto
    qed (simp add: demo_image_def)
    from this[of 0] this[of 1] this[of 2] this[of 3] show ?thesis
      by (simp add: entry_def le32_def demo_extend add.assoc)
  qed
  then show ?thesis by (simp add: types_known_def)
qed



end
