(* ===== verification/Blink.thy ===== *)
theory Blink
  imports Prelude
begin

text \<open>
  The blinking characters of \<open>src/fish\<close>: the linked list of \<open>blink.S\<close>, with the allocator and the memory routines that \<open>fish.c\<close>
  gives it. A structure lives in the array \<open>blink_array\<close> of 80*25 elements; a pointer to one is its index, \<open>None\<close> for
  \<open>NULL\<close>. Video memory is a function from byte offsets. The loops of the assembly code follow pointers and end
  when they find \<open>NULL\<close>: they are partial functions, \<open>None\<close> when they never end. The list is a refinement of a sequence
  of structures without pointers, as long as no structure is at location 0, which the allocator takes for a free one.
\<close>

section \<open>Memory routines of fish.c\<close>

fun memset_from :: "nat \<Rightarrow> nat \<Rightarrow> u8 \<Rightarrow> u8 list \<Rightarrow> u8 list outcome" where
  "memset_from i 0 c m = Ret m"
| "memset_from i (Suc n) c m = obind (buf_set m i c) (memset_from (Suc i) n c)"

definition fish_memset :: "u8 list \<Rightarrow> u8 \<Rightarrow> int \<Rightarrow> u8 list outcome" where
  "fish_memset memory c n = memset_from 0 (nat n) c memory"

fun memcpy_from :: "nat \<Rightarrow> nat \<Rightarrow> u8 list \<Rightarrow> u8 list \<Rightarrow> u8 list outcome" where
  "memcpy_from i 0 s d = Ret d"
| "memcpy_from i (Suc n) s d = obind (buf_get s i) (\<lambda>x. obind (buf_set d i x) (memcpy_from (Suc i) n s))"

definition fish_memcpy :: "u8 list \<Rightarrow> u8 list \<Rightarrow> int \<Rightarrow> (int \<times> u8 list) outcome" where
  "fish_memcpy dest src n = obind (memcpy_from 0 (nat n) src dest) (\<lambda>d. Ret (0, d))"

section \<open>State\<close>

record blink =
  location :: u16
  on_char :: u8
  off_char :: u8
  on_length :: u16
  off_length :: u16
  countdown :: u16
  status :: u16
  blink_next :: "nat option"

definition blank :: blink where
  "blank = \<lparr>location = 0, on_char = 0, off_char = 0, on_length = 0, off_length = 0, countdown = 0, status = 0, blink_next = None\<rparr>"

record fish =
  blink_array :: "blink list"
  mp1_list_head :: "nat option"
  vmem :: "nat \<Rightarrow> u8"

text \<open>Both \<open>ece391_memset\<close> of a whole structure with 0 and \<open>ece391_memcpy\<close> of one are assignments of structures.\<close>

definition put_blink :: "nat \<Rightarrow> blink \<Rightarrow> fish \<Rightarrow> fish" where
  "put_blink p b f = f\<lparr>blink_array := (blink_array f)[p := b]\<rparr>"

definition mp1_malloc :: "fish \<Rightarrow> nat option outcome" where
  "mp1_malloc f = (if length (blink_array f) < 80 * 25 then Undef
     else Ret (find (\<lambda>i. location (blink_array f ! i) = 0) [0..<80 * 25]))"

definition mp1_free :: "nat \<Rightarrow> fish \<Rightarrow> fish" where
  "mp1_free p f = put_blink p blank f"

definition mp1_poke :: "u8 \<Rightarrow> nat \<Rightarrow> fish \<Rightarrow> fish" where
  "mp1_poke c eax f = f\<lparr>vmem := (vmem f)(eax := c)\<rparr>"

section \<open>Loops that may not end\<close>

definition lbind :: "'a outcome option \<Rightarrow> ('a \<Rightarrow> 'b outcome option) \<Rightarrow> 'b outcome option" where
  "lbind m g = Option.bind m (\<lambda>r. case r of Ret x \<Rightarrow> g x | Hang t \<Rightarrow> Some (Hang t) | Undef \<Rightarrow> Some Undef)"

lemma lbind_simps [simp]:
  "lbind (Some (Ret x)) g = g x" "lbind (Some Undef) g = Some Undef" "lbind (Some (Hang t)) g = Some (Hang t)" "lbind None g = None"
  by (simp_all add: lbind_def)

text \<open>One structure of the tasklet: the countdown is a signed 16-bit number.\<close>

definition blink_tick :: "nat \<Rightarrow> blink \<Rightarrow> fish \<Rightarrow> fish" where
  "blink_tick p b f =
     (let b1 = b\<lparr>countdown := countdown b - 1\<rparr>
      in if sint (countdown b1) > 0 then put_blink p b1 f
         else let eax = 2 * unat (location b1);
                  (cl, dx) = (if status b1 AND 1 \<noteq> 0 then (off_char b1, off_length b1) else (on_char b1, on_length b1))
              in put_blink p (b1\<lparr>countdown := dx, status := status b1 XOR 1\<rparr>) (mp1_poke cl eax f))"

partial_function (option) tasklet_loop :: "nat option \<Rightarrow> fish \<Rightarrow> fish outcome option" where
  "tasklet_loop ebx f =
     (case ebx of None \<Rightarrow> Some (Ret f)
      | Some p \<Rightarrow> if p < length (blink_array f)
                  then tasklet_loop (blink_next (blink_array f ! p)) (blink_tick p (blink_array f ! p) f)
                  else Some Undef)"

definition mp1_rtc_tasklet :: "fish \<Rightarrow> fish outcome option" where
  "mp1_rtc_tasklet f = tasklet_loop (mp1_list_head f) f"

partial_function (option) find_loop :: "u16 \<Rightarrow> nat option \<Rightarrow> fish \<Rightarrow> nat option outcome option" where
  "find_loop ax ebx f =
     (case ebx of None \<Rightarrow> Some (Ret None)
      | Some p \<Rightarrow> if p < length (blink_array f)
                  then if location (blink_array f ! p) = ax then Some (Ret (Some p)) else find_loop ax (blink_next (blink_array f ! p)) f
                  else Some Undef)"

definition mp1_find_helper :: "u16 \<Rightarrow> fish \<Rightarrow> nat option outcome option" where
  "mp1_find_helper loc f = find_loop loc (mp1_list_head f) f"

section \<open>The calls of mp1\_ioctl\<close>

definition mp1_ioctl_add :: "blink \<Rightarrow> fish \<Rightarrow> (int \<times> fish) outcome" where
  "mp1_ioctl_add user f =
     (if \<not> location user < 80 * 25 then Ret (-1, f)
      else obind (mp1_malloc f) (\<lambda>r.
           case r of None \<Rightarrow> Ret (-1, f)
           | Some p \<Rightarrow>
               let temp = user\<lparr>status := 1, countdown := on_length user\<rparr>;
                   f1 = put_blink p (temp\<lparr>blink_next := mp1_list_head f\<rparr>) f;
                   f2 = f1\<lparr>mp1_list_head := Some p\<rparr>
               in Ret (0, mp1_poke (on_char temp) (2 * unat (location temp)) f2)))"

text \<open>
  The pointer that \<open>edx\<close> points to while the predecessor of \<open>eax\<close> is searched: \<open>None\<close> is \<open>mp1_list_head\<close>, \<open>Some q\<close>
  the field \<open>next\<close> of structure \<open>q\<close>.
\<close>

definition cell :: "nat option \<Rightarrow> fish \<Rightarrow> nat option outcome" where
  "cell edx f = (case edx of None \<Rightarrow> Ret (mp1_list_head f) | Some q \<Rightarrow> obind (buf_get (blink_array f) q) (\<lambda>b. Ret (blink_next b)))"

definition set_cell :: "nat option \<Rightarrow> nat option \<Rightarrow> fish \<Rightarrow> fish" where
  "set_cell edx v f = (case edx of None \<Rightarrow> f\<lparr>mp1_list_head := v\<rparr>
     | Some q \<Rightarrow> put_blink q ((blink_array f ! q)\<lparr>blink_next := v\<rparr>) f)"

partial_function (option) remove_find_prev :: "nat \<Rightarrow> nat option \<Rightarrow> fish \<Rightarrow> nat option outcome option" where
  "remove_find_prev eax edx f =
     (case cell edx f of Ret v \<Rightarrow> if v = Some eax then Some (Ret edx) else (case v of None \<Rightarrow> Some Undef | Some q \<Rightarrow> remove_find_prev eax (Some q) f)
      | Hang t \<Rightarrow> Some (Hang t) | Undef \<Rightarrow> Some Undef)"

definition mp1_ioctl_remove :: "u16 \<Rightarrow> fish \<Rightarrow> (int \<times> fish) outcome option" where
  "mp1_ioctl_remove loc f =
     lbind (mp1_find_helper loc f) (\<lambda>r.
     case r of None \<Rightarrow> Some (Ret (-1, f))
     | Some p \<Rightarrow>
         lbind (remove_find_prev p None f) (\<lambda>edx.
         Some (Ret (0, mp1_free p (set_cell edx (blink_next (blink_array f ! p)) f)))))"

text \<open>
  \<open>cmovl\<close> after \<open>testb $1\<close> moves when the result, the lowest bit of \<open>status\<close>, is negative as a signed byte.
\<close>

definition sync_char :: "blink \<Rightarrow> u8" where
  "sync_char b = (if sint (ucast (status b) AND 1 :: u8) < 0 then on_char b else off_char b)"

definition mp1_ioctl_sync :: "u32 \<Rightarrow> fish \<Rightarrow> (int \<times> fish) outcome option" where
  "mp1_ioctl_sync arg f =
     lbind (mp1_find_helper (ucast (drop_bit 16 arg)) f) (\<lambda>r.
     case r of None \<Rightarrow> Some (Ret (-1, f))
     | Some esi \<Rightarrow>
         lbind (mp1_find_helper (ucast (arg AND 0xFFFF)) f) (\<lambda>r.
         case r of None \<Rightarrow> Some (Ret (-1, f))
         | Some edi \<Rightarrow>
             let s = blink_array f ! esi;
                 d = (blink_array f ! edi)\<lparr>on_length := on_length s, off_length := off_length s, countdown := countdown s, status := status s\<rparr>
             in Some (Ret (0, mp1_poke (sync_char d) (2 * unat (location d)) (put_blink edi d f)))))"

definition mp1_ioctl_find :: "blink \<Rightarrow> fish \<Rightarrow> (int \<times> blink) outcome option" where
  "mp1_ioctl_find user f =
     lbind (mp1_find_helper (location user) f) (\<lambda>r.
     case r of None \<Rightarrow> Some (Ret (-1, user)) | Some p \<Rightarrow> Some (Ret (0, blink_array f ! p)))"

text \<open>The argument is a pointer to a structure for some commands and a number for others; the table has four entries.\<close>

datatype ioctl_arg = Ptr blink | Num u32

definition mp1_ioctl :: "ioctl_arg \<Rightarrow> nat \<Rightarrow> fish \<Rightarrow> (int \<times> ioctl_arg \<times> fish) outcome option" where
  "mp1_ioctl arg cmd f =
     (case (arg, cmd) of
        (Ptr b, 0) \<Rightarrow> Some (obind (mp1_ioctl_add b f) (\<lambda>(r, f1). Ret (r, arg, f1)))
      | (Num n, Suc 0) \<Rightarrow> lbind (mp1_ioctl_remove (ucast n) f) (\<lambda>(r, f1). Some (Ret (r, arg, f1)))
      | (Ptr b, Suc (Suc 0)) \<Rightarrow> lbind (mp1_ioctl_find b f) (\<lambda>(r, b1). Some (Ret (r, Ptr b1, f)))
      | (Num n, Suc (Suc (Suc 0))) \<Rightarrow> lbind (mp1_ioctl_sync n f) (\<lambda>(r, f1). Some (Ret (r, arg, f1)))
      | _ \<Rightarrow> Some Undef)"

section \<open>The list as a sequence\<close>

text \<open>From \<open>x\<close> the pointers lead through the structures \<open>ps\<close> to \<open>y\<close>.\<close>

fun path :: "blink list \<Rightarrow> nat option \<Rightarrow> nat list \<Rightarrow> nat option \<Rightarrow> bool" where
  "path a x [] y = (x = y)"
| "path a x (p # ps) y = (x = Some p \<and> p < length a \<and> path a (blink_next (a ! p)) ps y)"

lemma path_append [simp]: "path a x (ps @ qs) y \<longleftrightarrow> (\<exists>z. path a x ps z \<and> path a z qs y)"
  by (induction ps arbitrary: x) auto

lemma path_update_outside [simp]: "p \<notin> set ps \<Longrightarrow> path (a[p := b]) x ps y = path a x ps y"
  by (induction ps arbitrary: x) auto

lemma path_keep_next:
  "(\<And>p. p \<in> set ps \<Longrightarrow> blink_next (a' ! p) = blink_next (a ! p)) \<Longrightarrow> length a' = length a \<Longrightarrow> path a' x ps y = path a x ps y"
  by (induction ps arbitrary: x) auto

lemma path_range: "path a x ps y \<Longrightarrow> p \<in> set ps \<Longrightarrow> p < length a"
  by (induction ps arbitrary: x) auto

text \<open>
  The invariant: the array has its 80*25 elements, the list runs through \<open>ps\<close>, every structure at most once,
  and these are the ones the allocator takes for used.
\<close>

definition blink_list :: "fish \<Rightarrow> nat list \<Rightarrow> bool" where
  "blink_list f ps \<longleftrightarrow> length (blink_array f) = 2000 \<and> path (blink_array f) (mp1_list_head f) ps None \<and> distinct ps \<and>
     (\<forall>p<2000. location (blink_array f ! p) \<noteq> 0 \<longleftrightarrow> p \<in> set ps)"

text \<open>What the list stands for: its structures in order, without their pointers.\<close>

definition bare :: "blink \<Rightarrow> blink" where
  "bare b = b\<lparr>blink_next := None\<rparr>"

definition contents :: "fish \<Rightarrow> nat list \<Rightarrow> blink list" where
  "contents f ps = map (\<lambda>p. bare (blink_array f ! p)) ps"

lemma blink_list_range: "blink_list f ps \<Longrightarrow> p \<in> set ps \<Longrightarrow> p < 2000"
  using path_range by (fastforce simp: blink_list_def)

lemma blink_list_length: "blink_list f ps \<Longrightarrow> length ps \<le> 2000"
proof -
  assume "blink_list f ps"
  then have "set ps \<subseteq> {..<2000}" "distinct ps" using blink_list_range by (auto simp: blink_list_def)
  then show "length ps \<le> 2000" using card_mono[of "{..<2000}" "set ps"] by (simp add: distinct_card)
qed

section \<open>find, add and remove\<close>

lemma find_loop_run:
  "path (blink_array f) x ps None \<Longrightarrow> find_loop l x f = Some (Ret (find (\<lambda>p. location (blink_array f ! p) = l) ps))"
  by (induction ps arbitrary: x) (subst find_loop.simps, auto)+

lemma mp1_find_helper_list:
  "blink_list f ps \<Longrightarrow> mp1_find_helper l f = Some (Ret (find (\<lambda>p. location (blink_array f ! p) = l) ps))"
  by (simp add: mp1_find_helper_def blink_list_def find_loop_run)

lemma mp1_malloc_list:
  assumes "blink_list f ps"
  shows "mp1_malloc f = Ret (find (\<lambda>p. p \<notin> set ps) [0..<2000])"
proof -
  have "find (\<lambda>i. location (blink_array f ! i) = 0) [0..<80 * 25] = find (\<lambda>p. p \<notin> set ps) [0..<2000]"
    using assms by (intro find_cong) (auto simp: blink_list_def)
  then show ?thesis using assms by (simp add: mp1_malloc_def blink_list_def)
qed

lemma add_list:
  assumes l: "blink_list f ps" and b: "location b < 2000" "location b \<noteq> 0" and room: "length ps < 2000"
  shows "\<exists>p f'. mp1_ioctl_add b f = Ret (0, f') \<and> blink_list f' (p # ps) \<and> p \<notin> set ps \<and> p < 2000 \<and>
    contents f' (p # ps) = bare (b\<lparr>status := 1, countdown := on_length b\<rparr>) # contents f ps \<and>
    vmem f' = (vmem f)(2 * unat (location b) := on_char b)"
proof -
  have "\<not> {..<2000} \<subseteq> set ps"
  proof
    assume "{..<2000} \<subseteq> set ps"
    then have "2000 \<le> card (set ps)" using card_mono[of "set ps" "{..<2000 :: nat}"] by simp
    with room card_length[of ps] show False by simp
  qed
  then obtain q where "q < 2000" "q \<notin> set ps" by auto
  then obtain p where p: "find (\<lambda>p. p \<notin> set ps) [0..<2000] = Some p" "p \<notin> set ps" "p < 2000"
    by (cases "find (\<lambda>p. p \<notin> set ps) [0..<2000]") (auto simp: find_None_iff find_Some_iff)
  let ?b = "b\<lparr>status := 1, countdown := on_length b, blink_next := mp1_list_head f\<rparr>"
  let ?f = "mp1_poke (on_char b) (2 * unat (location b)) ((put_blink p ?b f)\<lparr>mp1_list_head := Some p\<rparr>)"
  have "mp1_ioctl_add b f = Ret (0, ?f)" using b(1) p(1) by (simp add: mp1_ioctl_add_def mp1_malloc_list[OF l] Let_def)
  moreover have "blink_list ?f (p # ps)"
    using l p(2,3) b(2) by (auto simp: blink_list_def put_blink_def mp1_poke_def nth_list_update)
  moreover have "contents ?f (p # ps) = bare (b\<lparr>status := 1, countdown := on_length b\<rparr>) # contents f ps"
    using l p(2,3) by (auto simp: contents_def bare_def put_blink_def mp1_poke_def blink_list_def nth_list_update)
  ultimately show ?thesis using p by (auto simp: put_blink_def mp1_poke_def intro!: exI[of _ p])
qed

lemma remove_find_prev_run:
  assumes "cell edx f = Ret x" "path (blink_array f) x (ps @ p # qs) None" "p \<notin> set ps"
  shows "remove_find_prev p edx f = Some (Ret (if ps = [] then edx else Some (last ps)))"
  using assms
proof (induction ps arbitrary: x edx)
  case Nil
  then show ?case by (subst remove_find_prev.simps) simp
next
  case (Cons q ps)
  then have "cell (Some q) f = Ret (blink_next (blink_array f ! q))" by (simp add: cell_def)
  from Cons.IH[OF this] Cons.prems have "remove_find_prev p (Some q) f = Some (Ret (if ps = [] then Some q else Some (last ps)))"
    by auto
  with Cons.prems show ?case by (subst remove_find_prev.simps) auto
qed

lemma remove_list:
  assumes l: "blink_list f (ps @ p # qs)" and loc: "location (blink_array f ! p) = x" "\<forall>q\<in>set ps. location (blink_array f ! q) \<noteq> x"
  shows "\<exists>f'. mp1_ioctl_remove x f = Some (Ret (0, f')) \<and> blink_list f' (ps @ qs) \<and>
    contents f' (ps @ qs) = contents f (ps @ qs) \<and> vmem f' = vmem f"
proof -
  let ?a = "blink_array f" and ?n = "blink_next (blink_array f ! p)"
  have d: "p \<notin> set ps" "p \<notin> set qs" "distinct ps" "distinct qs" "set ps \<inter> set qs = {}" "p < length ?a"
    using l by (auto simp: blink_list_def)
  have "find (\<lambda>p. location (?a ! p) = x) (ps @ p # qs) = Some p"
    using loc by (induction ps) auto
  then have fnd: "mp1_find_helper x f = Some (Ret (Some p))" using mp1_find_helper_list[OF l] by simp
  define edx where "edx = (if ps = [] then None else Some (last ps))"
  have prev: "remove_find_prev p None f = Some (Ret edx)"
    using remove_find_prev_run[of None f "mp1_list_head f" ps p qs] l d(1) by (simp add: edx_def cell_def blink_list_def)
  let ?f = "mp1_free p (set_cell edx ?n f)"
  have rm: "mp1_ioctl_remove x f = Some (Ret (0, ?f))" by (simp add: mp1_ioctl_remove_def fnd prev)
  have len: "length (blink_array ?f) = length ?a" by (simp add: mp1_free_def set_cell_def put_blink_def split: option.splits)
  have nth: "blink_array ?f ! q = (if q = p then blank else if edx = Some q then (?a ! q)\<lparr>blink_next := ?n\<rparr> else ?a ! q)"
    if "q < length ?a" for q
    using that d(6) by (auto simp: mp1_free_def set_cell_def put_blink_def nth_list_update split: option.splits)
  have "path (blink_array ?f) (mp1_list_head ?f) (ps @ qs) None"
  proof (cases ps rule: rev_cases)
    case Nil
    then show ?thesis using l d by (auto simp: blink_list_def mp1_free_def set_cell_def put_blink_def edx_def)
  next
    case (snoc rs q)
    have "q \<notin> set rs" "q \<notin> set qs" using d snoc by auto
    then show ?thesis using l d snoc by (auto simp: blink_list_def mp1_free_def set_cell_def put_blink_def edx_def nth_list_update)
  qed
  moreover have "\<forall>q<2000. location (blink_array ?f ! q) \<noteq> 0 \<longleftrightarrow> q \<in> set (ps @ qs)"
    using l nth d(1,2) by (auto simp: blink_list_def blank_def)
  ultimately have "blink_list ?f (ps @ qs)" using l len d by (auto simp: blink_list_def)
  moreover have "contents ?f (ps @ qs) = contents f (ps @ qs)"
    using nth d blink_list_range[OF l] l by (auto simp: contents_def bare_def blink_list_def)
  moreover have "vmem ?f = vmem f" by (simp add: mp1_free_def set_cell_def put_blink_def split: option.splits)
  ultimately show ?thesis using rm by blast
qed

section \<open>The tasklet\<close>

text \<open>One structure by itself: its next state, and what it shows, if anything.\<close>

definition expired :: "blink \<Rightarrow> bool" where
  "expired b \<longleftrightarrow> \<not> sint (countdown b - 1) > 0"

definition is_on :: "blink \<Rightarrow> bool" where
  "is_on b \<longleftrightarrow> status b AND 1 \<noteq> 0"

definition tick :: "blink \<Rightarrow> blink" where
  "tick b = (if expired b then b\<lparr>countdown := (if is_on b then off_length b else on_length b), status := status b XOR 1\<rparr>
     else b\<lparr>countdown := countdown b - 1\<rparr>)"

definition char_of :: "blink \<Rightarrow> u8" where
  "char_of b = (if is_on b then on_char b else off_char b)"

definition draw :: "blink \<Rightarrow> (nat \<Rightarrow> u8) \<Rightarrow> nat \<Rightarrow> u8" where
  "draw b v = (if expired b then v(2 * unat (location b) := char_of (tick b)) else v)"

lemma is_on_flip: "is_on (b\<lparr>countdown := x, status := status b XOR 1\<rparr>) \<longleftrightarrow> \<not> is_on b"
proof -
  have "(w XOR 1) AND 1 \<noteq> 0 \<longleftrightarrow> w AND 1 = 0" for w :: u16
    by (simp add: and_one_eq odd_iff_mod_2_eq_one even_xor_iff mod2_eq_if)
  then show ?thesis by (simp add: is_on_def)
qed

lemma tick_fields [simp]:
  "location (tick b) = location b" "blink_next (tick b) = blink_next b" "on_char (tick b) = on_char b" "off_char (tick b) = off_char b"
  by (simp_all add: tick_def)

lemma tick_bare: "bare (tick b) = tick (bare b)" "draw (bare b) = draw b"
  by (auto simp: bare_def tick_def draw_def expired_def is_on_def char_of_def intro!: ext)

lemma blink_tick_eq:
  "blink_tick p b f = f\<lparr>blink_array := (blink_array f)[p := tick b], vmem := draw b (vmem f)\<rparr>"
proof -
  have "char_of (tick b) = (if is_on b then off_char b else on_char b)" if "expired b"
    using that by (simp add: char_of_def tick_def is_on_flip)
  then show ?thesis
    by (auto simp: blink_tick_def draw_def expired_def put_blink_def mp1_poke_def is_on_def tick_def Let_def)
qed

lemma tasklet_loop_run:
  assumes "path (blink_array f) x ps None" "distinct ps"
  shows "\<exists>f'. tasklet_loop x f = Some (Ret f') \<and> mp1_list_head f' = mp1_list_head f \<and> length (blink_array f') = length (blink_array f) \<and>
    (\<forall>q. q < length (blink_array f) \<longrightarrow> blink_array f' ! q = (if q \<in> set ps then tick (blink_array f ! q) else blink_array f ! q)) \<and>
    vmem f' = fold draw (map (\<lambda>p. blink_array f ! p) ps) (vmem f)"
  using assms
proof (induction ps arbitrary: x f)
  case Nil
  then show ?case by (subst tasklet_loop.simps) simp
next
  case (Cons p ps)
  let ?f = "blink_tick p (blink_array f ! p) f" and ?n = "blink_next (blink_array f ! p)"
  have p: "x = Some p" "p < length (blink_array f)" "p \<notin> set ps" using Cons.prems by auto
  have a: "blink_array ?f = (blink_array f)[p := tick (blink_array f ! p)]" "vmem ?f = draw (blink_array f ! p) (vmem f)"
      "mp1_list_head ?f = mp1_list_head f"
    by (simp_all add: blink_tick_eq)
  have "path (blink_array ?f) ?n ps None" "distinct ps" using Cons.prems a(1) p(3) by auto
  from Cons.IH[OF this] obtain f' where f': "tasklet_loop ?n ?f = Some (Ret f')" "mp1_list_head f' = mp1_list_head f"
      "length (blink_array f') = length (blink_array f)"
      "\<forall>q. q < length (blink_array f) \<longrightarrow> blink_array f' ! q = (if q \<in> set ps then tick (blink_array ?f ! q) else blink_array ?f ! q)"
      "vmem f' = fold draw (map (\<lambda>p. blink_array ?f ! p) ps) (vmem ?f)"
    using a by auto
  have "map (\<lambda>p. blink_array ?f ! p) ps = map (\<lambda>p. blink_array f ! p) ps" using a(1) p(3) by (intro map_cong refl) (metis nth_list_update_neq)
  from arg_cong[OF this, of "\<lambda>bs. fold draw bs (vmem ?f)"] have "vmem f' = fold draw (map (\<lambda>p. blink_array f ! p) (p # ps)) (vmem f)" using f'(5) a(2) by simp
  moreover have "tasklet_loop x f = Some (Ret f')" using p(1,2) f'(1) by (subst tasklet_loop.simps) simp
  ultimately show ?case using f' a(1) p by (intro exI[of _ f']) (auto simp: nth_list_update)
qed

lemma draw_contents: "fold draw (map (\<lambda>p. blink_array f ! p) ps) v = fold draw (contents f ps) v"
  by (induction ps arbitrary: v) (simp_all add: contents_def tick_bare)

lemma tasklet_list:
  assumes "blink_list f ps"
  shows "\<exists>f'. mp1_rtc_tasklet f = Some (Ret f') \<and> blink_list f' ps \<and> contents f' ps = map tick (contents f ps) \<and>
    vmem f' = fold draw (contents f ps) (vmem f)"
proof -
  have l: "length (blink_array f) = 2000" "path (blink_array f) (mp1_list_head f) ps None" "distinct ps"
    using assms by (auto simp: blink_list_def)
  obtain f' where f': "mp1_rtc_tasklet f = Some (Ret f')" "mp1_list_head f' = mp1_list_head f" "length (blink_array f') = 2000"
      "\<forall>q<2000. blink_array f' ! q = (if q \<in> set ps then tick (blink_array f ! q) else blink_array f ! q)"
      "vmem f' = fold draw (contents f ps) (vmem f)"
    using tasklet_loop_run[OF l(2,3)] l(1) by (auto simp: mp1_rtc_tasklet_def draw_contents)
  have "path (blink_array f') (mp1_list_head f') ps None"
    using l f' path_range[OF l(2)] by (subst path_keep_next[of ps _ "blink_array f"]) auto
  moreover have "\<forall>q<2000. location (blink_array f' ! q) \<noteq> 0 \<longleftrightarrow> q \<in> set ps"
    using assms f'(4) by (auto simp: blink_list_def)
  ultimately have "blink_list f' ps" using f'(3) l(3) by (simp add: blink_list_def)
  moreover have "contents f' ps = map tick (contents f ps)"
    using f'(4) blink_list_range[OF assms] by (simp add: contents_def tick_bare)
  ultimately show ?thesis using f' by blast
qed

section \<open>Every call keeps the list\<close>

text \<open>The calls on the contents of the list, success or not, as long as nothing is added at location 0.\<close>

definition list_add :: "blink \<Rightarrow> blink list \<Rightarrow> blink list" where
  "list_add b bs =
     (if location b < 2000 \<and> length bs < 2000 then bare (b\<lparr>status := 1, countdown := on_length b\<rparr>) # bs else bs)"

fun list_remove :: "u16 \<Rightarrow> blink list \<Rightarrow> blink list" where
  "list_remove x [] = []"
| "list_remove x (b # bs) = (if location b = x then bs else b # list_remove x bs)"

fun set_first :: "(blink \<Rightarrow> blink) \<Rightarrow> u16 \<Rightarrow> blink list \<Rightarrow> blink list" where
  "set_first g y [] = []"
| "set_first g y (b # bs) = (if location b = y then g b # bs else b # set_first g y bs)"

definition list_sync :: "u16 \<Rightarrow> u16 \<Rightarrow> blink list \<Rightarrow> blink list" where
  "list_sync x y bs =
     (case find (\<lambda>b. location b = x) bs of None \<Rightarrow> bs
      | Some a \<Rightarrow> set_first (\<lambda>b. b\<lparr>on_length := on_length a, off_length := off_length a, countdown := countdown a, status := status a\<rparr>) y bs)"

lemma bare_location [simp]: "location (bare b) = location b"
  by (simp add: bare_def)

lemma find_contents: "find (\<lambda>b. location b = x) (contents f ps) = map_option (\<lambda>p. bare (blink_array f ! p)) (find (\<lambda>p. location (blink_array f ! p) = x) ps)"
  by (induction ps) (simp_all add: contents_def)

lemma list_remove_contents:
  "\<forall>q\<in>set qs. location (blink_array f ! q) \<noteq> x \<Longrightarrow> location (blink_array f ! p) = x \<Longrightarrow>
    list_remove x (contents f (qs @ p # rs)) = contents f (qs @ rs)"
  by (induction qs) (simp_all add: contents_def)

lemma list_remove_none: "find (\<lambda>b. location b = x) bs = None \<Longrightarrow> list_remove x bs = bs"
  by (induction bs) (auto split: if_splits)

lemma set_first_none: "find (\<lambda>b. location b = x) bs = None \<Longrightarrow> set_first g x bs = bs"
  by (induction bs) (auto split: if_splits)

lemma set_first_contents:
  assumes "distinct ps" "find (\<lambda>p. location (blink_array f ! p) = y) ps = Some q"
  shows "set_first g y (contents f ps) = map (\<lambda>p. if p = q then g (bare (blink_array f ! p)) else bare (blink_array f ! p)) ps"
  using assms
proof (induction ps)
  case (Cons p ps)
  then show ?case by (cases "location (blink_array f ! p) = y") (auto simp: contents_def find_Some_iff)
qed simp

lemma add_keeps:
  assumes "blink_list f ps" "location b \<noteq> 0"
  shows "\<exists>r f' ps'. mp1_ioctl_add b f = Ret (r, f') \<and> blink_list f' ps' \<and> contents f' ps' = list_add b (contents f ps)"
proof (cases "location b < 2000 \<and> length ps < 2000")
  case True
  with add_list[OF assms(1) _ assms(2)] show ?thesis by (fastforce simp: list_add_def contents_def)
next
  case False
  have "mp1_malloc f = Ret None" if "\<not> length ps < 2000"
  proof -
    have "set ps \<subseteq> {..<2000}" "distinct ps" using assms(1) blink_list_range by (auto simp: blink_list_def)
    then have "set ps = {..<2000}" using that blink_list_length[OF assms(1)] by (intro card_subset_eq) (auto simp: distinct_card)
    then show ?thesis using mp1_malloc_list[OF assms(1)] by (simp add: find_None_iff)
  qed
  then have "mp1_ioctl_add b f = Ret (-1, f)" using False by (auto simp: mp1_ioctl_add_def)
  moreover have "list_add b (contents f ps) = contents f ps" using False by (auto simp: list_add_def contents_def)
  ultimately show ?thesis using assms(1) by auto
qed

lemma remove_keeps:
  assumes "blink_list f ps"
  shows "\<exists>r f' ps'. mp1_ioctl_remove x f = Some (Ret (r, f')) \<and> blink_list f' ps' \<and> contents f' ps' = list_remove x (contents f ps)"
proof (cases "find (\<lambda>p. location (blink_array f ! p) = x) ps")
  case None
  then have "list_remove x (contents f ps) = contents f ps" by (intro list_remove_none) (simp add: find_contents)
  with None show ?thesis using mp1_find_helper_list[OF assms, of x] assms by (auto simp: mp1_ioctl_remove_def)
next
  case (Some p)
  then obtain i where i: "i < length ps" "ps ! i = p" "location (blink_array f ! p) = x" "\<forall>j<i. location (blink_array f ! (ps ! j)) \<noteq> x"
    by (auto simp: find_Some_iff)
  have ps: "ps = take i ps @ p # drop (Suc i) ps" using id_take_nth_drop[OF i(1)] i(2) by simp
  moreover have before: "\<forall>q\<in>set (take i ps). location (blink_array f ! q) \<noteq> x" using i(1,4) by (auto simp: in_set_conv_nth) blast
  ultimately show ?thesis
    using remove_list[of f "take i ps" p "drop (Suc i) ps" x] assms i(3) list_remove_contents[OF before i(3)] by metis
qed

lemma sync_keeps:
  assumes "blink_list f ps"
  shows "\<exists>r f'. mp1_ioctl_sync n f = Some (Ret (r, f')) \<and> blink_list f' ps \<and>
    contents f' ps = list_sync (ucast (drop_bit 16 n)) (ucast (n AND 0xFFFF)) (contents f ps)"
proof -
  let ?fnd = "\<lambda>l. find (\<lambda>p. location (blink_array f ! p) = l) ps"
  note h = mp1_find_helper_list[OF assms]
  show ?thesis
  proof (cases "\<exists>a b. ?fnd (ucast (drop_bit 16 n)) = Some a \<and> ?fnd (ucast (n AND 0xFFFF)) = Some b")
    case False
    then have "mp1_ioctl_sync n f = Some (Ret (-1, f))"
      by (cases "?fnd (ucast (drop_bit 16 n))"; cases "?fnd (ucast (n AND 0xFFFF))") (auto simp: mp1_ioctl_sync_def h)
    moreover have "list_sync (ucast (drop_bit 16 n)) (ucast (n AND 0xFFFF)) (contents f ps) = contents f ps"
      using False set_first_none[of "ucast (n AND 0xFFFF)" "contents f ps"]
      by (cases "?fnd (ucast (drop_bit 16 n))"; cases "?fnd (ucast (n AND 0xFFFF))") (auto simp: list_sync_def find_contents)
    ultimately show ?thesis using assms by simp
  next
    case True
    then obtain a b where ab: "?fnd (ucast (drop_bit 16 n)) = Some a" "?fnd (ucast (n AND 0xFFFF)) = Some b" by blast
    define d where "d = (blink_array f ! b)\<lparr>on_length := on_length (blink_array f ! a), off_length := off_length (blink_array f ! a),
      countdown := countdown (blink_array f ! a), status := status (blink_array f ! a)\<rparr>"
    have same: "location d = location (blink_array f ! b)" "blink_next d = blink_next (blink_array f ! b)" by (simp_all add: d_def)
    let ?f = "mp1_poke (sync_char d) (2 * unat (location d)) (put_blink b d f)"
    have call: "mp1_ioctl_sync n f = Some (Ret (0, ?f))" using ab by (simp add: mp1_ioctl_sync_def h d_def Let_def)
    have "blink_next (blink_array ?f ! p) = blink_next (blink_array f ! p)" if "p \<in> set ps" for p
      using blink_list_range[OF assms that] same(2) assms by (cases "p = b") (auto simp: mp1_poke_def put_blink_def blink_list_def)
    then have "path (blink_array ?f) (mp1_list_head ?f) ps None"
      using assms by (subst path_keep_next[of ps _ "blink_array f"]) (auto simp: mp1_poke_def put_blink_def blink_list_def)
    moreover have "location (blink_array ?f ! p) = location (blink_array f ! p)" if "p < 2000" for p
      using that same(1) assms by (cases "p = b") (auto simp: mp1_poke_def put_blink_def blink_list_def)
    ultimately have "blink_list ?f ps" using assms by (simp add: blink_list_def) (simp add: mp1_poke_def put_blink_def)
    moreover have "contents ?f ps = map (\<lambda>p. if p = b then bare d else bare (blink_array f ! p)) ps"
      using blink_list_range[OF assms] assms by (auto simp: contents_def mp1_poke_def put_blink_def blink_list_def)
    then have "contents ?f ps = list_sync (ucast (drop_bit 16 n)) (ucast (n AND 0xFFFF)) (contents f ps)"
      using set_first_contents[OF _ ab(2)] assms ab(1)
      by (auto simp: list_sync_def find_contents blink_list_def bare_def d_def)
    ultimately show ?thesis using call by blast
  qed
qed

section \<open>What is on the screen\<close>

text \<open>Every structure of the list has its current character on the screen.\<close>

definition displayed :: "fish \<Rightarrow> nat list \<Rightarrow> bool" where
  "displayed f ps \<longleftrightarrow> (\<forall>b\<in>set (contents f ps). vmem f (2 * unat (location b)) = char_of b)"

lemma draw_elsewhere: "\<forall>b\<in>set bs. 2 * unat (location b) \<noteq> x \<Longrightarrow> fold draw bs v x = v x"
  by (induction bs arbitrary: v) (auto simp: draw_def)

lemma draw_all:
  assumes "distinct (map location bs)" "\<forall>b\<in>set bs. v (2 * unat (location b)) = char_of b"
  shows "\<forall>b\<in>set bs. fold draw bs v (2 * unat (location b)) = char_of (tick b)"
  using assms
proof (induction bs arbitrary: v)
  case (Cons a bs)
  have other: "unat (location b) \<noteq> unat (location a)" if "b \<in> set bs" for b
    using that Cons.prems(1) by (metis distinct.simps(2) image_eqI list.set_map list.simps(9) word_unat_eq_iff)
  then have "\<forall>b\<in>set bs. draw a v (2 * unat (location b)) = char_of b" using Cons.prems(2) by (auto simp: draw_def)
  with Cons have "\<forall>b\<in>set bs. fold draw (a # bs) v (2 * unat (location b)) = char_of (tick b)" by simp
  moreover have "fold draw (a # bs) v (2 * unat (location a)) = draw a v (2 * unat (location a))"
    using draw_elsewhere[of bs "2 * unat (location a)" "draw a v"] other by auto
  moreover have "draw a v (2 * unat (location a)) = char_of (tick a)"
    using Cons.prems(2) by (auto simp: draw_def tick_def char_of_def is_on_def)
  ultimately show ?case by auto
qed simp

section \<open>A structure at location 0\<close>

lemma tasklet_loop_self:
  assumes "p < length (blink_array f)" "blink_next (blink_array f ! p) = Some p"
  shows "tasklet_loop (Some p) f = None"
proof -
  have "\<not> (ebx = Some p \<and> p < length (blink_array g) \<and> blink_next (blink_array g ! p) = Some p)"
    if "tasklet_loop ebx g = Some y" for ebx g y
  proof (rule tasklet_loop.raw_induct[where P = "\<lambda>ebx g y. \<not> (ebx = Some p \<and> p < length (blink_array g) \<and> blink_next (blink_array g ! p) = Some p)", OF _ that])
    fix loop ebx g y
    assume IH: "\<And>ebx g y. loop ebx g = Some y \<Longrightarrow> \<not> (ebx = Some p \<and> p < length (blink_array g) \<and> blink_next (blink_array g ! p) = Some p)"
      and "(case ebx of None \<Rightarrow> Some (Ret g)
            | Some p \<Rightarrow> if p < length (blink_array g) then loop (blink_next (blink_array g ! p)) (blink_tick p (blink_array g ! p) g) else Some Undef) = Some y"
    then show "\<not> (ebx = Some p \<and> p < length (blink_array g) \<and> blink_next (blink_array g ! p) = Some p)"
      using IH[of "Some p" "blink_tick p (blink_array g ! p) g" y] by (auto simp: blink_tick_eq)
  qed
  with assms show ?thesis by (cases "tasklet_loop (Some p) f") auto
qed

lemma add_unfold:
  assumes "mp1_malloc f = Ret (Some p)" "location b < 2000"
  shows "mp1_ioctl_add b f = Ret (0, f\<lparr>blink_array := (blink_array f)[p := b\<lparr>status := 1, countdown := on_length b, blink_next := mp1_list_head f\<rparr>],
      mp1_list_head := Some p, vmem := (vmem f)(2 * unat (location b) := on_char b)\<rparr>)"
  using assms by (simp add: mp1_ioctl_add_def Let_def put_blink_def mp1_poke_def)

lemma malloc_after_zero:
  assumes "mp1_malloc f = Ret (Some p)" "location z = 0" "length (blink_array f) = 2000"
  shows "mp1_malloc (f\<lparr>blink_array := (blink_array f)[p := z]\<rparr>) = Ret (Some p)"
proof -
  have "find (\<lambda>i. location (blink_array f ! i) = 0) [0..<2000] = Some p" using assms(1,3) by (simp add: mp1_malloc_def)
  moreover have "p < 2000" using calculation by (auto simp: find_Some_iff)
  ultimately have "find (\<lambda>i. location ((blink_array f)[p := z] ! i) = 0) [0..<2000] = find (\<lambda>i. location (blink_array f ! i) = 0) [0..<2000]"
    using assms(2,3) by (intro find_cong) (auto simp: nth_list_update find_Some_iff)
  with assms(3) \<open>find _ _ = Some p\<close> show ?thesis by (simp add: mp1_malloc_def)
qed

section \<open>Properties\<close>

text \<open>
  C20: the tasklet ends on every list the program can build from structures at locations other than 0, and handles each structure
  of it exactly once, in order: its countdown is decremented and, when it has run out, the character is
  exchanged for the other one and the countdown restarts with the length for it. The list itself stays as
  it was. If no two structures share a location and each has its current character on the screen, each has it afterwards.
\<close>

theorem tasklet_ticks:
  assumes "blink_list f ps"
  shows "\<exists>f'. mp1_rtc_tasklet f = Some (Ret f') \<and> blink_list f' ps \<and> contents f' ps = map tick (contents f ps) \<and>
    (distinct (map location (contents f ps)) \<and> displayed f ps \<longrightarrow> displayed f' ps)"
proof -
  obtain f' where f': "mp1_rtc_tasklet f = Some (Ret f')" "blink_list f' ps" "contents f' ps = map tick (contents f ps)"
      "vmem f' = fold draw (contents f ps) (vmem f)" using tasklet_list[OF assms] by blast
  then show ?thesis using draw_all[of "contents f ps" "vmem f"] by (auto simp: displayed_def)
qed

definition demo_blink :: blink where
  "demo_blink = blank\<lparr>location := 100, on_char := 73, off_char := 77, on_length := 1, off_length := 6\<rparr>"

definition demo_fish :: fish where
  "demo_fish = \<lparr>blink_array = replicate 2000 blank, mp1_list_head = None, vmem = (\<lambda>_. 0)\<rparr>"

lemma demo_fish_list: "blink_list demo_fish []"
  by (simp add: blink_list_def demo_fish_def blank_def)

theorem tasklet_ticks_witness:
  "\<exists>f p f'. mp1_ioctl_add demo_blink demo_fish = Ret (0, f) \<and> mp1_rtc_tasklet f = Some (Ret f') \<and>
     contents f' [p] = [demo_blink\<lparr>countdown := 6\<rparr>] \<and> vmem f' 200 = 77"
proof -
  obtain p f where f: "mp1_ioctl_add demo_blink demo_fish = Ret (0, f)" "blink_list f [p]"
      "contents f [p] = [bare (demo_blink\<lparr>status := 1, countdown := 1\<rparr>)]" "vmem f = (vmem demo_fish)(200 := 73)"
    using add_list[OF demo_fish_list, of demo_blink] by (auto simp: demo_blink_def blank_def contents_def)
  have on: "is_on (bare (demo_blink\<lparr>status := 1, countdown := 1\<rparr>))" "expired (bare (demo_blink\<lparr>status := 1, countdown := 1\<rparr>))"
    by (simp_all add: is_on_def expired_def bare_def)
  have t: "tick (bare (demo_blink\<lparr>status := 1, countdown := 1\<rparr>)) = demo_blink\<lparr>countdown := 6\<rparr>"
    using on by (simp add: tick_def) (simp add: bare_def demo_blink_def blank_def)
  have "displayed f [p]" using f(3,4) on(1) by (simp add: displayed_def char_of_def) (simp add: bare_def demo_blink_def)
  then obtain f' where f': "mp1_rtc_tasklet f = Some (Ret f')" "contents f' [p] = [demo_blink\<lparr>countdown := 6\<rparr>]" "displayed f' [p]"
    using tasklet_ticks[OF f(2)] f(3) t by auto
  then have "vmem f' 200 = 77" by (simp add: displayed_def char_of_def is_on_def demo_blink_def blank_def)
  with f(1) f' show ?thesis by blast
qed

text \<open>
  C21: a structure that has been added is at the front of the list: it is the one found for its location, marked as on and with the
  countdown for it, and its character is on the screen; removing it gives the list of before and frees its
  place. This needs a location other than 0 and fewer than 80*25 structures.
\<close>

theorem blink_add_remove:
  assumes "blink_list f ps" "location b < 2000" "location b \<noteq> 0" "length ps < 2000"
  shows "\<exists>p f1 f2. mp1_ioctl_add b f = Ret (0, f1) \<and> blink_list f1 (p # ps) \<and>
    contents f1 (p # ps) = bare (b\<lparr>status := 1, countdown := on_length b\<rparr>) # contents f ps \<and> vmem f1 (2 * unat (location b)) = on_char b \<and>
    mp1_ioctl_find b f1 = Some (Ret (0, blink_array f1 ! p)) \<and>
    mp1_ioctl_remove (location b) f1 = Some (Ret (0, f2)) \<and> blink_list f2 ps \<and> contents f2 ps = contents f ps"
proof -
  obtain p f1 where f1: "mp1_ioctl_add b f = Ret (0, f1)" "blink_list f1 (p # ps)" "p \<notin> set ps"
      "contents f1 (p # ps) = bare (b\<lparr>status := 1, countdown := on_length b\<rparr>) # contents f ps"
      "vmem f1 = (vmem f)(2 * unat (location b) := on_char b)"
    using add_list[OF assms] by blast
  have "bare (blink_array f1 ! p) = bare (b\<lparr>status := 1, countdown := on_length b\<rparr>)" using f1(4) by (simp add: contents_def)
  from arg_cong[OF this, of location] have loc: "location (blink_array f1 ! p) = location b" by (simp add: bare_def)
  have "mp1_ioctl_find b f1 = Some (Ret (0, blink_array f1 ! p))"
    using mp1_find_helper_list[OF f1(2)] loc by (simp add: mp1_ioctl_find_def)
  moreover obtain f2 where "mp1_ioctl_remove (location b) f1 = Some (Ret (0, f2))" "blink_list f2 ps" "contents f2 ps = contents f1 ps"
    using remove_list[of f1 "[]" p ps] f1(2) loc by auto
  ultimately show ?thesis using f1 by (auto simp: contents_def intro!: exI[of _ p])
qed

theorem blink_add_remove_witness:
  "\<exists>f1 f2. mp1_ioctl_add demo_blink demo_fish = Ret (0, f1) \<and> mp1_ioctl_remove 100 f1 = Some (Ret (0, f2)) \<and> blink_list f2 []"
proof -
  have "location demo_blink = 100" by (simp add: demo_blink_def)
  then show ?thesis using blink_add_remove[OF demo_fish_list, of demo_blink] by auto
qed

text \<open>
  C38: a structure added at location 0 breaks the list: the next one to be added gets the same place and becomes its own successor, and
  the tasklet never returns.
\<close>

theorem blink_zero_hangs:
  assumes "blink_list f ps" "length ps < 2000" "location z = 0" "location b < 2000"
  shows "\<exists>f1 f2. mp1_ioctl_add z f = Ret (0, f1) \<and> mp1_ioctl_add b f1 = Ret (0, f2) \<and> mp1_rtc_tasklet f2 = None"
proof -
  have "\<not> {..<2000} \<subseteq> set ps" using assms(2) card_mono[of "set ps" "{..<2000 :: nat}"] card_length[of ps] by auto
  then obtain p where p: "mp1_malloc f = Ret (Some p)" "p < 2000"
    using mp1_malloc_list[OF assms(1)] by (cases "find (\<lambda>p. p \<notin> set ps) [0..<2000]") (auto simp: find_None_iff find_Some_iff)
  have len: "length (blink_array f) = 2000" using assms(1) by (simp add: blink_list_def)
  let ?z = "z\<lparr>status := 1, countdown := on_length z, blink_next := mp1_list_head f\<rparr>"
  let ?f1 = "f\<lparr>blink_array := (blink_array f)[p := ?z], mp1_list_head := Some p, vmem := (vmem f)(2 * unat (location z) := on_char z)\<rparr>"
  have a1: "mp1_ioctl_add z f = Ret (0, ?f1)" using add_unfold[OF p(1), of z] assms(3) by simp
  have "mp1_malloc ?f1 = mp1_malloc (f\<lparr>blink_array := (blink_array f)[p := ?z]\<rparr>)" by (simp add: mp1_malloc_def)
  then have m1: "mp1_malloc ?f1 = Ret (Some p)" using malloc_after_zero[OF p(1), of ?z] assms(3) len by simp
  from add_unfold[OF m1 assms(4)] obtain f2 where f2: "mp1_ioctl_add b ?f1 = Ret (0, f2)" "mp1_list_head f2 = Some p"
      "p < length (blink_array f2)" "blink_next (blink_array f2 ! p) = Some p"
    using p(2) len by auto
  then have "mp1_rtc_tasklet f2 = None" using tasklet_loop_self by (simp add: mp1_rtc_tasklet_def)
  with a1 f2(1) show ?thesis by blast
qed

theorem blink_zero_hangs_witness:
  "\<exists>f1 f2. mp1_ioctl_add blank demo_fish = Ret (0, f1) \<and> mp1_ioctl_add demo_blink f1 = Ret (0, f2) \<and> mp1_rtc_tasklet f2 = None"
  using blink_zero_hangs[OF demo_fish_list, of blank demo_blink] by (simp add: blank_def demo_blink_def)

text \<open>
  Synchronising two structures shows the second one's character for off, also when it is on now.
\<close>

lemma sync_shows_off: "sync_char b = off_char b"
proof -
  have "(w AND 1 :: u8) = 0 \<or> (w AND 1 :: u8) = 1" for w :: u8 by (simp add: and_one_eq mod2_eq_if)
  from this[of "ucast (status b)"] show ?thesis by (auto simp: sync_char_def)
qed

end
