(* ===== verification/Fish.thy ===== *)
theory Fish
  imports Apart Wellformed Blink
begin

text \<open>
  The program \<open>fish\<close> of \<open>fish.c\<close> on the system calls and the blink list: it reads two frames of a
  picture from files, adds a blinking character for every place where one of them has ink, and lets them
  blink with the real-time clock. Its loops follow the files and the list, so they are partial functions, \<open>None\<close> when they never
  end; \<open>add_frames\<close> is shown to end and to add exactly the characters of the two frames.
\<close>

section \<open>The program\<close>

text \<open>\<open>vidmap\<close> stores the address of video memory at \<open>vmem_base_addr\<close>, whose own address is the argument.\<close>

definition mp1_set_video_mode :: "'s calls \<Rightarrow> u32 \<Rightarrow> 's user \<Rightarrow> (u32 \<times> 's user) outcome" where
  "mp1_set_video_mode c vmem_base_addr u =
     obind (ece391_vidmap c vmem_base_addr u) (\<lambda>(r, v, u1). Ret (if r = -1 then 0 else v, u1))"

lemma lbind_mono [partial_function_mono]:
  assumes "mono_option B" "\<And>y. mono_option (\<lambda>f. C y f)"
  shows "mono_option (\<lambda>f. lbind (B f) (\<lambda>y. C y f))"
  unfolding lbind_def
proof (rule bind_mono[OF assms(1)])
  fix r
  show "mono_option (\<lambda>f. case r of Ret x \<Rightarrow> C x f | Hang t \<Rightarrow> Some (Hang t) | Undef \<Rightarrow> Some Undef)"
    using assms(2) by (cases r) (auto intro: partial_function_mono)
qed

text \<open>One character of a frame, unless its line has ended: at the end of the file the line ends too.\<close>

definition frame_char :: "'s calls \<Rightarrow> int \<Rightarrow> u8 \<Rightarrow> bool \<Rightarrow> 's user \<Rightarrow> (u8 \<times> bool \<times> 's user) outcome" where
  "frame_char c des x eof u =
     (if x \<noteq> 10
      then obind (ece391_read c des [x] 1 u) (\<lambda>(num_bytes, b, u1). obind (buf_get b 0) (\<lambda>x1.
           Ret (if num_bytes = 0 then (10, True, u1) else (x1, eof, u1))))
      else Ret (x, eof, u))"

definition inked :: "u8 \<Rightarrow> u8 \<Rightarrow> bool" where
  "inked c0 c1 \<longleftrightarrow> (c0 \<noteq> 32 \<and> c0 \<noteq> 10) \<or> (c1 \<noteq> 32 \<and> c1 \<noteq> 10)"

definition frame_blink :: "int \<Rightarrow> int \<Rightarrow> u8 \<Rightarrow> u8 \<Rightarrow> blink \<Rightarrow> blink" where
  "frame_blink row col c0 c1 b =
     b\<lparr>on_char := (if c0 = 10 then 32 else c0), off_char := (if c1 = 10 then 32 else c1),
       location := word_of_int (row * 80 + col + 40)\<rparr>"

partial_function (option) frame_row ::
  "'s calls \<Rightarrow> int \<Rightarrow> int \<Rightarrow> int \<Rightarrow> int \<Rightarrow> blink \<Rightarrow> u8 \<times> bool \<Rightarrow> u8 \<times> bool \<Rightarrow> 's user \<Rightarrow> fish \<Rightarrow> (bool \<times> bool \<times> blink \<times> 's user \<times> fish) outcome option" where
  "frame_row c fd0 fd1 row col b p0 p1 u f =
     lbind (Some (frame_char c fd0 (fst p0) (snd p0) u)) (\<lambda>(c0, eof0, u1).
     lbind (Some (frame_char c fd1 (fst p1) (snd p1) u1)) (\<lambda>(c1, eof1, u2).
     if c0 = 10 \<and> c1 = 10 then Some (Ret (eof0, eof1, b, u2, f))
     else if inked c0 c1
     then lbind (mp1_ioctl (Ptr (frame_blink row col c0 c1 b)) 0 f) (\<lambda>(_, _, f1).
          frame_row c fd0 fd1 row (col + 1) (frame_blink row col c0 c1 b) (c0, eof0) (c1, eof1) u2 f1)
     else frame_row c fd0 fd1 row (col + 1) b (c0, eof0) (c1, eof1) u2 f))"

text \<open>After a row: a file at its end is closed and has no more characters, the other one goes on.\<close>

definition row_end :: "'s calls \<Rightarrow> int \<Rightarrow> bool \<Rightarrow> 's user \<Rightarrow> (u8 \<times> 's user) outcome" where
  "row_end c des eof u = (if eof then obind (ece391_close c des u) (\<lambda>(_, u1). Ret (10, u1)) else Ret (48, u))"

partial_function (option) frame_rows ::
  "'s calls \<Rightarrow> int \<Rightarrow> int \<Rightarrow> int \<Rightarrow> blink \<Rightarrow> u8 \<times> bool \<Rightarrow> u8 \<times> bool \<Rightarrow> 's user \<Rightarrow> fish \<Rightarrow> ('s user \<times> fish) outcome option" where
  "frame_rows c fd0 fd1 row b p0 p1 u f =
     (if snd p0 \<and> snd p1 then Some (Ret (u, f))
      else lbind (frame_row c fd0 fd1 row 0 b p0 p1 u f) (\<lambda>(eof0, eof1, b1, u1, f1).
           lbind (Some (row_end c fd0 eof0 u1)) (\<lambda>(c0, u2).
           lbind (Some (row_end c fd1 eof1 u2)) (\<lambda>(c1, u3).
           frame_rows c fd0 fd1 (row + 1) b1 (c0, eof0) (c1, eof1) u3 f1))))"

text \<open>
  The first part of the result is the status the program is halted with, if it is. The structure on the stack is not initialised: it is
  the argument \<open>b\<close>.
\<close>

definition add_frames :: "'s calls \<Rightarrow> u8 list \<Rightarrow> u8 list \<Rightarrow> blink \<Rightarrow> 's user \<Rightarrow> fish \<Rightarrow> (u8 option \<times> 's user \<times> fish) outcome option" where
  "add_frames c f0 f1 b u f =
     lbind (Some (ece391_open c f0 u)) (\<lambda>(fd0, u1).
     if fd0 < 0 then Some (Ret (Some (-1), u1, f))
     else lbind (Some (ece391_open c f1 u1)) (\<lambda>(fd1, u2).
     if fd1 < 0 then Some (Ret (Some (-1), u2, f))
     else lbind (frame_rows c fd0 fd1 0 (b\<lparr>on_length := 15, off_length := 15\<rparr>) (48, False) (48, False) u2 f) (\<lambda>(u3, f1).
          Some (Ret (None, u3, f1)))))"

fun blink_wait :: "'s calls \<Rightarrow> int \<Rightarrow> nat \<Rightarrow> u8 list \<Rightarrow> 's user \<Rightarrow> fish \<Rightarrow> (u8 list \<times> 's user \<times> fish) outcome option" where
  "blink_wait c rtc_fd 0 garbage u f = Some (Ret (garbage, u, f))"
| "blink_wait c rtc_fd (Suc n) garbage u f =
     lbind (Some (ece391_read c rtc_fd garbage 4 u)) (\<lambda>(_, garbage1, u1).
     lbind (mp1_rtc_tasklet f) (\<lambda>f1. blink_wait c rtc_fd n garbage1 u1 f1))"

text \<open>The status is what \<open>main\<close> returns, or what the program is halted with.\<close>

definition fish_main :: "'s calls \<Rightarrow> u32 \<Rightarrow> blink \<Rightarrow> blink \<Rightarrow> u8 list \<Rightarrow> 's user \<Rightarrow> fish \<Rightarrow> (int \<times> 's user \<times> fish) outcome option" where
  "fish_main c vmem_base_addr b0 b1 garbage u f =
     lbind (Some (mp1_set_video_mode c vmem_base_addr u)) (\<lambda>(v, u1).
     let f1 = f\<lparr>blink_array := replicate (80 * 25) blank\<rparr> in
     if v = 0 then Some (Ret (-1, u1, f1))
     else lbind (Some (ece391_open c (lit ''rtc'') u1)) (\<lambda>(rtc_fd, u2).
     lbind (add_frames c (lit ''frame0.txt'') (lit ''frame1.txt'') b0 u2 f1) (\<lambda>(h, u3, f2).
     case h of Some st \<Rightarrow> Some (Ret (int (unat st), u3, f2))
     | None \<Rightarrow>
       lbind (Some (ece391_write c rtc_fd [32, 0, 0, 0] 4 u3)) (\<lambda>(_, u4).
       lbind (blink_wait c rtc_fd 200 garbage u4 f2) (\<lambda>(garbage, u5, f3).
       let b2 = b1\<lparr>on_char := 73, off_char := 77, on_length := 7, off_length := 6, location := 6 * 80 + 60\<rparr> in
       lbind (mp1_ioctl (Ptr b2) 0 f3) (\<lambda>(_, _, f4).
       lbind (blink_wait c rtc_fd 200 garbage u5 f4) (\<lambda>(garbage, u6, f5).
       lbind (mp1_ioctl (Num (push_bit 16 40 OR (6 * 80 + 60))) 3 f5) (\<lambda>(_, _, f6).
       lbind (blink_wait c rtc_fd 200 garbage u6 f6) (\<lambda>(garbage, u7, f7).
       lbind (mp1_ioctl (Num 200) 1 f7) (\<lambda>(_, _, f8).
       lbind (blink_wait c rtc_fd (80 * 25) garbage u7 f8) (\<lambda>(_, u8, f9).
       lbind (Some (ece391_close c rtc_fd u8)) (\<lambda>(_, u9). Some (Ret (0, u9, f9))))))))))))))"

section \<open>What two frames show\<close>

text \<open>
  The places of a line where one of two frames has ink, with the characters of both, and the places of
  two frames, given by their lines: a frame that has ended, in a line or at all, has spaces.
\<close>

definition first_char :: "u8 list \<Rightarrow> u8" where
  "first_char l = (case l of [] \<Rightarrow> 32 | x # _ \<Rightarrow> x)"

definition first_line :: "u8 list list \<Rightarrow> u8 list" where
  "first_line ls = (case ls of [] \<Rightarrow> [] | l # _ \<Rightarrow> l)"

function line_cells :: "int \<Rightarrow> u8 list \<Rightarrow> u8 list \<Rightarrow> (int \<times> u8 \<times> u8) list" where
  "line_cells loc l0 l1 =
     (if l0 = [] \<and> l1 = [] then []
      else (if first_char l0 = 32 \<and> first_char l1 = 32 then [] else [(loc, first_char l0, first_char l1)]) @ line_cells (loc + 1) (tl l0) (tl l1))"
  by pat_completeness auto
termination
  by (relation "measure (\<lambda>(_, l0, l1). length l0 + length l1)") (auto simp: neq_Nil_conv)

function frame_cells :: "int \<Rightarrow> u8 list list \<Rightarrow> u8 list list \<Rightarrow> (int \<times> u8 \<times> u8) list" where
  "frame_cells row ls0 ls1 =
     (if ls0 = [] \<and> ls1 = [] then [] else line_cells (row * 80 + 40) (first_line ls0) (first_line ls1) @ frame_cells (row + 1) (tl ls0) (tl ls1))"
  by pat_completeness auto
termination
  by (relation "measure (\<lambda>(_, ls0, ls1). length ls0 + length ls1)") (auto simp: neq_Nil_conv)

declare line_cells.simps [simp del] frame_cells.simps [simp del]

text \<open>What a place becomes on the list, what is shown when it is added, and the effect of adding several.\<close>

definition cell_blink :: "int \<times> u8 \<times> u8 \<Rightarrow> blink" where
  "cell_blink = (\<lambda>(loc, c0, c1). \<lparr>location = word_of_int loc, on_char = c0, off_char = c1, on_length = 15, off_length = 15, countdown = 15,
     status = 1, blink_next = None\<rparr>)"

definition show_cell :: "int \<times> u8 \<times> u8 \<Rightarrow> (nat \<Rightarrow> u8) \<Rightarrow> nat \<Rightarrow> u8" where
  "show_cell = (\<lambda>(loc, c0, _) v. v(2 * nat loc := c0))"

definition added :: "fish \<Rightarrow> nat list \<Rightarrow> (int \<times> u8 \<times> u8) list \<Rightarrow> fish \<Rightarrow> nat list \<Rightarrow> bool" where
  "added f ps cs f' ps' \<longleftrightarrow> blink_list f' ps' \<and> contents f' ps' = rev (map cell_blink cs) @ contents f ps \<and> vmem f' = fold show_cell cs (vmem f)"

definition cells_fit :: "nat list \<Rightarrow> (int \<times> u8 \<times> u8) list \<Rightarrow> bool" where
  "cells_fit ps cs \<longleftrightarrow> (\<forall>(loc, _, _)\<in>set cs. 0 < loc \<and> loc < 2000) \<and> length ps + length cs \<le> 2000"

lemma added_trans: "added f ps cs f1 ps1 \<Longrightarrow> added f1 ps1 cs1 f2 ps2 \<Longrightarrow> added f ps (cs @ cs1) f2 ps2"
  by (simp add: added_def)

lemma added_length: "added f ps cs f' ps' \<Longrightarrow> length ps' = length ps + length cs"
  unfolding added_def by (metis contents_def length_append length_map length_rev add.commute)

lemma cells_fit_append: "cells_fit ps (cs @ cs1) \<Longrightarrow> added f ps cs f1 ps1 \<Longrightarrow> cells_fit ps cs \<and> cells_fit ps1 cs1"
  using added_length[of f ps cs f1 ps1] by (auto simp: cells_fit_def)

lemma add_cell:
  assumes "blink_list f ps" "cells_fit ps [(loc, x, y)]" "on_length b = 15" "off_length b = 15"
  shows "\<exists>f1 ps1. mp1_ioctl (Ptr (b\<lparr>on_char := x, off_char := y, location := word_of_int loc\<rparr>)) 0 f =
      Some (Ret (0, Ptr (b\<lparr>on_char := x, off_char := y, location := word_of_int loc\<rparr>), f1)) \<and> added f ps [(loc, x, y)] f1 ps1"
proof -
  let ?b = "b\<lparr>on_char := x, off_char := y, location := word_of_int loc\<rparr>"
  have loc: "0 < loc" "loc < 2000" "length ps < 2000" using assms(2) by (auto simp: cells_fit_def)
  then have u: "uint (word_of_int loc :: u16) = loc" by (simp add: uint_word_of_int)
  then have n: "unat (word_of_int loc :: u16) = nat loc" by (metis unat_eq_nat_uint)
  have "location ?b < 2000" "location ?b \<noteq> 0" using u loc by (auto simp: word_less_def word_uint_eq_iff)
  from add_list[OF assms(1) this loc(3)] obtain p f1 where
    f1: "mp1_ioctl_add ?b f = Ret (0, f1)" "blink_list f1 (p # ps)"
      "contents f1 (p # ps) = bare (?b\<lparr>status := 1, countdown := on_length ?b\<rparr>) # contents f ps"
      "vmem f1 = (vmem f)(2 * unat (location ?b) := on_char ?b)" by blast
  have "bare (?b\<lparr>status := 1, countdown := on_length ?b\<rparr>) = cell_blink (loc, x, y)"
    using assms(3,4) by (simp add: bare_def cell_blink_def)
  then have "added f ps [(loc, x, y)] f1 (p # ps)" using f1(2-4) n by (simp add: added_def show_cell_def)
  with f1(1) show ?thesis by (auto simp: mp1_ioctl_def)
qed

section \<open>Two files that are read\<close>

text \<open>
  The contract: the open descriptors and the text that each has still to give; a descriptor can be read byte by
  byte without disturbing the others, and those of \<open>ds\<close> can be closed.
\<close>

locale text_files =
  fixes c :: "'s calls" and ds :: "int set" and reading :: "(int \<rightharpoonup> u8 list) \<Rightarrow> 's \<Rightarrow> bool"
  assumes read_byte: "reading g s \<Longrightarrow> g d = Some t \<Longrightarrow>
      \<exists>s'. sys_read c d [x] 1 s = Ret (case t of [] \<Rightarrow> (0, [x], s') | y # _ \<Rightarrow> (1, [y], s')) \<and> reading (g(d \<mapsto> tl t)) s'"
    and close_file: "reading g s \<Longrightarrow> d \<in> ds \<Longrightarrow> \<exists>r s'. sys_close c d s = Ret (r, s') \<and> reading (g(d := None)) s'"

text \<open>In a row: \<open>l\<close> is what is left of the line, \<open>ls\<close> are the lines after it.\<close>

definition in_line :: "(int \<rightharpoonup> u8 list) \<Rightarrow> int \<Rightarrow> u8 \<times> bool \<Rightarrow> u8 list \<Rightarrow> u8 list list \<Rightarrow> bool" where
  "in_line g d = (\<lambda>(x, eof) l ls.
     if x = 10 then l = [] \<and> (if eof then ls = [] else \<exists>t. g d = Some t \<and> ls = text_lines t)
     else \<not> eof \<and> (\<exists>t. g d = Some t \<and> text_lines t = l # ls))"

lemma in_line_other: "d \<noteq> e \<Longrightarrow> in_line (g(e := v)) d p l ls = in_line g d p l ls"
  by (simp add: in_line_def split: prod.splits)

context text_files
begin

lemma frame_char_step:
  assumes "reading g s" "in_line g d (x, e) l ls"
  shows "\<exists>x1 e1 v s1. frame_char c d x e (s, log) = Ret (x1, e1, s1, log) \<and> reading (g(d := v)) s1 \<and>
    in_line (g(d := v)) d (x1, e1) (tl l) ls \<and> x1 = (if l = [] then 10 else hd l) \<and> 10 \<notin> set (take 1 l)"
proof (cases "x = 10")
  case True
  have "g(d := g d) = g" by simp
  with assms True show ?thesis
    by (intro exI[of _ 10] exI[of _ e] exI[of _ "g d"] exI[of _ s]) (auto simp: frame_char_def in_line_def)
next
  case False
  then obtain t where t: "g d = Some t" "text_lines t = l # ls" "\<not> e" using assms(2) by (auto simp: in_line_def)
  obtain s1 where s1: "sys_read c d [x] 1 s = Ret (case t of [] \<Rightarrow> (0, [x], s1) | y # _ \<Rightarrow> (1, [y], s1))" "reading (g(d \<mapsto> tl t)) s1"
    using read_byte[OF assms(1) t(1)] by blast
  show ?thesis
  proof (cases t)
    case Nil
    then show ?thesis using s1 t False
      by (intro exI[of _ 10] exI[of _ True] exI[of _ "Some (tl t)"] exI[of _ s1]) (auto simp: frame_char_def ece391_read_def in_line_def buf_get_def)
  next
    case (Cons y t')
    then show ?thesis using s1 t False
      by (intro exI[of _ y] exI[of _ False] exI[of _ "Some (tl t)"] exI[of _ s1])
        (auto simp: frame_char_def ece391_read_def in_line_def buf_get_def split: if_splits list.splits)
  qed
qed

lemma frame_row_run:
  assumes "reading g s" "in_line g fd0 p0 l0 ls0" "in_line g fd1 p1 l1 ls1" "fd0 \<noteq> fd1" "blink_list f ps"
    and "cells_fit ps (line_cells (row * 80 + col + 40) l0 l1)" "on_length b = 15" "off_length b = 15"
  shows "\<exists>e0 e1 b' s' g' f' ps'. frame_row c fd0 fd1 row col b p0 p1 (s, log) f = Some (Ret (e0, e1, b', (s', log), f')) \<and>
    reading g' s' \<and> in_line g' fd0 (10, e0) [] ls0 \<and> in_line g' fd1 (10, e1) [] ls1 \<and> on_length b' = 15 \<and> off_length b' = 15 \<and>
    added f ps (line_cells (row * 80 + col + 40) l0 l1) f' ps'"
  using assms
proof (induction "length l0 + length l1" arbitrary: g s p0 p1 l0 l1 f ps col b rule: less_induct)
  case less
  let ?cs = "line_cells (row * 80 + col + 40) l0 l1" and ?cs1 = "line_cells (row * 80 + (col + 1) + 40) (tl l0) (tl l1)"
  obtain c0 e0 v s1 where s1: "frame_char c fd0 (fst p0) (snd p0) (s, log) = Ret (c0, e0, s1, log)" "reading (g(fd0 := v)) s1"
      "in_line (g(fd0 := v)) fd0 (c0, e0) (tl l0) ls0" "c0 = (if l0 = [] then 10 else hd l0)" "10 \<notin> set (take 1 l0)"
    using frame_char_step[of g s fd0 "fst p0" "snd p0" l0 ls0 log] less.prems(1,2) by auto
  have "in_line (g(fd0 := v)) fd1 (fst p1, snd p1) l1 ls1" using less.prems(3,4) by (simp add: in_line_other)
  then obtain c1 e1 w s2 where s2: "frame_char c fd1 (fst p1) (snd p1) (s1, log) = Ret (c1, e1, s2, log)" "reading (g(fd0 := v, fd1 := w)) s2"
      "in_line (g(fd0 := v, fd1 := w)) fd1 (c1, e1) (tl l1) ls1" "c1 = (if l1 = [] then 10 else hd l1)" "10 \<notin> set (take 1 l1)"
    using frame_char_step[OF s1(2), of fd1 "fst p1" "snd p1" l1 ls1 log] by auto
  let ?g = "g(fd0 := v, fd1 := w)"
  have l0: "in_line ?g fd0 (c0, e0) (tl l0) ls0" using s1(3) less.prems(4) by (simp add: in_line_other)
  have ends: "c0 = 10 \<longleftrightarrow> l0 = []" "c1 = 10 \<longleftrightarrow> l1 = []" using s1(4,5) s2(4,5) by (cases l0; cases l1; auto)+
  show ?case
  proof (cases "l0 = [] \<and> l1 = []")
    case True
    then have "frame_row c fd0 fd1 row col b p0 p1 (s, log) f = Some (Ret (e0, e1, b, (s2, log), f))"
      using s1(1) s2(1) ends by (subst frame_row.simps) simp
    moreover have "added f ps ?cs f ps" using True less.prems(5) by (simp add: line_cells.simps added_def)
    ultimately show ?thesis using s2(2,3) l0 True ends less.prems(7,8) by auto
  next
    case False
    have ink: "inked c0 c1 \<longleftrightarrow> \<not> (first_char l0 = 32 \<and> first_char l1 = 32)"
      using s1(4,5) s2(4,5) by (cases l0; cases l1) (auto simp: inked_def first_char_def)
    have bl: "frame_blink row col c0 c1 b = b\<lparr>on_char := first_char l0, off_char := first_char l1, location := word_of_int (row * 80 + col + 40)\<rparr>"
      using s1(4,5) s2(4,5) by (cases l0; cases l1) (auto simp: frame_blink_def first_char_def)
    define now where "now = (if inked c0 c1 then [(row * 80 + col + 40, first_char l0, first_char l1)] else [])"
    have cs: "?cs = now @ ?cs1" using False ink by (subst line_cells.simps) (auto simp: now_def ac_simps)
    have step: "\<exists>b1 f1 ps1. frame_row c fd0 fd1 row col b p0 p1 (s, log) f = frame_row c fd0 fd1 row (col + 1) b1 (c0, e0) (c1, e1) (s2, log) f1 \<and>
        on_length b1 = 15 \<and> off_length b1 = 15 \<and> added f ps now f1 ps1"
    proof (cases "inked c0 c1")
      case True
      then have "cells_fit ps [(row * 80 + col + 40, first_char l0, first_char l1)]"
        using less.prems(6) by (auto simp: cs now_def cells_fit_def)
      from add_cell[OF less.prems(5) this less.prems(7,8)] obtain f1 ps1 where
        "mp1_ioctl (Ptr (frame_blink row col c0 c1 b)) 0 f = Some (Ret (0, Ptr (frame_blink row col c0 c1 b), f1))" "added f ps now f1 ps1"
        unfolding bl now_def using True by auto
      moreover have "on_length (frame_blink row col c0 c1 b) = 15" "off_length (frame_blink row col c0 c1 b) = 15"
        using less.prems(7,8) by (simp_all add: frame_blink_def)
      ultimately show ?thesis using s1(1) s2(1) False ends True
        by (intro exI[of _ "frame_blink row col c0 c1 b"] exI[of _ f1] exI[of _ ps1]) (subst frame_row.simps, auto)
    next
      case no: False
      then have "added f ps now f ps" using less.prems(5) by (simp add: now_def added_def)
      then show ?thesis using s1(1) s2(1) False ends no less.prems(7,8) by (subst frame_row.simps) auto
    qed
    then obtain b1 f1 ps1 where n: "frame_row c fd0 fd1 row col b p0 p1 (s, log) f = frame_row c fd0 fd1 row (col + 1) b1 (c0, e0) (c1, e1) (s2, log) f1"
        "on_length b1 = 15" "off_length b1 = 15" "added f ps now f1 ps1" by blast
    have fit: "cells_fit ps1 ?cs1" using cells_fit_append[OF _ n(4)] less.prems(6) cs by simp
    have small: "length (tl l0) + length (tl l1) < length l0 + length l1" using False by (cases l0; cases l1) auto
    have "blink_list f1 ps1" using n(4) by (simp add: added_def)
    from less.hyps[OF small s2(2) l0 s2(3) less.prems(4) this fit n(2,3)]
    obtain e0' e1' b' s' g' f' ps' where
      r: "frame_row c fd0 fd1 row (col + 1) b1 (c0, e0) (c1, e1) (s2, log) f1 = Some (Ret (e0', e1', b', (s', log), f'))"
        "reading g' s'" "in_line g' fd0 (10, e0') [] ls0" "in_line g' fd1 (10, e1') [] ls1" "on_length b' = 15" "off_length b' = 15"
        "added f1 ps1 ?cs1 f' ps'" by blast
    have "added f ps ?cs f' ps'" using added_trans[OF n(4) r(7)] cs by simp
    with n(1) r(1-6) show ?thesis by auto
  qed
qed

end

text \<open>At the start of a row: \<open>ls\<close> are the lines of a file that are left, none when it has been closed.\<close>

definition at_row :: "(int \<rightharpoonup> u8 list) \<Rightarrow> int \<Rightarrow> u8 \<times> bool \<Rightarrow> u8 list list \<Rightarrow> bool" where
  "at_row g d p ls \<longleftrightarrow> p = (48, False) \<and> (\<exists>t. g d = Some t \<and> ls = text_lines t) \<or> p = (10, True) \<and> ls = []"

lemma at_row_in_line: "at_row g d p ls \<Longrightarrow> in_line g d p (first_line ls) (tl ls)"
  by (auto simp: at_row_def in_line_def first_line_def split: list.splits)

lemma at_row_other: "d \<noteq> e \<Longrightarrow> at_row (g(e := v)) d p ls = at_row g d p ls"
  by (simp add: at_row_def)

lemma at_row_eof: "at_row g d p ls \<Longrightarrow> snd p \<longleftrightarrow> ls = []"
  by (auto simp: at_row_def)

context text_files
begin

lemma row_end_run:
  assumes "reading g s" "in_line g d (10, e) [] ls" "d \<in> ds"
  shows "\<exists>x v s1. row_end c d e (s, log) = Ret (x, s1, log) \<and> reading (g(d := v)) s1 \<and> at_row (g(d := v)) d (x, e) ls"
proof (cases e)
  case True
  obtain r s1 where "ece391_close c d (s, log) = Ret (r, s1, log)" "reading (g(d := None)) s1"
    using close_file[OF assms(1,3)] by (auto simp: ece391_close_def)
  with True assms(2) show ?thesis by (auto simp: row_end_def at_row_def in_line_def)
next
  case False
  have "g(d := g d) = g" by simp
  with False assms show ?thesis by (intro exI[of _ 48] exI[of _ "g d"] exI[of _ s]) (auto simp: row_end_def at_row_def in_line_def)
qed

lemma frame_rows_run:
  assumes "reading g s" "at_row g fd0 p0 ls0" "at_row g fd1 p1 ls1" "fd0 \<noteq> fd1" "blink_list f ps"
    and "cells_fit ps (frame_cells row ls0 ls1)" "on_length b = 15" "off_length b = 15" "fd0 \<in> ds" "fd1 \<in> ds"
  shows "\<exists>s' g' f' ps'. frame_rows c fd0 fd1 row b p0 p1 (s, log) f = Some (Ret ((s', log), f')) \<and> reading g' s' \<and> added f ps (frame_cells row ls0 ls1) f' ps'"
  using assms
proof (induction "length ls0 + length ls1" arbitrary: g s p0 p1 ls0 ls1 f ps row b rule: less_induct)
  case less
  note eof = at_row_eof[OF less.prems(2)] at_row_eof[OF less.prems(3)]
  show ?case
  proof (cases "ls0 = [] \<and> ls1 = []")
    case True
    then show ?thesis using less.prems(1,5) eof by (subst frame_rows.simps) (auto simp: frame_cells.simps added_def)
  next
    case False
    let ?now = "line_cells (row * 80 + 40) (first_line ls0) (first_line ls1)" and ?rest = "frame_cells (row + 1) (tl ls0) (tl ls1)"
    have cs: "frame_cells row ls0 ls1 = ?now @ ?rest" using False by (subst frame_cells.simps) auto
    have "cells_fit ps (line_cells (row * 80 + 0 + 40) (first_line ls0) (first_line ls1))"
      using less.prems(6) unfolding cs by (auto simp: cells_fit_def)
    from frame_row_run[OF less.prems(1) at_row_in_line[OF less.prems(2)] at_row_in_line[OF less.prems(3)] less.prems(4,5) this less.prems(7,8), of log]
    obtain e0 e1 b1 s1 g1 f1 ps1 where
      r: "frame_row c fd0 fd1 row 0 b p0 p1 (s, log) f = Some (Ret (e0, e1, b1, (s1, log), f1))" "reading g1 s1"
        "in_line g1 fd0 (10, e0) [] (tl ls0)" "in_line g1 fd1 (10, e1) [] (tl ls1)" "on_length b1 = 15" "off_length b1 = 15" "added f ps ?now f1 ps1"
      by auto
    obtain x0 v s2 where s2: "row_end c fd0 e0 (s1, log) = Ret (x0, s2, log)" "reading (g1(fd0 := v)) s2" "at_row (g1(fd0 := v)) fd0 (x0, e0) (tl ls0)"
      using row_end_run[OF r(2,3) less.prems(9)] by blast
    have "in_line (g1(fd0 := v)) fd1 (10, e1) [] (tl ls1)" using r(4) less.prems(4) by (simp add: in_line_other)
    from row_end_run[OF s2(2) this less.prems(10)] obtain x1 w s3 where
      s3: "row_end c fd1 e1 (s2, log) = Ret (x1, s3, log)" "reading (g1(fd0 := v, fd1 := w)) s3" "at_row (g1(fd0 := v, fd1 := w)) fd1 (x1, e1) (tl ls1)"
      by blast
    have a0: "at_row (g1(fd0 := v, fd1 := w)) fd0 (x0, e0) (tl ls0)" using s2(3) less.prems(4) by (simp add: at_row_other)
    have small: "length (tl ls0) + length (tl ls1) < length ls0 + length ls1" using False by (cases ls0; cases ls1) auto
    have fit: "cells_fit ps1 ?rest" using cells_fit_append[OF _ r(7)] less.prems(6) cs by simp
    have bl: "blink_list f1 ps1" using r(7) by (simp add: added_def)
    obtain s' g' f' ps' where n: "frame_rows c fd0 fd1 (row + 1) b1 (x0, e0) (x1, e1) (s3, log) f1 = Some (Ret ((s', log), f'))" "reading g' s'"
        "added f1 ps1 ?rest f' ps'"
      using less.hyps[OF small s3(2) a0 s3(3) less.prems(4) bl fit r(5,6) less.prems(9,10)] by blast
    have "frame_rows c fd0 fd1 row b p0 p1 (s, log) f = Some (Ret ((s', log), f'))"
      using False eof r(1) s2(1) s3(1) n(1) by (subst frame_rows.simps) auto
    moreover have "added f ps (frame_cells row ls0 ls1) f' ps'" using added_trans[OF r(7) n(3)] cs by simp
    ultimately show ?thesis using n(2) by blast
  qed
qed

end

section \<open>The kernel's files and clock\<close>

text \<open>Program \<open>p\<close> has the text \<open>t\<close> left of the file at descriptor \<open>i\<close>, and the clock at descriptor \<open>k\<close>.\<close>

definition text_open :: "nat \<Rightarrow> nat \<Rightarrow> u8 list \<Rightarrow> 'a kernel_scheme \<Rightarrow> bool" where
  "text_open p i t s \<longleftrightarrow> 2 \<le> i \<and> i < 8 \<and> flags (fd_of p i s) \<noteq> 0 \<and> sysops_ptr (fd_of p i s) = Some File_ops \<and>
     (\<exists>inode. in_file p i inode s \<and> file_rest p i inode s = t)"

definition clock_open :: "nat \<Rightarrow> nat \<Rightarrow> 'a kernel_scheme \<Rightarrow> bool" where
  "clock_open p k s \<longleftrightarrow> 2 \<le> k \<and> k < 8 \<and> flags (fd_of p k s) \<noteq> 0 \<and> sysops_ptr (fd_of p k s) = Some Rtc_ops"

definition frames_at :: "nat \<Rightarrow> nat \<Rightarrow> (int \<rightharpoonup> u8 list) \<Rightarrow> 'a kernel_scheme \<Rightarrow> bool" where
  "frames_at p k g s \<longleftrightarrow> running s p \<and> tables_typed s \<and> clock_open p k s \<and> (\<forall>d t. g d = Some t \<longrightarrow> 0 \<le> d \<and> text_open p (nat d) t s)"

text \<open>A change of descriptor \<open>i\<close> leaves the others.\<close>

lemma other_fd:
  assumes "only_fd p i s s'" "same_image s s'" "running s' p" "j \<noteq> i"
  shows "fd_of p j s' = fd_of p j s" "clock_open p j s' = clock_open p j s" "text_open p j t s \<Longrightarrow> text_open p j t s'"
proof -
  obtain d where d: "fd (pcbs s' p) = (fd (pcbs s p))[i := d]" using assms(1) by (auto simp: only_fd_def)
  then show fd: "fd_of p j s' = fd_of p j s" using assms(4) by (simp add: fd_of_def)
  then show "clock_open p j s' = clock_open p j s" by (simp add: clock_open_def)
  show "text_open p j t s'" if "text_open p j t s"
  proof -
    from that obtain inode where n: "in_file p j inode s" "file_rest p j inode s = t" by (auto simp: text_open_def)
    then have "in_file p j inode s'" "file_rest p j inode s' = t"
      using fd d assms(3) same_image_lookup[OF assms(2)] same_image_inode[OF assms(2)] by (auto simp: in_file_def file_rest_def)
    with that fd show ?thesis by (auto simp: text_open_def)
  qed
qed

lemma frames_at_step:
  assumes "frames_at p k g s" "only_fd p i s s'" "same_image s s'" "running s' p" "tables_typed s'" "i \<noteq> k"
    and "\<And>t. v = Some t \<Longrightarrow> text_open p i t s'"
  shows "frames_at p k (g(int i := v)) s'"
  unfolding frames_at_def
proof (intro conjI allI impI)
  show "running s' p" "tables_typed s'" by fact+
  show "clock_open p k s'" using other_fd(2)[OF assms(2-4), of k] assms(1,6) by (auto simp: frames_at_def)
next
  fix d t
  assume d: "(g(int i := v)) d = Some t"
  have "0 \<le> d \<and> text_open p (nat d) t s'"
  proof (cases "d = int i")
    case False
    then have "0 \<le> d" "text_open p (nat d) t s" using d assms(1) by (auto simp: frames_at_def)
    with False other_fd(3)[OF assms(2-4), of "nat d" t] show ?thesis by auto
  qed (use d assms(7) in auto)
  then show "0 \<le> d" "text_open p (nat d) t s'" by auto
qed

lemma frames_at_read:
  assumes "frames_at p k g s" "g d = Some t"
  shows "\<exists>s'. read_call env d (Some [x]) 1 s = Ret (Some (case t of [] \<Rightarrow> (0, Some [x], s') | y # _ \<Rightarrow> (1, Some [y], s'))) \<and> frames_at p k (g(d \<mapsto> tl t)) s'"
proof -
  define i where "i = nat d"
  have run: "running s p" and ok: "tables_typed s" and o: "text_open p i t s" and d: "d = int i" and ck: "clock_open p k s"
    using assms by (auto simp: frames_at_def i_def)
  then obtain inode where f: "in_file p i inode s" "file_rest p i inode s = t" and i: "2 \<le> i" "i < 8" "flags (fd_of p i s) \<noteq> 0"
    "sysops_ptr (fd_of p i s) = Some File_ops" by (auto simp: text_open_def)
  have len: "i < length (fd (pcbs s p))" using f(1) by (simp add: in_file_def)
  obtain s' where s': "read_file i (Some [x]) 1 s = Ret (int (length (take 1 t)), Some (take 1 t @ drop (length (take 1 t)) [x]), s')"
      "in_file p i inode s'" "file_rest p i inode s' = drop (length (take 1 t)) t" "only_fd p i s s'" "same_image s s'"
    using read_file_chunk[OF f(1), of 1 "[x]"] f(2) by auto
  have "read_call env d (Some [x]) 1 s = Ret (Some (case t of [] \<Rightarrow> (0, Some [x], s') | y # _ \<Rightarrow> (1, Some [y], s')))"
    using run i s'(1) len d by (cases t) (simp_all add: read_call_def read_driver_def fd_of_def)
  moreover have st: "s' = s \<or> (\<exists>q. s' = update_fd p i (\<lambda>d. d\<lparr>filePosition := q\<rparr>) s)" using read_file_state[OF run s'(1)] .
  then have "flags (fd_of p i s') \<noteq> 0" "sysops_ptr (fd_of p i s') = Some File_ops" "tables_typed s'"
    using i len ok by (auto simp: fd_of_def tables_typed_fd)
  moreover have "drop (length (take 1 t)) t = tl t" by (cases t) auto
  ultimately have "text_open p i (tl t) s'" "tables_typed s'" using s'(2,3) i by (auto simp: text_open_def)
  moreover have "i \<noteq> k" using ck i(4) by (auto simp: clock_open_def)
  moreover have "running s' p" using s'(2) by (simp add: in_file_def)
  ultimately have "frames_at p k (g(int i := Some (tl t))) s'"
    using frames_at_step[OF assms(1) s'(4,5), of "Some (tl t)"] by simp
  with \<open>read_call env d (Some [x]) 1 s = _\<close> d show ?thesis by auto
qed

lemma frames_at_close:
  assumes "frames_at p k g s" "d \<noteq> int k"
  shows "\<exists>r s'. close_call d s = Ret (r, s') \<and> frames_at p k (g(d := None)) s'"
proof -
  have run: "running s p" and ok: "tables_typed s" "pcb_ok (pcbs s p)" using assms(1) by (auto simp: frames_at_def tables_typed_def)
  show ?thesis
  proof (cases "d < 2 \<or> 7 < d \<or> flags (fd (pcbs s p) ! nat d) = 0")
    case True
    then have "frames_at p k (g(d := None)) s" using assms(1) by (auto simp: frames_at_def)
    with close_call_bad[OF run ok(2) True] show ?thesis by blast
  next
    case False
    let ?f = "\<lambda>d. d\<lparr>flags := 0, sysops_ptr := None, filePosition := 0\<rparr>"
    have i: "2 \<le> nat d" "nat d < 8" "flags (fd (pcbs s p) ! nat d) \<noteq> 0" "int (nat d) = d" using False by auto
    let ?s = "update_fd p (nat d) ?f s"
    have "only_fd p (nat d) s ?s" "same_image s ?s" "running ?s p" "tables_typed ?s"
      using run ok by (auto simp: only_fd_def same_image_def running_def tables_typed_fd)
    from frames_at_step[OF assms(1) this, of None] assms(2) i(4) have "frames_at p k (g(d := None)) ?s" by auto
    with close_call_open[OF run ok(2) i(1-3)] i(4) show ?thesis by auto
  qed
qed

interpretation kernel_texts: text_files "kernel_calls env child" "- {int k}" "frames_at p k" for env :: "'a env" and child p k
proof unfold_locales
  fix g and s :: "'a kernel_scheme" and d t x
  assume "frames_at p k g s" "g d = Some t"
  from frames_at_read[OF this, of env x]
  show "\<exists>s'. sys_read (kernel_calls env child) d [x] 1 s = Ret (case t of [] \<Rightarrow> (0, [x], s') | y # _ \<Rightarrow> (1, [y], s')) \<and> frames_at p k (g(d \<mapsto> tl t)) s'"
    by (cases t) (auto simp: kernel_calls_def bytes_of_def)
next
  fix g and s :: "'a kernel_scheme" and d
  assume "frames_at p k g s" "d \<in> - {int k}"
  then show "\<exists>r s'. sys_close (kernel_calls env child) d s = Ret (r, s') \<and> frames_at p k (g(d := None)) s'"
    using frames_at_close[of p k g s d] by (simp add: kernel_calls_def)
qed

lemma name_get: "terminated name \<Longrightarrow> cstr name \<noteq> [] \<Longrightarrow> buf_get name 0 = Ret (name ! 0) \<and> name ! 0 \<noteq> 0"
  by (cases name) (auto simp: buf_get_def terminated_def cstr_def)

lemma open_text:
  assumes at: "frames_at p k g s" and name: "terminated name" "cstr name \<noteq> []" "length (cstr name) < 32"
    and ent: "read_dentry_by_name name s = Ret (Some d)" "fileType d = 2" "valid_inode s (inodeNum d)"
    and room: "card (fds_used (fd (pcbs s p))) < 6"
  shows "\<exists>i s'. open_call env name s = Ret (int i, s') \<and> frames_at p k (g(int i \<mapsto> file_bytes s (inodeNum d))) s' \<and> same_image s s' \<and>
    fds_used (fd (pcbs s' p)) = insert i (fds_used (fd (pcbs s p))) \<and> i \<notin> fds_used (fd (pcbs s p)) \<and> i \<noteq> k \<and> g (int i) = None"
proof -
  have run: "running s p" and ok: "tables_typed s" "pcb_ok (pcbs s p)" and ck: "clock_open p k s"
    using at by (auto simp: frames_at_def tables_typed_def)
  have len: "length (fd (pcbs s p)) = 8" using ok(2) by (simp add: pcb_ok_def)
  have "\<not> {2..<8} \<subseteq> fds_used (fd (pcbs s p))"
  proof
    assume "{2..<8} \<subseteq> fds_used (fd (pcbs s p))"
    moreover have "finite (fds_used (fd (pcbs s p)))" by (rule finite_subset[of _ "{..<8}"]) (auto simp: fds_used_def)
    ultimately show False using card_mono[of "fds_used (fd (pcbs s p))" "{2..<8}"] room by simp
  qed
  then obtain i where pick: "fds_pick (fd (pcbs s p)) = Some i" using fd_pool.pick_eq_None[OF len] by auto
  note i = fd_pool.pick_free[OF len pick]
  have free: "first_free (\<lambda>d. flags d = 0) (fd (pcbs s p)) [2..<8] = Some i" using pick by (simp add: fds_pick_def)
  obtain s' where s': "open_call env name s = Ret (int i, s')" "only_fd p i s s'" "flags (fd_of p i s') = 1" "filePosition (fd_of p i s') = 0"
      "sysops_ptr (fd_of p i s') = Some File_ops" "cstr (fd_fileName (fd_of p i s')) = cstr name" "terminated (fd_fileName (fd_of p i s'))"
    using open_call_found[OF run ok(2) name ent(1) _ free, of env] ent(2) by (auto simp: fd_of_def driver_for_def)
  have "open_at env p i d name s = Ret (int i, s')" using s'(1) run ent(1) free name_get[OF name(1,2)] by (simp add: open_call_def)
  then have o: "only_fds s s'" using open_at_only_fds[of env p i d name s "int i" s'] ent(2) i by auto
  then have im: "same_image s s'" and run': "running s' p" using run by (auto simp: only_fds_def same_image_def running_def)
  have "read_dentry_by_name (fd_fileName (fd_of p i s')) s' = Ret (Some d)"
    using lookup_cong[OF s'(7) name(1) s'(6) name(3), of s'] same_image_lookup[OF im, of name] ent(1) by simp
  moreover have "i < length (fd (pcbs s' p))" using o len i by (auto simp: only_fds_def)
  ultimately have "in_file p i (inodeNum d) s'" "file_rest p i (inodeNum d) s' = file_bytes s (inodeNum d)"
    using run' s'(4) ent(3) same_image_inode[OF im] by (auto simp: in_file_def file_rest_def)
  then have "text_open p i (file_bytes s (inodeNum d)) s'" using s'(3,5) i by (auto simp: text_open_def)
  moreover have "\<not> text_open p i t s" for t using i by (auto simp: text_open_def fds_used_def fd_of_def)
  then have ne: "i \<noteq> k" "g (int i) = None"
    using ck i at by (auto simp: clock_open_def fds_used_def fd_of_def) (metis frames_at_def nat_int not_None_eq)
  ultimately have "frames_at p k (g(int i \<mapsto> file_bytes s (inodeNum d))) s'"
    using frames_at_step[OF at s'(2) im run' tables_open_call[OF s'(1) ok(1)] ne(1), of "Some (file_bytes s (inodeNum d))"] by simp
  moreover have "fds_used (fd (pcbs s' p)) = insert i (fds_used (fd (pcbs s p)))"
    using fds_used_only[OF s'(2) ok(2)] s'(3) i by (simp add: fd_of_def)
  ultimately show ?thesis using s'(1) im i ne by blast
qed

lemma lit_name: "0 \<notin> set (map of_char n :: u8 list) \<Longrightarrow> terminated (lit n) \<and> cstr (lit n) = map of_char n"
  by (simp add: lit_def terminated_split cstr_split)

lemma add_frames_kernel:
  assumes "frames_at p k Map.empty s" "card (fds_used (fd (pcbs s p))) \<le> 4" "f0 = lit n0" "f1 = lit n1"
    and "n0 \<noteq> []" "n1 \<noteq> []" "0 \<notin> set (map of_char n0 :: u8 list)" "0 \<notin> set (map of_char n1 :: u8 list)" "length n0 < 32" "length n1 < 32"
    and "read_dentry_by_name f0 s = Ret (Some d0)" "fileType d0 = 2" "valid_inode s (inodeNum d0)"
    and "read_dentry_by_name f1 s = Ret (Some d1)" "fileType d1 = 2" "valid_inode s (inodeNum d1)"
    and cs: "cs = frame_cells 0 (text_lines (file_bytes s (inodeNum d0))) (text_lines (file_bytes s (inodeNum d1)))"
    and "blink_list f ps" "cells_fit ps cs"
  shows "\<exists>s' g' f' ps'. add_frames (kernel_calls env child) f0 f1 b (s, log) f = Some (Ret (None, (s', log), f')) \<and>
    frames_at p k g' s' \<and> added f ps cs f' ps'"
proof -
  have n0: "terminated f0" "cstr f0 \<noteq> []" "length (cstr f0) < 32" and n1: "terminated f1" "cstr f1 \<noteq> []" "length (cstr f1) < 32"
    using assms(3-10) lit_name[of n0] lit_name[of n1] by auto
  have fin: "finite (fds_used (fd (pcbs s p)))" by (rule finite_subset[of _ "{..<8}"]) (auto simp: fds_used_def)
  obtain i s1 where s1: "open_call env f0 s = Ret (int i, s1)" "frames_at p k (Map.empty(int i \<mapsto> file_bytes s (inodeNum d0))) s1"
      "same_image s s1" "fds_used (fd (pcbs s1 p)) = insert i (fds_used (fd (pcbs s p)))" "i \<noteq> k"
    using open_text[OF assms(1) n0 assms(11-13), of env] assms(2) by auto
  have e1: "read_dentry_by_name f1 s1 = Ret (Some d1)" "valid_inode s1 (inodeNum d1)" "file_bytes s1 (inodeNum d1) = file_bytes s (inodeNum d1)"
    using same_image_lookup[OF s1(3)] same_image_inode[OF s1(3)] assms(14,16) by simp_all
  have "card (fds_used (fd (pcbs s1 p))) < 6" using assms(2) s1(4) fin card_insert_le_m1[of 6] by (simp add: card_insert_if)
  from open_text[OF s1(2) n1 e1(1) assms(15) e1(2) this, of env] obtain j s2 where
    s2: "open_call env f1 s1 = Ret (int j, s2)" "frames_at p k (Map.empty(int i \<mapsto> file_bytes s (inodeNum d0), int j \<mapsto> file_bytes s (inodeNum d1))) s2"
      "j \<noteq> k" "i \<noteq> j" using e1(3) by (auto split: if_splits)
  let ?g = "Map.empty(int i \<mapsto> file_bytes s (inodeNum d0), int j \<mapsto> file_bytes s (inodeNum d1))"
  have rows: "at_row ?g (int i) (48, False) (text_lines (file_bytes s (inodeNum d0)))"
      "at_row ?g (int j) (48, False) (text_lines (file_bytes s (inodeNum d1)))" "int i \<noteq> int j" "int i \<in> - {int k}" "int j \<in> - {int k}"
    using s1(5) s2(3,4) by (auto simp: at_row_def)
  obtain s' g' f' ps' where r: "frame_rows (kernel_calls env child) (int i) (int j) 0 (b\<lparr>on_length := 15, off_length := 15\<rparr>) (48, False) (48, False) (s2, log) f =
      Some (Ret ((s', log), f'))" "frames_at p k g' s'" "added f ps cs f' ps'"
    using kernel_texts.frame_rows_run[OF s2(2) rows(1-3) assms(18), of 0 "b\<lparr>on_length := 15, off_length := 15\<rparr>" env child log]
      assms(19) rows(4,5) unfolding cs by auto
  then have "add_frames (kernel_calls env child) f0 f1 b (s, log) f = Some (Ret (None, (s', log), f'))"
    using s1(1) s2(1) by (simp add: add_frames_def ece391_open_def kernel_calls_def)
  with r show ?thesis by blast
qed

section \<open>The clock\<close>

text \<open>The contract of a clock: reading it returns, and the descriptor is good for the next time.\<close>

locale ticking =
  fixes c :: "'s calls" and d :: int and ok :: "'s \<Rightarrow> bool"
  assumes read_tick: "ok s \<Longrightarrow> \<exists>r b' s'. sys_read c d b 4 s = Ret (r, b', s') \<and> ok s'"
begin

lemma blink_wait_run:
  assumes "ok s" "blink_list f ps"
  shows "\<exists>b' s' f'. blink_wait c d n b (s, log) f = Some (Ret (b', (s', log), f')) \<and> ok s' \<and> blink_list f' ps \<and>
    contents f' ps = map (tick ^^ n) (contents f ps)"
  using assms
proof (induction n arbitrary: s f b)
  case (Suc n)
  obtain r b1 s1 where s1: "sys_read c d b 4 s = Ret (r, b1, s1)" "ok s1" using read_tick[OF Suc.prems(1)] by blast
  obtain f1 where f1: "mp1_rtc_tasklet f = Some (Ret f1)" "blink_list f1 ps" "contents f1 ps = map tick (contents f ps)"
    using tasklet_list[OF Suc.prems(2)] by blast
  from Suc.IH[OF s1(2) f1(2), of b1] obtain b' s' f' where
    "blink_wait c d n b1 (s1, log) f1 = Some (Ret (b', (s', log), f'))" "ok s'" "blink_list f' ps" "contents f' ps = map (tick ^^ n) (contents f1 ps)"
    by blast
  with s1(1) f1(1,3) show ?case by (auto simp: ece391_read_def funpow_Suc_right simp del: funpow.simps)
qed simp

end

lemma rtc_read_frame:
  assumes "rtc_read dev ticks s = Some (r, s')"
  shows "\<exists>x v. s' = s\<lparr>io := x, rtc_interrupt_flag := v\<rparr>"
  using assms
proof (induction ticks arbitrary: s)
  case Nil
  then show ?case by (cases s) (auto split: if_splits)
next
  case (Cons tick ticks)
  have "\<exists>x v. rtc_irq dev s = s\<lparr>io := x, rtc_interrupt_flag := v\<rparr>"
    by (cases s) (auto simp: rtc_irq_def send_eoi_def rtc_interrupt_def inb_def outb_def Let_def)
  with Cons show ?case by (cases s) (fastforce split: if_splits)
qed

definition clock_at :: "nat \<Rightarrow> nat \<Rightarrow> 'a kernel_scheme \<Rightarrow> bool" where
  "clock_at p k s \<longleftrightarrow> running s p \<and> length (fd (pcbs s p)) = 8 \<and> clock_open p k s"

lemma clock_at_read:
  assumes "clock_at p k s" "True \<in> set (env_ticks env)"
  shows "\<exists>s'. read_call env (int k) (Some b) n s = Ret (Some (0, Some b, s')) \<and> clock_at p k s'"
proof -
  have "\<exists>s'. rtc_read (env_dev env) (env_ticks env) s = Some (0, s')"
    using assms(2) by (cases "rtc_interrupt_flag s = 0") (auto simp: rtc_read_pending rtc_read_waits)
  then obtain s' where s': "rtc_read (env_dev env) (env_ticks env) s = Some (0, s')" by blast
  obtain x v where "s' = s\<lparr>io := x, rtc_interrupt_flag := v\<rparr>" using rtc_read_frame[OF s'] by blast
  then have "clock_at p k s'" using assms(1) by (simp add: clock_at_def running_def clock_open_def fd_of_def)
  with s' assms(1) show ?thesis by (auto simp: read_call_def read_driver_def clock_at_def clock_open_def fd_of_def)
qed

interpretation kernel_clock: ticking "kernel_calls env child" "int k" "\<lambda>s. clock_at p k s \<and> True \<in> set (env_ticks env)" for env :: "'a env" and child p k
proof unfold_locales
  fix s :: "'a kernel_scheme" and b
  assume "clock_at p k s \<and> True \<in> set (env_ticks env)"
  then show "\<exists>r b' s'. sys_read (kernel_calls env child) (int k) b 4 s = Ret (r, b', s') \<and> clock_at p k s' \<and> True \<in> set (env_ticks env)"
    using clock_at_read[of p k s env b 4] by (auto simp: kernel_calls_def bytes_of_def)
qed

lemma clock_at_write:
  assumes "clock_at p k s"
  shows "\<exists>r s'. write_call env (int k) (Some [32, 0, 0, 0]) 4 s = Ret (r, s') \<and> clock_at p k s'"
proof -
  have "\<exists>x. rtc_write dev i 4 s = (0, s\<lparr>io := x\<rparr>)" for dev i
    using rtc_write_accepts[of 2 dev i s] by auto
  then obtain x where x: "rtc_write (env_dev env) (int k) 4 s = (0, s\<lparr>io := x\<rparr>)" by blast
  have "clock_at p k (s\<lparr>io := x\<rparr>)" using assms by (simp add: clock_at_def running_def clock_open_def fd_of_def)
  then show ?thesis using x assms
    by (auto simp: write_call_def write_driver_def clock_at_def clock_open_def fd_of_def bytes_of_def strlen_eq terminated_def)
qed

lemma clock_at_close:
  assumes "clock_at p k s"
  shows "\<exists>s'. close_call (int k) s = Ret (0, s')"
  using assms by (auto simp: close_call_def clock_at_def clock_open_def fd_of_def)

lemma open_clock:
  assumes run: "running s p" and ok: "tables_typed s" and ent: "read_dentry_by_name (lit ''rtc'') s = Ret (Some d)" "fileType d = 0"
    and room: "card (fds_used (fd (pcbs s p))) < 6"
  shows "\<exists>k s'. open_call env (lit ''rtc'') s = Ret (int k, s') \<and> frames_at p k Map.empty s' \<and> same_image s s' \<and>
    card (fds_used (fd (pcbs s' p))) = Suc (card (fds_used (fd (pcbs s p))))"
proof -
  let ?u = "fds_used (fd (pcbs s p))"
  have pok: "pcb_ok (pcbs s p)" using ok by (simp add: tables_typed_def)
  then have len: "length (fd (pcbs s p)) = 8" by (simp add: pcb_ok_def)
  have fin: "finite ?u" by (rule finite_subset[of _ "{..<8}"]) (auto simp: fds_used_def)
  then have "\<not> {2..<8} \<subseteq> ?u" using card_mono[of ?u "{2..<8}"] room by auto
  then obtain k where pick: "fds_pick (fd (pcbs s p)) = Some k" using fd_pool.pick_eq_None[OF len] by auto
  note k = fd_pool.pick_free[OF len pick]
  have free: "first_free (\<lambda>d. flags d = 0) (fd (pcbs s p)) [2..<8] = Some k" using pick by (simp add: fds_pick_def)
  have nm: "terminated (lit ''rtc'')" "cstr (lit ''rtc'') \<noteq> []" "length (cstr (lit ''rtc'')) < 32"
    by (simp_all add: lit_def terminated_def cstr_def)
  obtain s' where s': "open_call env (lit ''rtc'') s = Ret (int k, s')" "only_fd p k s s'" "flags (fd_of p k s') = 1"
      "sysops_ptr (fd_of p k s') = Some Rtc_ops"
    using open_call_found[OF run pok nm ent(1) _ free, of env] ent(2) by (auto simp: fd_of_def driver_for_def)
  have at: "open_at env p k d (lit ''rtc'') s = Ret (int k, s')"
    using s'(1) run ent(1) free name_get[OF nm(1,2)] by (simp add: open_call_def)
  define t where "t = update_fd p k (\<lambda>d. d\<lparr>inode_ptr := None\<rparr>) (set_ops p k Rtc_ops 1
    (update_fd p k (\<lambda>d. d\<lparr>filePosition := 0\<rparr>) (update_fd p k (\<lambda>d. d\<lparr>flags := 1\<rparr>) s)))"
  obtain x where x: "rtc_open (env_dev env) (lit ''rtc'') t = (0, t\<lparr>io := x\<rparr>)"
    using rtc_write_accepts[of 1 "env_dev env" 0 t] by (auto simp: rtc_open_def)
  have "setup_fd p k d (lit ''rtc'') (update_fd p k (\<lambda>d. d\<lparr>flags := 1\<rparr>) s) = Ret (Some Rtc_ops, t)"
    using ent(2) by (simp add: setup_fd_def Let_def t_def)
  then have "s' = t\<lparr>io := x\<rparr>" using at x by (simp add: open_at_def open_driver_def)
  then have "mem s' = mem s \<and> bootHead s' = bootHead s \<and> cr3 s' = cr3 s" by (simp add: t_def)
  then have im: "same_image s s'" "running s' p" using run by (auto simp: same_image_def running_def)
  have "frames_at p k Map.empty s'"
    using im(2) tables_open_call[OF s'(1) ok] s'(3,4) k by (simp add: frames_at_def clock_open_def)
  moreover have "fds_used (fd (pcbs s' p)) = insert k ?u" using fds_used_only[OF s'(2) pok] s'(3) k by (simp add: fd_of_def)
  then have "card (fds_used (fd (pcbs s' p))) = Suc (card ?u)" using fin k by simp
  ultimately show ?thesis using s'(1) im(1) by blast
qed

section \<open>The whole program\<close>

lemma line_cells_ge: "(l, x) \<in> set (line_cells loc l0 l1) \<Longrightarrow> loc \<le> l"
proof (induction loc l0 l1 rule: line_cells.induct)
  case (1 loc l0 l1)
  then show ?case by (subst (asm) (2) line_cells.simps) (fastforce split: if_splits)
qed

lemma frame_cells_ge: "(l, x) \<in> set (frame_cells row ls0 ls1) \<Longrightarrow> row * 80 + 40 \<le> l"
proof (induction row ls0 ls1 rule: frame_cells.induct)
  case (1 row ls0 ls1)
  then show ?case by (subst (asm) (2) frame_cells.simps) (auto split: if_splits dest: line_cells_ge)
qed

lemma cells_fit_frames:
  assumes "cs = frame_cells row ls0 ls1" "0 \<le> row" "\<forall>(loc, _, _)\<in>set cs. loc < 2000" "length ps + length cs \<le> 2000"
  shows "cells_fit ps cs"
  using assms frame_cells_ge[of _ _ row ls0 ls1] by (fastforce simp: cells_fit_def)

lemma translate_mem: "translate pt (s\<lparr>mem := m\<rparr>) t u w a = translate pt s t u w a"
proof -
  have "table_at pt (s\<lparr>mem := m\<rparr>) = table_at pt s" by (intro ext) (simp add: table_at_def)
  then show ?thesis by (simp add: translate_def cong: if_cong)
qed

lemma vidmap_shown:
  assumes "vidmap env a s = Ret (r, s1)" "r \<noteq> -1"
  shows "obind (user_address env a s1) (\<lambda>b. Ret (r, le32 (mem s1) b, s1)) = Ret (r, VIDEO_MEM, s1)" "running s1 p = running s p" "tables_typed s1 = tables_typed s" "pcbs s1 = pcbs s"
proof -
  obtain b where b: "user_address env a s = Ret b" "s1 = s\<lparr>mem := store32 (mem s) b VIDEO_MEM\<rparr>"
    using assms by (auto simp: vidmap_def outcome_simps split: if_splits)
  have ne: "b + 1 \<noteq> b" "b + 2 \<noteq> b" "b + 3 \<noteq> b" "b + 2 \<noteq> b + 1" "b + 3 \<noteq> b + 1" "b + 3 \<noteq> b + 2" by simp_all
  have "user_address env a s1 = Ret b"
    using b by (auto simp: user_address_def translate_mem split: pdir.splits option.splits)
  moreover have "le32 (mem s1) b = VIDEO_MEM" using ne by (simp add: b(2) le32_def store32_def)
  ultimately show "obind (user_address env a s1) (\<lambda>b. Ret (r, le32 (mem s1) b, s1)) = Ret (r, VIDEO_MEM, s1)" by simp
  show "running s1 p = running s p" "tables_typed s1 = tables_typed s" "pcbs s1 = pcbs s"
    by (simp_all add: b(2) running_def tables_typed_def)
qed

lemma frames_at_clock: "frames_at p k g s \<Longrightarrow> clock_at p k s"
  by (auto simp: frames_at_def clock_at_def tables_typed_def pcb_ok_def)

text \<open>The part of \<open>main\<close> after the frames have been added, and what it does to the contents of the list.\<close>

definition blinking_I :: blink where
  "blinking_I = blank\<lparr>on_char := of_char CHR ''I'', off_char := of_char CHR ''M'', on_length := 7, off_length := 6, location := 540\<rparr>"

definition fish_after :: "blink list \<Rightarrow> blink list" where
  "fish_after bs = map (tick ^^ 2000) (list_remove 200 (map (tick ^^ 200) (list_sync 40 540 (map (tick ^^ 200)
     (list_add blinking_I (map (tick ^^ 200) bs))))))"

lemma fish_blinks:
  assumes at: "clock_at p k s" and ticks: "True \<in> set (env_ticks env)" and l: "blink_list f ps"
    and c_def: "c = kernel_calls env child"
  shows "\<exists>s' log' f' ps'.
    lbind (Some (ece391_write c (int k) [32, 0, 0, 0] 4 (s, log))) (\<lambda>(_, u4).
       lbind (blink_wait c (int k) 200 garbage u4 f) (\<lambda>(garbage, u5, f3).
       let b2 = b1\<lparr>on_char := 73, off_char := 77, on_length := 7, off_length := 6, location := 6 * 80 + 60\<rparr> in
       lbind (mp1_ioctl (Ptr b2) 0 f3) (\<lambda>(_, _, f4).
       lbind (blink_wait c (int k) 200 garbage u5 f4) (\<lambda>(garbage, u6, f5).
       lbind (mp1_ioctl (Num (push_bit 16 40 OR (6 * 80 + 60))) 3 f5) (\<lambda>(_, _, f6).
       lbind (blink_wait c (int k) 200 garbage u6 f6) (\<lambda>(garbage, u7, f7).
       lbind (mp1_ioctl (Num 200) 1 f7) (\<lambda>(_, _, f8).
       lbind (blink_wait c (int k) (80 * 25) garbage u7 f8) (\<lambda>(_, u8, f9).
       lbind (Some (ece391_close c (int k) u8)) (\<lambda>(_, u9). Some (Ret (0 :: int, u9, f9))))))))))) =
    Some (Ret (0, (s', log'), f')) \<and> blink_list f' ps' \<and> contents f' ps' = fish_after (contents f ps)"
proof -
  define log1 where "log1 = log @ [(int k, [32, 0, 0, 0])]"
  note wait = kernel_clock.blink_wait_run[OF conjI[OF _ ticks], where child = child and k = k and p = p and log = log1, folded c_def]
  obtain r s4 where s4: "write_call env (int k) (Some [32, 0, 0, 0]) 4 s = Ret (r, s4)" "clock_at p k s4" using clock_at_write[OF at] by blast
  obtain g5 s5 f3 where s5: "blink_wait c (int k) 200 garbage (s4, log1) f = Some (Ret (g5, (s5, log1), f3))" "clock_at p k s5" "blink_list f3 ps"
      "contents f3 ps = map (tick ^^ 200) (contents f ps)"
    using wait[OF s4(2) l, of 200 garbage] by blast
  define b2 where "b2 = b1\<lparr>on_char := 73, off_char := 77, on_length := 7, off_length := 6, location := 6 * 80 + 60\<rparr>"
  obtain r4 f4 ps4 where f4: "mp1_ioctl (Ptr b2) 0 f3 = Some (Ret (r4, Ptr b2, f4))" "blink_list f4 ps4"
      "contents f4 ps4 = list_add b2 (contents f3 ps)"
    using add_keeps[OF s5(3), of b2] by (auto simp: mp1_ioctl_def b2_def)
  obtain g6 s6 f5 where s6: "blink_wait c (int k) 200 g5 (s5, log1) f4 = Some (Ret (g6, (s6, log1), f5))" "clock_at p k s6" "blink_list f5 ps4"
      "contents f5 ps4 = map (tick ^^ 200) (contents f4 ps4)"
    using wait[OF s5(2) f4(2), of 200 g5] by blast
  define n3 :: u32 where "n3 = push_bit 16 40 OR (6 * 80 + 60)"
  obtain r6 f6 where f6: "mp1_ioctl (Num n3) 3 f5 = Some (Ret (r6, Num n3, f6))" "blink_list f6 ps4"
      "contents f6 ps4 = list_sync (ucast (drop_bit 16 n3)) (ucast (n3 AND 0xFFFF)) (contents f5 ps4)"
    using sync_keeps[OF s6(3), of n3] by (auto simp: mp1_ioctl_def numeral_3_eq_3)
  obtain g7 s7 f7 where s7: "blink_wait c (int k) 200 g6 (s6, log1) f6 = Some (Ret (g7, (s7, log1), f7))" "clock_at p k s7" "blink_list f7 ps4"
      "contents f7 ps4 = map (tick ^^ 200) (contents f6 ps4)"
    using wait[OF s6(2) f6(2), of 200 g6] by blast
  obtain r8 f8 ps8 where f8: "mp1_ioctl (Num 200) 1 f7 = Some (Ret (r8, Num 200, f8))" "blink_list f8 ps8"
      "contents f8 ps8 = list_remove 200 (contents f7 ps4)"
    using remove_keeps[OF s7(3), of "ucast (200 :: u32)"] by (auto simp: mp1_ioctl_def)
  obtain g9 s9 f9 where s9: "blink_wait c (int k) (80 * 25) g7 (s7, log1) f8 = Some (Ret (g9, (s9, log1), f9))" "clock_at p k s9" "blink_list f9 ps8"
      "contents f9 ps8 = map (tick ^^ 2000) (contents f8 ps8)"
    using wait[OF s7(2) f8(2), of "80 * 25" g7] by auto
  obtain s' where "close_call (int k) s9 = Ret (0, s')" using clock_at_close[OF s9(2)] by blast
  then have cl: "ece391_close c (int k) (s9, log1) = Ret (0, s', log1)" by (simp add: ece391_close_def c_def kernel_calls_def)
  have wr: "ece391_write c (int k) [32, 0, 0, 0] 4 (s, log) = Ret (r, s4, log1)"
    using s4(1) by (simp add: ece391_write_def c_def kernel_calls_def log1_def)
  have "list_add b2 bs = list_add blinking_I bs" for bs
    by (simp add: list_add_def b2_def bare_def blinking_I_def blank_def)
  then have after: "contents f9 ps8 = fish_after (contents f ps)"
    unfolding s9(4) f8(3) s7(4) f6(3) s6(4) f4(3) s5(4) by (simp add: fish_after_def n3_def)
  show ?thesis
    by (intro exI[of _ s'] exI[of _ log1] exI[of _ f9] exI[of _ ps8])
      (simp only: wr s5(1) Let_def b2_def[symmetric] n3_def[symmetric] f4(1) s6(1) f6(1) s7(1) f8(1) s9(1) cl lbind_simps prod.case s9(3) after simp_thms)
qed

section \<open>Properties\<close>

text \<open>
  C18: \<open>add_frames\<close> ends and adds to the list exactly the characters of the two frames: one blinking character for every place of a row
  where one of the files has something other than a space, showing the characters of both in turn, with spaces where the line
  or the file of one is shorter, at 80 places per row from place 40 on; the first frame is shown. Both files are read to
  their ends. The assumptions say that the places fit on the screen, that there are at most 80*25 structures, and that two descriptors are free.
\<close>

theorem fish_adds_frames:
  assumes "frames_at p k Map.empty s" "card (fds_used (fd (pcbs s p))) \<le> 4"
    and "n0 \<noteq> []" "n1 \<noteq> []" "0 \<notin> set (map of_char n0 :: u8 list)" "0 \<notin> set (map of_char n1 :: u8 list)" "length n0 < 32" "length n1 < 32"
    and "read_dentry_by_name (lit n0) s = Ret (Some d0)" "fileType d0 = 2" "valid_inode s (inodeNum d0)"
    and "read_dentry_by_name (lit n1) s = Ret (Some d1)" "fileType d1 = 2" "valid_inode s (inodeNum d1)"
    and "cs = frame_cells 0 (text_lines (file_bytes s (inodeNum d0))) (text_lines (file_bytes s (inodeNum d1)))"
    and "blink_list f ps" "\<forall>(loc, _, _)\<in>set cs. loc < 2000" "length ps + length cs \<le> 2000"
  shows "\<exists>s' f' ps'. add_frames (kernel_calls env child) (lit n0) (lit n1) b (s, log) f = Some (Ret (None, (s', log), f')) \<and>
    blink_list f' ps' \<and> contents f' ps' = rev (map cell_blink cs) @ contents f ps \<and> vmem f' = fold show_cell cs (vmem f)"
proof -
  have "cells_fit ps cs" using cells_fit_frames[OF assms(15) _ assms(17,18)] by simp
  from add_frames_kernel[OF assms(1,2) refl refl assms(3-16) this, of env child b log] show ?thesis by (auto simp: added_def)
qed

text \<open>
  C19: \<open>fish\<close> runs to its end: with the clock ticking, \<open>main\<close> returns 0 and leaves a well-formed list, whose contents are those of the frames' characters
  after 200 calls of the tasklet, the addition of a blinking \<open>I\<close>, 200 calls, the synchronisation of location 540 with 40, 200 calls, the removal at location
  200 and 2000 calls, in this order. It is assumed that
  \<open>vidmap\<close> accepts the address of the variable, that the three files are there, that three descriptors are free, and
  that the frames fit on the screen; the two frames' files may have any contents.
\<close>

theorem fish_ends:
  assumes "vidmap env vmem_base_addr s = Ret (r, s1)" "r \<noteq> -1" "running s p" "tables_typed s" "card (fds_used (fd (pcbs s p))) \<le> 3" "True \<in> set (env_ticks env)"
    and "read_dentry_by_name (lit ''rtc'') s1 = Ret (Some dr)" "fileType dr = 0"
    and "read_dentry_by_name (lit ''frame0.txt'') s1 = Ret (Some d0)" "fileType d0 = 2" "valid_inode s1 (inodeNum d0)"
    and "read_dentry_by_name (lit ''frame1.txt'') s1 = Ret (Some d1)" "fileType d1 = 2" "valid_inode s1 (inodeNum d1)"
    and "cs = frame_cells 0 (text_lines (file_bytes s1 (inodeNum d0))) (text_lines (file_bytes s1 (inodeNum d1)))"
    and "\<forall>(loc, _, _)\<in>set cs. loc < 2000" "length cs \<le> 2000" "mp1_list_head f = None"
  shows "\<exists>s' log' f' ps'. fish_main (kernel_calls env child) vmem_base_addr b0 b1 garbage (s, log) f = Some (Ret (0, (s', log'), f')) \<and>
    blink_list f' ps' \<and> contents f' ps' = fish_after (rev (map cell_blink cs))"
proof -
  let ?c = "kernel_calls env child"
  note v = vidmap_shown[OF assms(1,2)]
  have vid: "mp1_set_video_mode ?c vmem_base_addr (s, log) = Ret (VIDEO_MEM, s1, log)"
    using v(1) assms(1,2) by (simp add: mp1_set_video_mode_def ece391_vidmap_def kernel_calls_def)
  have "running s1 p" "tables_typed s1" "card (fds_used (fd (pcbs s1 p))) < 6" using v assms(3-5) by simp_all
  from open_clock[OF this(1,2) assms(7,8) this(3), of env] obtain k s2 where
    s2: "open_call env (lit ''rtc'') s1 = Ret (int k, s2)" "frames_at p k Map.empty s2" "same_image s1 s2" "card (fds_used (fd (pcbs s2 p))) \<le> 4"
    using v(4) assms(5) by auto
  note im = same_image_lookup[OF s2(3)] same_image_inode[OF s2(3)]
  let ?f = "f\<lparr>blink_array := replicate (80 * 25) blank\<rparr>"
  have l: "blink_list ?f []" using assms(18) by (simp add: blink_list_def blank_def)
  have fit: "cells_fit [] cs" using cells_fit_frames[OF assms(15) _ assms(16), of "[]"] assms(17) by simp
  have "\<exists>s3 g3 f3 ps3. add_frames ?c (lit ''frame0.txt'') (lit ''frame1.txt'') b0 (s2, log) ?f = Some (Ret (None, (s3, log), f3)) \<and>
      frames_at p k g3 s3 \<and> added ?f [] cs f3 ps3"
    by (rule add_frames_kernel[OF s2(2,4) refl refl])
      (use assms(9-15) l fit in \<open>simp_all add: im\<close>)
  then obtain s3 g3 f3 ps3 where s3: "add_frames ?c (lit ''frame0.txt'') (lit ''frame1.txt'') b0 (s2, log) ?f = Some (Ret (None, (s3, log), f3))"
      "frames_at p k g3 s3" "blink_list f3 ps3" "contents f3 ps3 = rev (map cell_blink cs)"
    by (auto simp: added_def contents_def)
  have op: "ece391_open ?c (lit ''rtc'') (s1, log) = Ret (int k, s2, log)" using s2(1) by (simp add: ece391_open_def kernel_calls_def)
  note rest = fish_blinks[OF frames_at_clock[OF s3(2)] assms(6) s3(3) refl, of child log garbage b1]
  show ?thesis
    unfolding fish_main_def vid lbind_simps prod.case Let_def op s3(1) option.case
    using rest unfolding s3(4) by (simp add: Let_def)
qed

text \<open>
  An image with the three files, both frames being the single letter \<open>A\<close>, and program 1 with no file open.
\<close>

definition fish_image :: memory where
  "fish_image = (\<lambda>_. 0)(0 := 3, 4 := 1, 64 := 102, 65 := 114, 66 := 97, 67 := 109, 68 := 101, 69 := 48, 70 := 46, 71 := 116, 72 := 120, 73 := 116, 96 := 2,
     128 := 102, 129 := 114, 130 := 97, 131 := 109, 132 := 101, 133 := 49, 134 := 46, 135 := 116, 136 := 120, 137 := 116, 160 := 2,
     192 := 114, 193 := 116, 194 := 99, 4096 := 1, 8192 := 65)"

definition demo_fish_kernel :: kernel where
  "demo_fish_kernel = (paging_initialize demo_tables demo_kernel)\<lparr>mem := fish_image, pcbs := (\<lambda>_. demo_unopened), cr3 := Page_directory 1\<rparr>"

lemma paging_initialize_kernel [simp]: "openTasks (paging_initialize pt s) = openTasks s" "bootHead (paging_initialize pt s) = bootHead s"
  by (simp_all add: paging_initialize_def)

definition fish_memory :: memory where
  "fish_memory = store32 fish_image 0x848000 VIDEO_MEM"

lemma fish_memory_bytes:
  "mem_bytes fish_memory 64 32 = map of_char ''frame0.txt'' @ replicate 22 0" "mem_bytes fish_memory 128 32 = map of_char ''frame1.txt'' @ replicate 22 0"
  "mem_bytes fish_memory 192 32 = map of_char ''rtc'' @ replicate 29 0"
  "le32 fish_memory 96 = 2" "le32 fish_memory 160 = 2" "le32 fish_memory 224 = 0" "le32 fish_memory 100 = 0" "le32 fish_memory 164 = 0"
  "le32 fish_memory 4 = 1" "le32 fish_memory 4096 = 1" "le32 fish_memory 4100 = 0" "fish_memory 8192 = 65"
  by (simp_all add: mem_bytes_def le32_def fish_memory_def store32_def fish_image_def upt_conv_Cons)
    (simp_all add: eval_nat_numeral)

lemma fish_lookup:
  fixes s :: "'a fs_scheme"
  assumes "mem s = fish_memory" "bootHead s = 0"
  shows "read_dentry_by_name (lit ''frame0.txt'') s = Ret (Some (entry s 0))" "read_dentry_by_name (lit ''frame1.txt'') s = Ret (Some (entry s 1))"
    "read_dentry_by_name (lit ''rtc'') s = Ret (Some (entry s 2))" "fileType (entry s 0) = 2" "fileType (entry s 1) = 2" "fileType (entry s 2) = 0"
    "inodeNum (entry s 0) = 0" "inodeNum (entry s 1) = 0" "valid_inode s 0" "file_bytes s 0 = [65]"
proof -
  have n: "fileName (entry s 0) = map of_char ''frame0.txt'' @ replicate 22 0" "fileName (entry s 1) = map of_char ''frame1.txt'' @ replicate 22 0"
    "fileName (entry s 2) = map of_char ''rtc'' @ replicate 29 0"
    using fish_memory_bytes(1-3) by (simp_all add: entry_def assms)
  have c: "cstr (fileName (entry s 0)) = map of_char ''frame0.txt''" "cstr (fileName (entry s 1)) = map of_char ''frame1.txt''"
      "cstr (fileName (entry s 2)) = map of_char ''rtc''"
    by (simp_all add: n cstr_def del: One_nat_def)
  define rest where "rest = map (entry s) [3..<63]"
  have "[0..<63] = 0 # 1 # 2 # [3..<63]" by (simp add: upt_rec)
  then have "map (entry s) [0..<63] = entry s 0 # entry s 1 # entry s 2 # rest" unfolding rest_def by (simp only: list.map)
  then have f: "read_dentry_by_name (lit t) s = Ret (find (\<lambda>d. take 31 (map of_char t) = take 31 (cstr (fileName d))) (entry s 0 # entry s 1 # entry s 2 # rest))"
    if "0 \<notin> set (map of_char t :: u8 list)" "length t < 32" for t
    using read_dentry_by_name_find[of "lit t" s] lit_name[OF that(1)] that(2) by (simp add: same_prefix_def)
  show "read_dentry_by_name (lit ''frame0.txt'') s = Ret (Some (entry s 0))" "read_dentry_by_name (lit ''frame1.txt'') s = Ret (Some (entry s 1))"
    "read_dentry_by_name (lit ''rtc'') s = Ret (Some (entry s 2))"
    using f[of "''frame0.txt''"] f[of "''frame1.txt''"] f[of "''rtc''"] by (simp_all add: c del: One_nat_def)
  show "fileType (entry s 0) = 2" "fileType (entry s 1) = 2" "fileType (entry s 2) = 0" "inodeNum (entry s 0) = 0" "inodeNum (entry s 1) = 0"
    using fish_memory_bytes(4-8) by (simp_all add: entry_def assms)
  have ni: "numInode s = 1" and sz: "file_size s 0 = 1"
    using fish_memory_bytes(9,10) by (simp_all add: numInode_def file_size_def inode_length_def get_inodeptr_def assms)
  then show "valid_inode s 0" by (simp add: valid_inode_def)
  have "file_byte s 0 0 = 65"
    using fish_memory_bytes(11,12) ni by (simp add: file_byte_def data_block_def block_ptr_def get_inodeptr_def assms)
  then show "file_bytes s 0 = [65]" using sz by (simp add: file_bytes_def)
qed

lemma fish_cells: "frame_cells 0 (text_lines [65]) (text_lines [65]) = [(40, 65, 65)]"
  by (simp add: frame_cells.simps line_cells.simps first_line_def first_char_def)

theorem fish_ends_witness:
  "\<exists>s' log' f' ps'. fish_main (kernel_calls (demo_env\<lparr>env_ticks := [True]\<rparr>) (\<lambda>_ _. Undef)) 0x8048000 blank blank [0, 0, 0, 0] (demo_fish_kernel, []) demo_fish =
     Some (Ret (0, (s', log'), f')) \<and> blink_list f' ps' \<and> contents f' ps' = fish_after [cell_blink (40, 65, 65)]"
proof -
  let ?s = "demo_fish_kernel\<lparr>mem := fish_memory\<rparr>"
  have "translate demo_tables demo_fish_kernel 1 False True 0x8048000 = Some 0x848000"
    by (simp add: translate_def demo_fish_kernel_def paging_initialize_def init_directory_def Let_def dir_index_def permits_def program_mem_def)
  then have v: "vidmap (demo_env\<lparr>env_ticks := [True]\<rparr>) 0x8048000 demo_fish_kernel = Ret (0xB8000, ?s)"
    by (simp add: vidmap_def user_address_def demo_env_def fish_memory_def) (simp add: demo_fish_kernel_def)
  have b: "mem ?s = fish_memory" "bootHead ?s = 0" by (simp_all add: demo_fish_kernel_def paging_initialize_def demo_extend)
  note l = fish_lookup[OF b]
  have r: "running demo_fish_kernel 1" using demo_running by (simp add: demo_fish_kernel_def running_def)
  have t: "tables_typed demo_fish_kernel" "fds_used (fd (pcbs demo_fish_kernel 1)) = {}"
    using demo_unopened_ok by (simp_all add: demo_fish_kernel_def tables_typed_def)
  show ?thesis
    using fish_ends[OF v _ r t(1) _ _ l(3,6) l(1,4) _ l(2,5) _ refl, where f = demo_fish and child = "\<lambda>_ _. Undef" and ?b0.0 = blank and ?b1.0 = blank and garbage = "[0, 0, 0, 0]" and log = "[]"]
      l(7-10) t(2) fish_cells by (simp add: demo_fish_def)
qed

definition demo_clock_kernel :: kernel where
  "demo_clock_kernel = demo_fish_kernel\<lparr>mem := fish_memory, pcbs := (\<lambda>_. demo_unopened\<lparr>fd := (fd demo_unopened)[2 := demo_fd 1 (Some Rtc_ops)]\<rparr>)\<rparr>"

lemma demo_clock_frames: "frames_at 1 2 Map.empty demo_clock_kernel" "fds_used (fd (pcbs demo_clock_kernel 1)) = {2}"
proof -
  have len: "length (fd demo_unopened) = 8" using demo_unopened_ok(1) by (simp add: pcb_ok_def)
  then have "pcb_ok (demo_unopened\<lparr>fd := (fd demo_unopened)[2 := demo_fd 1 (Some Rtc_ops)]\<rparr>)"
    using pcb_ok_update_fd[OF demo_unopened_ok(1), of "\<lambda>_. demo_fd 1 (Some Rtc_ops)" 2] by (simp add: demo_fd_def)
  then show "frames_at 1 2 Map.empty demo_clock_kernel"
    using demo_running len by (auto simp: frames_at_def demo_clock_kernel_def demo_fish_kernel_def running_def tables_typed_def clock_open_def fd_of_def demo_fd_def)
  show "fds_used (fd (pcbs demo_clock_kernel 1)) = {2}"
    using demo_unopened_ok(2) len by (auto simp: demo_clock_kernel_def fds_used_def demo_fd_def nth_list_update split: if_splits)
qed

theorem fish_adds_frames_witness:
  "\<exists>s' f' ps'. add_frames (kernel_calls demo_env (\<lambda>_ _. Undef)) (lit ''frame0.txt'') (lit ''frame1.txt'') blank (demo_clock_kernel, []) demo_fish =
     Some (Ret (None, (s', []), f')) \<and> blink_list f' ps' \<and> contents f' ps' = [cell_blink (40, 65, 65)] \<and> vmem f' 80 = 65"
proof -
  have b: "mem demo_clock_kernel = fish_memory" "bootHead demo_clock_kernel = 0"
    by (simp_all add: demo_clock_kernel_def demo_fish_kernel_def demo_extend)
  note l = fish_lookup[OF b]
  have c: "contents demo_fish [] = []" by (simp add: contents_def)
  show ?thesis
    using fish_adds_frames[OF demo_clock_frames(1) _ _ _ _ _ _ _ l(1,4) _ l(2,5) _ refl demo_fish_list, of demo_env "\<lambda>_ _. Undef" blank "[]"]
      demo_clock_frames(2) l(7-10) fish_cells by (auto simp: c show_cell_def)
qed

end
