(* ===== verification/Emulate.thy ===== *)
theory Emulate
  imports Programs Tasks
begin

text \<open>
  \<open>ece391emulate.c\<close>: the system calls of this kernel on top of those of Linux, so that the user programs can be tried out there. The
  calls of Linux are an argument, the record \<open>linux\<close>; the arrays on the stack are arguments with
  what they hold before they are set. The module's own work is to split a command into words for \<open>execv\<close>, to put the words
  together again for \<open>getargs\<close>, to present a directory as a file of names, and to tell the descriptor of the directory from others.
\<close>

section \<open>Linux\<close>

text \<open>
  What \<open>wait\<close> reports of a child, and the calls the module makes. \<open>lx_spawn\<close> is \<open>fork\<close> with a child that calls \<open>execv\<close> and, should
  that return, kills itself with signal 9; \<open>lx_wait\<close> gives no status when there is no child to wait for. The calls
  made with \<open>int 0x80\<close> return the value of \<open>eax\<close>. The second argument of \<open>lx_open\<close> says whether the file is opened for writing, too.
\<close>

datatype wait_status = Exited u8 | Signalled nat

record ('s, 'd) linux =
  lx_spawn :: "u8 list \<Rightarrow> u8 list list \<Rightarrow> 's \<Rightarrow> 's"
  lx_wait :: "'s \<Rightarrow> wait_status option \<times> 's"
  lx_opendir :: "u8 list \<Rightarrow> 's \<Rightarrow> 'd option \<times> 's"
  lx_readdir :: "'d \<Rightarrow> 's \<Rightarrow> u8 list option \<times> 's"
  lx_closedir :: "'d \<Rightarrow> 's \<Rightarrow> 's"
  lx_open :: "u8 list \<Rightarrow> bool \<Rightarrow> 's \<Rightarrow> int \<times> 's"
  lx_close :: "int \<Rightarrow> 's \<Rightarrow> 's"
  lx_mmap :: "int \<Rightarrow> 's \<Rightarrow> u32 option \<times> 's"
  lx_perror :: "u8 list \<Rightarrow> 's \<Rightarrow> 's"
  lx_sys_open :: "u8 list \<Rightarrow> 's \<Rightarrow> u32 \<times> 's"
  lx_sys_read :: "int \<Rightarrow> u8 list \<Rightarrow> int \<Rightarrow> 's \<Rightarrow> u32 \<times> u8 list \<times> 's"
  lx_sys_write :: "int \<Rightarrow> u8 list \<Rightarrow> int \<Rightarrow> 's \<Rightarrow> u32 \<times> 's"
  lx_sys_close :: "int \<Rightarrow> 's \<Rightarrow> u32 \<times> 's"

text \<open>The static variables of the module, beside the state of the system.\<close>

record ('s, 'd) emu =
  host :: 's
  dir_fd :: int
  dir :: "'d option"
  mem_fd :: int

definition emu_init :: "'s \<Rightarrow> ('s, 'd) emu" where
  "emu_init h = \<lparr>host = h, dir_fd = -1, dir = None, mem_fd = -1\<rparr>"

text \<open>The wrappers of \<open>DO_CALL\<close>: error numbers become \<open>-1\<close>.\<close>

definition DO_CALL :: "u32 \<Rightarrow> int" where
  "DO_CALL eax = sint (if eax \<le> 0xFFFFC000 then eax else -1)"

section \<open>Starting programs\<close>

text \<open>\<open>ece391_strcpy\<close> from one object to another.\<close>

fun copy_string :: "u8 list \<Rightarrow> nat \<Rightarrow> u8 list \<Rightarrow> u8 list outcome" where
  "copy_string [] dst b = Undef"
| "copy_string (c # src) dst b =
     obind (buf_set b dst c) (\<lambda>b1. if c = 0 then Ret b1 else copy_string src (Suc dst) b1)"

function word_end :: "u8 list \<Rightarrow> nat \<Rightarrow> nat outcome" where
  "word_end b scan =
     (if scan < length b
      then if b ! scan \<noteq> 0 \<and> b ! scan \<noteq> 32 \<and> b ! scan \<noteq> 10 then word_end b (Suc scan) else Ret scan
      else Undef)"
  by pat_completeness auto
termination
  by (relation "measure (\<lambda>(b, scan). length b - scan)") auto

function blanks_end :: "u8 list \<Rightarrow> nat \<Rightarrow> nat outcome" where
  "blanks_end b scan =
     (if scan < length b then if b ! scan = 32 then blanks_end b (Suc scan) else Ret scan else Undef)"
  by pat_completeness auto
termination
  by (relation "measure (\<lambda>(b, scan). length b - scan)") auto

declare word_end.simps [simp del] blanks_end.simps [simp del]

lemma word_end_from:
  "word_end b scan = Ret e \<Longrightarrow> scan \<le> e \<and> e < length b \<and> (b ! e = 0 \<or> b ! e = 32 \<or> b ! e = 10) \<and>
     (b ! scan \<noteq> 0 \<and> b ! scan \<noteq> 32 \<and> b ! scan \<noteq> 10 \<longrightarrow> scan < e)"
proof (induction b scan rule: word_end.induct)
  case (1 b scan)
  from 1(2) show ?case using 1(1) by (subst (asm) word_end.simps) (auto split: if_splits)
qed

lemma blanks_end_from: "blanks_end b scan = Ret e \<Longrightarrow> scan \<le> e \<and> e < length b \<and> b ! e \<noteq> 32"
proof (induction b scan rule: blanks_end.induct)
  case (1 b scan)
  from 1(2) show ?case using 1(1) by (subst (asm) blanks_end.simps) (auto split: if_splits)
qed

text \<open>
  The words after the first: \<open>args\<close> holds their offsets in the buffer, and each is closed with a NUL. The array has 1024 elements.
\<close>

function parse_args :: "nat list \<Rightarrow> u8 list \<Rightarrow> nat \<Rightarrow> (nat list \<times> u8 list) outcome" where
  "parse_args args b scan =
     obind (blanks_end b scan) (\<lambda>w.
     if b ! w = 0 \<or> b ! w = 10 then Ret (args, b[w := 0])
     else if 1024 \<le> length args then Undef
     else obind (word_end b w) (\<lambda>e.
          if b ! e \<noteq> 0 then parse_args (args @ [w]) (b[e := 0]) (Suc e) else parse_args (args @ [w]) b e))"
  by pat_completeness auto
termination
proof (relation "measure (\<lambda>(args, b, scan). length b - scan)", goal_cases)
  case (2 args b scan w e)
  then show ?case using blanks_end_from[of b scan w] word_end_from[of b w e] by auto
next
  case (3 args b scan w e)
  then show ?case using blanks_end_from[of b scan w] word_end_from[of b w e] by auto
qed simp

declare parse_args.simps [simp del]

definition exit_value :: "wait_status \<Rightarrow> int" where
  "exit_value st = (case st of Exited v \<Rightarrow> uint v | Signalled n \<Rightarrow> if n = 9 then -1 else 256)"

definition emu_execute :: "('s, 'd) linux \<Rightarrow> wait_status \<Rightarrow> u8 list \<Rightarrow> u8 list \<Rightarrow> ('s, 'd) emu \<Rightarrow> (int \<times> ('s, 'd) emu) outcome" where
  "emu_execute lx status buf command s =
     obind (ece391_strlen command) (\<lambda>n.
     if 1023 < n then Ret (-1, s)
     else obind (buf_set buf 0 (of_char CHR ''.'')) (\<lambda>b. obind (buf_set b 1 (of_char CHR ''/'')) (\<lambda>b.
          obind (copy_string command 2 b) (\<lambda>b.
          obind (word_end b 2) (\<lambda>scan.
          obind (if b ! scan \<noteq> 0 then parse_args [0] (b[scan := 0]) (Suc scan) else Ret ([0], b)) (\<lambda>(args, b).
          if 1024 \<le> length args then Undef
          else let (st, h) = lx_wait lx (lx_spawn lx (cstr b) (map (\<lambda>k. cstr (drop k b)) args) (host s))
               in Ret (exit_value (case st of None \<Rightarrow> status | Some v \<Rightarrow> v), s\<lparr>host := h\<rparr>)))))))"

section \<open>The arguments of a program\<close>

text \<open>\<open>argv\<close> lies above the stack pointer the program starts with; what follows its first element is copied, with blanks in between.\<close>

definition close_args :: "nat \<Rightarrow> int \<Rightarrow> u8 list \<Rightarrow> (int \<times> u8 list) outcome" where
  "close_args pos nbytes buf = (if nbytes < 1 then Ret (-1, buf) else obind (buf_set buf pos 0) (\<lambda>b. Ret (0, b)))"

fun args_loop :: "u8 list list \<Rightarrow> nat \<Rightarrow> int \<Rightarrow> u8 list \<Rightarrow> (int \<times> u8 list) outcome" where
  "args_loop [] pos nbytes buf = close_args pos nbytes buf"
| "args_loop (arg # args) pos nbytes buf =
     obind (ece391_strlen arg) (\<lambda>len.
     if int len > nbytes then Ret (-1, buf)
     else obind (copy_string arg pos buf) (\<lambda>b.
          if args = [] then close_args (pos + len) (nbytes - int len) b
          else if nbytes - int len < 1 then Ret (-1, b)
          else obind (buf_set b (pos + len) 32) (\<lambda>b1. args_loop args (pos + len + 1) (nbytes - int len - 1) b1)))"

definition emu_getargs :: "u8 list list \<Rightarrow> u8 list \<Rightarrow> int \<Rightarrow> (int \<times> u8 list) outcome" where
  "emu_getargs argv buf nbytes = args_loop (tl argv) 0 nbytes buf"

section \<open>Files and the directory\<close>

definition emu_open :: "('s, 'd) linux \<Rightarrow> u8 list \<Rightarrow> ('s, 'd) emu \<Rightarrow> (int \<times> ('s, 'd) emu) outcome" where
  "emu_open lx filename s =
     obind (ece391_strcmp filename (lit ''.'')) (\<lambda>r.
     if r = 0 then let (d, h) = lx_opendir lx (lit ''.'') (host s); (k, h) = lx_open lx (lit ''/dev/null'') False h
                   in Ret (k, s\<lparr>host := h, dir := d, dir_fd := k\<rparr>)
     else let (rval, h) = lx_sys_open lx filename (host s)
          in Ret (if rval > 0xFFFFC000 then -1 else sint rval, s\<lparr>host := h\<rparr>))"

text \<open>The name of a directory entry, cut at the length asked for and at 32, or filled up with NULs.\<close>

function fill_name :: "nat \<Rightarrow> int \<Rightarrow> u8 list \<Rightarrow> (int \<times> u8 list) outcome" where
  "fill_name copied nbytes buf =
     (if nbytes > int copied \<and> 32 > copied then obind (buf_set buf copied 0) (\<lambda>b. fill_name (Suc copied) nbytes b)
      else Ret (int copied, buf))"
  by pat_completeness auto
termination
  by (relation "measure (\<lambda>(copied, nbytes, buf). 32 - copied)") auto

declare fill_name.simps [simp del]

fun copy_name :: "u8 list \<Rightarrow> nat \<Rightarrow> int \<Rightarrow> u8 list \<Rightarrow> (int \<times> u8 list) outcome" where
  "copy_name [] copied nbytes buf = Undef"
| "copy_name (c # from) copied nbytes buf =
     (if c \<noteq> 0
      then obind (buf_set buf copied c) (\<lambda>b.
           if int (Suc copied) = nbytes then Ret (nbytes, b)
           else if 32 = Suc copied then Ret (32, b)
           else copy_name from (Suc copied) nbytes b)
      else fill_name copied nbytes buf)"

definition emu_read :: "('s, 'd) linux \<Rightarrow> int \<Rightarrow> u8 list \<Rightarrow> int \<Rightarrow> ('s, 'd) emu \<Rightarrow> (int \<times> u8 list \<times> ('s, 'd) emu) outcome" where
  "emu_read lx des buf nbytes s =
     (if dir s = None \<or> dir_fd s \<noteq> des
      then let (r, b, h) = lx_sys_read lx des buf nbytes (host s) in Ret (DO_CALL r, b, s\<lparr>host := h\<rparr>)
      else let (de, h) = lx_readdir lx (the (dir s)) (host s)
           in case de of None \<Rightarrow> Ret (0, buf, s\<lparr>host := h\<rparr>)
              | Some d_name \<Rightarrow> obind (copy_name d_name 0 nbytes buf) (\<lambda>(r, b). Ret (r, b, s\<lparr>host := h\<rparr>)))"

definition emu_write :: "('s, 'd) linux \<Rightarrow> int \<Rightarrow> u8 list \<Rightarrow> int \<Rightarrow> ('s, 'd) emu \<Rightarrow> (int \<times> ('s, 'd) emu) outcome" where
  "emu_write lx des buf nbytes s =
     (if dir s = None \<or> dir_fd s \<noteq> des
      then let (r, h) = lx_sys_write lx des buf nbytes (host s) in Ret (DO_CALL r, s\<lparr>host := h\<rparr>)
      else Ret (-1, s))"

definition emu_close :: "('s, 'd) linux \<Rightarrow> int \<Rightarrow> ('s, 'd) emu \<Rightarrow> (int \<times> ('s, 'd) emu) outcome" where
  "emu_close lx des s =
     (if dir s = None \<or> dir_fd s \<noteq> des
      then let (r, h) = lx_sys_close lx des (host s) in Ret (DO_CALL r, s\<lparr>host := h\<rparr>)
      else let h = lx_closedir lx (the (dir s)) (host s)
           in Ret (0, s\<lparr>host := lx_close lx (dir_fd s) h, dir := None, dir_fd := -1\<rparr>))"

text \<open>Video memory is mapped from \<open>/dev/mem\<close>, which is opened once; the second part of the result is the address stored.\<close>

definition emu_vidmap :: "('s, 'd) linux \<Rightarrow> u32 \<Rightarrow> ('s, 'd) emu \<Rightarrow> int \<times> u32 \<times> ('s, 'd) emu" where
  "emu_vidmap lx screen_start s =
     (let (k, h) = (if mem_fd s = -1 then lx_open lx (lit ''/dev/mem'') True (host s) else (mem_fd s, host s));
          (image, h) = lx_mmap lx k h
      in case image of None \<Rightarrow> (-1, screen_start, s\<lparr>mem_fd := k, host := lx_perror lx (lit ''mmap low memory'') h\<rparr>)
         | Some a \<Rightarrow> (0, a + 0xB8000, s\<lparr>mem_fd := k, host := h\<rparr>))"

section \<open>Scanning\<close>

lemma copy_string_run:
  "0 \<notin> set t \<Longrightarrow> length pre + length t < length (pre @ b) \<Longrightarrow>
     copy_string (t @ 0 # r) (length pre) (pre @ b) = Ret (pre @ t @ 0 # drop (Suc (length t)) b)"
proof (induction t arbitrary: pre b)
  case Nil
  then show ?case by (cases b) auto
next
  case (Cons x t)
  obtain y b' where b: "b = y # b'" using Cons.prems(2) by (cases b) auto
  have "copy_string (t @ 0 # r) (length (pre @ [x])) ((pre @ [x]) @ b') = Ret ((pre @ [x]) @ t @ 0 # drop (Suc (length t)) b')"
    using Cons.prems b by (intro Cons.IH) auto
  then show ?case using Cons.prems(1) b by simp
qed

lemma copy_string_overrun:
  "0 \<notin> set t \<Longrightarrow> length (pre @ b) \<le> length pre + length t \<Longrightarrow> copy_string (t @ 0 # r) (length pre) (pre @ b) = Undef"
proof (induction t arbitrary: pre b)
  case (Cons x t)
  show ?case
  proof (cases b)
    case (Cons y b')
    have "copy_string (t @ 0 # r) (length (pre @ [x])) ((pre @ [x]) @ b') = Undef"
      using Cons.prems local.Cons by (intro Cons.IH) auto
    then show ?thesis using Cons.prems(1) local.Cons by simp
  qed simp
qed simp

lemma word_end_run:
  assumes "\<forall>x\<in>set w. word_char x" "\<not> word_char d"
  shows "word_end (pre @ w @ d # post) (length pre) = Ret (length pre + length w)"
  using assms
proof (induction w arbitrary: pre)
  case Nil
  then show ?case by (subst word_end.simps) (auto simp: word_char_def nth_append)
next
  case (Cons x w)
  have "word_end (pre @ (x # w) @ d # post) (length pre) = word_end ((pre @ [x]) @ w @ d # post) (length (pre @ [x]))"
    using Cons.prems by (subst word_end.simps) (simp add: word_char_def nth_append)
  also have "\<dots> = Ret (length (pre @ [x]) + length w)" using Cons.prems by (intro Cons.IH) auto
  finally show ?case by simp
qed

lemma blanks_end_run: "d \<noteq> 32 \<Longrightarrow> blanks_end (pre @ replicate i 32 @ d # post) (length pre) = Ret (length pre + i)"
proof (induction i arbitrary: pre)
  case 0
  then show ?case by (subst blanks_end.simps) (auto simp: nth_append)
next
  case (Suc i)
  have "blanks_end (pre @ replicate (Suc i) 32 @ d # post) (length pre) = blanks_end ((pre @ [32]) @ replicate i 32 @ d # post) (length (pre @ [32]))"
    by (subst blanks_end.simps) (simp add: nth_append)
  also have "\<dots> = Ret (length (pre @ [32]) + i)" using Suc by blast
  finally show ?case by simp
qed

text \<open>Blanks, a word, and the rest.\<close>

lemma blanks_split: "\<exists>i u. t = replicate i (32 :: u8) @ u \<and> (u = [] \<or> hd u \<noteq> 32)"
proof (intro exI conjI)
  have "takeWhile (\<lambda>x. x = 32) t = replicate (length (takeWhile (\<lambda>x. x = 32) t)) 32"
    using set_takeWhileD by (intro replicate_eqI) fastforce+
  then show "t = replicate (length (takeWhile (\<lambda>x. x = 32) t)) 32 @ dropWhile (\<lambda>x. x = 32) t"
    by (metis takeWhile_dropWhile_id)
  show "dropWhile (\<lambda>x. x = 32) t = [] \<or> hd (dropWhile (\<lambda>x. x = 32) t) \<noteq> 32" using hd_dropWhile by fast
qed

lemma word_split:
  assumes "0 \<notin> set u" "10 \<notin> set u"
  shows "\<exists>w v. u = w @ v \<and> (\<forall>x\<in>set w. word_char x) \<and> (v = [] \<or> hd v = 32) \<and> (u \<noteq> [] \<and> hd u \<noteq> 32 \<longrightarrow> w \<noteq> [])"
proof (intro exI conjI)
  show "u = takeWhile (\<lambda>x. x \<noteq> 32) u @ dropWhile (\<lambda>x. x \<noteq> 32) u" by simp
  show "\<forall>x\<in>set (takeWhile (\<lambda>x. x \<noteq> 32) u). word_char x"
    using assms by (auto simp: word_char_def dest: set_takeWhileD)
  show "dropWhile (\<lambda>x. x \<noteq> 32) u = [] \<or> hd (dropWhile (\<lambda>x. x \<noteq> 32) u) = 32" using hd_dropWhile by fast
  show "u \<noteq> [] \<and> hd u \<noteq> 32 \<longrightarrow> takeWhile (\<lambda>x. x \<noteq> 32) u \<noteq> []" by (cases u) auto
qed

text \<open>
  The scan of a text without newlines: the offsets \<open>rel\<close> in the scanned part \<open>t'\<close>, with NULs put in, are those of its words.
\<close>

definition strings_at :: "u8 list \<Rightarrow> nat list \<Rightarrow> u8 list list" where
  "strings_at b ks = map (\<lambda>k. cstr (drop k b)) ks"

lemma strings_at_append [simp]: "strings_at b (ks @ ks') = strings_at b ks @ strings_at b ks'" "strings_at b [] = []"
  "strings_at b (k # ks) = cstr (drop k b) # strings_at b ks"
  by (simp_all add: strings_at_def)

lemma cstr_stop: "0 \<in> set b \<Longrightarrow> cstr (b @ c) = cstr b"
  by (simp add: cstr_def)

lemma strings_at_shift:
  assumes "0 \<in> set b" "\<forall>k\<in>set ks. k < length b \<and> 0 \<in> set (drop k b)"
  shows "strings_at (pre @ b @ post) (map ((+) (length pre)) ks) = strings_at b ks"
  using assms(2) by (simp add: strings_at_def cstr_stop)

lemma parse_args_blanks: "parse_args args (pre @ replicate i 32 @ 0 # post) (length pre) = Ret (args, pre @ replicate i 32 @ 0 # post)"
proof -
  have "blanks_end (pre @ replicate i 32 @ 0 # post) (length pre) = Ret (length pre + i)" by (rule blanks_end_run) simp
  then show ?thesis by (subst parse_args.simps) (simp add: nth_append list_update_append)
qed

lemma parse_args_word:
  assumes "\<forall>x\<in>set w. word_char x" "w \<noteq> []" "d = 0 \<or> d = 32" "length args < 1024"
  shows "parse_args args (pre @ replicate i 32 @ w @ d # post) (length pre) =
    (if d = 0 then Ret (args @ [length pre + i], pre @ replicate i 32 @ w @ 0 # post)
     else parse_args (args @ [length pre + i]) ((pre @ replicate i 32 @ w @ [0]) @ post) (length (pre @ replicate i 32 @ w @ [0])))"
proof -
  let ?b = "pre @ replicate i 32 @ w @ d # post"
  let ?e = "length pre + i + length w"
  obtain x w' where x: "w = x # w'" using assms(2) by (cases w) auto
  have be: "blanks_end ?b (length pre) = Ret (length pre + i)"
    using blanks_end_run[of x pre i "w' @ d # post"] assms(1) x by (simp add: word_char_def)
  have at: "?b ! (length pre + i) = x" "x \<noteq> 0" "x \<noteq> 10" using assms(1) x by (auto simp: nth_append word_char_def)
  have we: "word_end ?b (length pre + i) = Ret ?e"
    using word_end_run[OF assms(1), of d "pre @ replicate i 32" post] assms(3) by (auto simp: word_char_def)
  have e: "?b ! ?e = d" "?b[?e := 0] = pre @ replicate i 32 @ w @ 0 # post"
    by (simp_all add: nth_append list_update_append)
  have "parse_args args ?b (length pre) =
      (if d \<noteq> 0 then parse_args (args @ [length pre + i]) (pre @ replicate i 32 @ w @ 0 # post) (Suc ?e)
       else parse_args (args @ [length pre + i]) ?b ?e)"
    using be at assms(4) we e by (subst parse_args.simps) simp
  moreover have "parse_args (args @ [length pre + i]) ?b ?e = Ret (args @ [length pre + i], ?b)" if "d = 0"
    using parse_args_blanks[of "args @ [length pre + i]" "pre @ replicate i 32 @ w" 0 post] that by (simp add: add.assoc)
  ultimately show ?thesis by (simp add: add.assoc)
qed

lemma parse_args_run:
  assumes "0 \<notin> set t" "10 \<notin> set t" "length args + length t < 1024"
  shows "\<exists>rel t'. parse_args args (pre @ t @ 0 # post) (length pre) = Ret (args @ map ((+) (length pre)) rel, pre @ t' @ 0 # post) \<and>
    length t' = length t \<and> strings_at (t' @ [0]) rel = words_in t \<and> (\<forall>k\<in>set rel. k \<le> length t) \<and> length rel \<le> length t"
  using assms
proof (induction "length t" arbitrary: t args pre rule: less_induct)
  case less
  obtain i u where iu: "t = replicate i 32 @ u" "u = [] \<or> hd u \<noteq> 32" using blanks_split by blast
  show ?case
  proof (cases "u = []")
    case True
    then show ?thesis using iu parse_args_blanks[of args pre i post] by (intro exI[of _ "[]"] exI[of _ t]) simp
  next
    case u: False
    obtain w v where wv: "u = w @ v" "\<forall>x\<in>set w. word_char x" "v = [] \<or> hd v = 32" "w \<noteq> []"
      using word_split[of u] iu(2) u less.prems(1,2) iu(1) by auto
    have w: "32 \<notin> set w" "0 \<notin> set w" using wv(2) by (auto simp: word_char_def)
    have room: "length args < 1024" using less.prems(3) by simp
    show ?thesis
    proof (cases v)
      case Nil
      have "strings_at (t @ [0]) [i] = words_in t" using iu wv Nil w by (simp add: words_in_word(2) cstr_split)
      moreover have "parse_args args (pre @ t @ 0 # post) (length pre) = Ret (args @ [length pre + i], pre @ t @ 0 # post)"
        using parse_args_word[OF wv(2,4) _ room, of 0 pre i post] iu wv(1) Nil by simp
      ultimately show ?thesis using iu wv(1,4) by (intro exI[of _ "[i]"] exI[of _ t]) (simp add: Suc_le_eq)
    next
      case (Cons y v')
      then have v: "v = 32 # v'" using wv(3) by simp
      let ?r = "replicate i 32 @ w @ [0]"
      have sm: "length v' < length t" "0 \<notin> set v'" "10 \<notin> set v'" "length (args @ [length pre + i]) + length v' < 1024"
        using iu wv(1) v less.prems by auto
      from less.hyps[OF sm, of "pre @ ?r"] obtain rel t' where r:
          "parse_args (args @ [length pre + i]) ((pre @ ?r) @ v' @ 0 # post) (length (pre @ ?r)) =
            Ret ((args @ [length pre + i]) @ map ((+) (length (pre @ ?r))) rel, (pre @ ?r) @ t' @ 0 # post)" "length t' = length v'"
          "strings_at (t' @ [0]) rel = words_in v'" "\<forall>k\<in>set rel. k \<le> length v'" "length rel \<le> length v'" by blast
      let ?ks = "i # map ((+) (length ?r)) rel"
      have step: "parse_args args (pre @ t @ 0 # post) (length pre) =
          parse_args (args @ [length pre + i]) ((pre @ ?r) @ v' @ 0 # post) (length (pre @ ?r))"
        using parse_args_word[OF wv(2,4) _ room, of 32 pre i "v' @ 0 # post"] iu wv(1) v by simp
      have "strings_at (?r @ (t' @ [0]) @ []) (map ((+) (length ?r)) rel) = strings_at (t' @ [0]) rel"
        using r(2,4) by (intro strings_at_shift) auto
      then have "strings_at ((?r @ t') @ [0]) ?ks = words_in t" using r(3) iu wv(1,4) v w by (simp add: words_in_word cstr_split)
      moreover have "map ((+) (length pre)) ?ks = (length pre + i) # map ((+) (length (pre @ ?r))) rel" by (simp add: add.assoc)
      moreover have "length (?r @ t') = length t" "\<forall>k\<in>set ?ks. k \<le> length t" "length ?ks \<le> length t" using r(2,4,5) iu wv(1) v by auto
      ultimately show ?thesis using step r(1) by (intro exI[of _ ?ks] exI[of _ "?r @ t'"]) simp
    qed
  qed
qed

section \<open>Joining\<close>

lemma close_args_run: "0 < n \<Longrightarrow> n \<le> length b \<Longrightarrow> close_args (length pre) (int n) (pre @ b) = Ret (0, pre @ 0 # drop 1 b)"
  by (cases b) (auto simp: close_args_def)

lemma args_loop_step:
  assumes "0 \<notin> set w" "args \<noteq> []" "length w < n" "n \<le> length b"
  shows "args_loop ((w @ [0]) # args) (length pre) (int n) (pre @ b) =
    args_loop args (length (pre @ w @ [32])) (int (n - length w - 1)) ((pre @ w @ [32]) @ drop (Suc (length w)) b)"
proof -
  have "copy_string (w @ [0]) (length pre) (pre @ b) = Ret (pre @ w @ 0 # drop (Suc (length w)) b)"
    using assms by (intro copy_string_run) auto
  moreover have "int n - int (length w) - 1 = int (n - length w - 1)" using assms(3) by linarith
  ultimately show ?thesis using assms by (simp add: ece391_strlen_eq terminated_split cstr_split nth_append list_update_append diff_diff_eq add.commute)
qed

lemma args_loop_run:
  assumes "\<forall>w\<in>set ws. 0 \<notin> set w" "length (unwords ws) < n" "n \<le> length b"
  shows "args_loop (map (\<lambda>w. w @ [0]) ws) (length pre) (int n) (pre @ b) =
    Ret (0, pre @ unwords ws @ 0 # drop (Suc (length (unwords ws))) b)"
  using assms
proof (induction ws arbitrary: pre n b rule: unwords.induct)
  case 1
  then show ?case by (simp add: close_args_run)
next
  case (2 w)
  have "copy_string (w @ [0]) (length pre) (pre @ b) = Ret (pre @ w @ 0 # drop (Suc (length w)) b)"
    using 2 by (intro copy_string_run) auto
  moreover have "close_args (length (pre @ w)) (int (n - length w)) ((pre @ w) @ 0 # drop (Suc (length w)) b) =
      Ret (0, (pre @ w) @ 0 # drop 1 (0 # drop (Suc (length w)) b))"
    using 2 by (intro close_args_run) auto
  ultimately show ?case using 2 by (simp add: ece391_strlen_eq terminated_split cstr_split of_nat_diff)
next
  case (3 w v ws)
  have "args_loop (map (\<lambda>w. w @ [0]) (v # ws)) (length (pre @ w @ [32])) (int (n - length w - 1)) ((pre @ w @ [32]) @ drop (Suc (length w)) b) =
      Ret (0, (pre @ w @ [32]) @ unwords (v # ws) @ 0 # drop (Suc (length (unwords (v # ws)))) (drop (Suc (length w)) b))"
    using 3(2-4) by (intro 3(1)) auto
  moreover have "args_loop (map (\<lambda>w. w @ [0]) (w # v # ws)) (length pre) (int n) (pre @ b) =
      args_loop (map (\<lambda>w. w @ [0]) (v # ws)) (length (pre @ w @ [32])) (int (n - length w - 1)) ((pre @ w @ [32]) @ drop (Suc (length w)) b)"
    unfolding list.map(2)[of _ w] using 3(2-4) by (intro args_loop_step) auto
  ultimately show ?case by (simp only:) (simp add: add.commute)
qed

lemma args_loop_overrun:
  assumes "\<forall>w\<in>set ws. 0 \<notin> set w" "ws \<noteq> []" "length (unwords ws) = n" "length b = n"
  shows "args_loop (map (\<lambda>w. w @ [0]) ws) (length pre) (int n) (pre @ b) = Undef"
  using assms
proof (induction ws arbitrary: pre n b rule: unwords.induct)
  case (2 w)
  have "copy_string (w @ [0]) (length pre) (pre @ b) = Undef" using 2 by (intro copy_string_overrun) auto
  then show ?case using 2 by (simp add: ece391_strlen_eq terminated_split cstr_split)
next
  case (3 w v ws)
  have "args_loop (map (\<lambda>w. w @ [0]) (v # ws)) (length (pre @ w @ [32])) (int (n - length w - 1)) ((pre @ w @ [32]) @ drop (Suc (length w)) b) = Undef"
    using 3(2-5) by (intro 3(1)) auto
  moreover have "args_loop (map (\<lambda>w. w @ [0]) (w # v # ws)) (length pre) (int n) (pre @ b) =
      args_loop (map (\<lambda>w. w @ [0]) (v # ws)) (length (pre @ w @ [32])) (int (n - length w - 1)) ((pre @ w @ [32]) @ drop (Suc (length w)) b)"
    unfolding list.map(2)[of _ w] using 3(2-5) by (intro args_loop_step) auto
  ultimately show ?case by (simp only:)
qed simp

section \<open>Words of a command\<close>

text \<open>The arguments of \<open>execv\<close>: the first word with the directory, and the others.\<close>

definition emu_argv :: "u8 list \<Rightarrow> u8 list list" where
  "emu_argv t = ([46, 47] @ hd (split_on 32 t)) # filter (\<lambda>w. w \<noteq> []) (tl (split_on 32 t))"

lemma emu_argv_first: "32 \<notin> set w \<Longrightarrow> emu_argv (w @ 32 # v) = ([46, 47] @ w) # words_in v" "32 \<notin> set w \<Longrightarrow> emu_argv w = [[46, 47] @ w]"
  by (simp_all add: emu_argv_def split_on_append split_on_one words_in_def)

text \<open>What precedes the first blank names the program; the words behind it are its arguments.\<close>

lemma emu_argv_words: "emu_argv t = ([46, 47] @ takeWhile (\<lambda>c. c \<noteq> 32) t) # words_in (tl (dropWhile (\<lambda>c. c \<noteq> 32) t))"
proof (cases "32 \<in> set t")
  case True
  then obtain w v where t: "t = w @ 32 # v" "32 \<notin> set w" by (meson split_list_first)
  have "\<forall>c\<in>set w. c \<noteq> 32" using t(2) by blast
  then show ?thesis using t by (simp add: emu_argv_first(1) takeWhile_tail dropWhile_append2)
next
  case False
  then have tw: "takeWhile (\<lambda>c. c \<noteq> 32) t = t" "dropWhile (\<lambda>c. c \<noteq> 32) t = []"
    by (auto simp: takeWhile_eq_all_conv dropWhile_eq_Nil_conv)
  show ?thesis unfolding tw using False by (simp add: emu_argv_first(2) words_in_def split_on_one)
qed

lemma emu_parse_run:
  assumes "0 \<notin> set t" "10 \<notin> set t" "length t \<le> 1023"
  shows "\<exists>scan args b1. word_end ([46, 47] @ t @ 0 # post) 2 = Ret scan \<and>
    (if ([46, 47] @ t @ 0 # post) ! scan \<noteq> 0 then parse_args [0] (([46, 47] @ t @ 0 # post)[scan := 0]) (Suc scan) else Ret ([0], [46, 47] @ t @ 0 # post)) =
      Ret (args, b1) \<and> length args < 1024 \<and> strings_at b1 args = emu_argv t \<and> cstr b1 = hd (emu_argv t)"
proof -
  obtain w v where wv: "t = w @ v" "\<forall>x\<in>set w. word_char x" "v = [] \<or> hd v = 32" using word_split[OF assms(1,2)] by blast
  have w: "32 \<notin> set w" "0 \<notin> set w" using wv(2) by (auto simp: word_char_def)
  show ?thesis
  proof (cases v)
    case Nil
    have "word_end ([46, 47] @ t @ 0 # post) 2 = Ret (2 + length w)"
      using word_end_run[OF wv(2), of 0 "[46, 47]" post] wv(1) Nil by (simp add: word_char_def numeral_2_eq_2)
    moreover have "([46, 47] @ t @ 0 # post) ! (2 + length w) = 0" using wv(1) Nil by (simp add: nth_append)
    moreover have "cstr ([46, 47] @ t @ 0 # post) = [46, 47] @ w" using wv(1) Nil w cstr_split[of "[46, 47] @ w" post] by simp
    ultimately show ?thesis using wv(1) Nil w
      by (intro exI[of _ "2 + length w"] exI[of _ "[0]"] exI[of _ "[46, 47] @ t @ 0 # post"]) (simp add: emu_argv_first)
  next
    case (Cons y v')
    then have v: "v = 32 # v'" using wv(3) by simp
    let ?b = "[46, 47] @ t @ 0 # post" and ?pre = "[46, 47] @ w @ [0]"
    have we: "word_end ?b 2 = Ret (2 + length w)"
      using word_end_run[OF wv(2), of 32 "[46, 47]" "v' @ 0 # post"] wv(1) v by (simp add: word_char_def numeral_2_eq_2)
    have e: "?b ! (2 + length w) = 32" "?b[2 + length w := 0] = ?pre @ v' @ 0 # post"
      using wv(1) v by (simp_all add: nth_append list_update_append)
    have "0 \<notin> set v'" "10 \<notin> set v'" "length [0 :: nat] + length v' < 1024" using assms wv(1) v by auto
    from parse_args_run[OF this, of ?pre post] obtain rel t' where r:
      "parse_args [0] (?pre @ v' @ 0 # post) (length ?pre) = Ret ([0] @ map ((+) (length ?pre)) rel, ?pre @ t' @ 0 # post)"
      "length t' = length v'" "strings_at (t' @ [0]) rel = words_in v'" "\<forall>k\<in>set rel. k \<le> length v'" "length rel \<le> length v'" by blast
    let ?b1 = "?pre @ t' @ 0 # post"
    have "cstr ?b1 = [46, 47] @ w" using w cstr_split[of "[46, 47] @ w" "t' @ 0 # post"] by simp
    moreover have "strings_at (?pre @ (t' @ [0]) @ post) (map ((+) (length ?pre)) rel) = strings_at (t' @ [0]) rel"
      using r(2,4) by (intro strings_at_shift) auto
    ultimately have "strings_at ?b1 ([0] @ map ((+) (length ?pre)) rel) = emu_argv t" "cstr ?b1 = hd (emu_argv t)"
      using r(3) wv(1) v w by (simp_all add: emu_argv_first)
    moreover have "length ([0] @ map ((+) (length ?pre)) rel) < 1024" using r(5) assms(3) wv(1) v by simp
    ultimately show ?thesis using we e r(1)
      by (intro exI[of _ "2 + length w"] exI[of _ "[0] @ map ((+) (length ?pre)) rel"] exI[of _ ?b1]) simp
  qed
qed

section \<open>Directory entries\<close>

lemma fill_name_run:
  assumes "length pre \<le> m" "m = min n 32" "m \<le> length (pre @ b)"
  shows "fill_name (length pre) (int n) (pre @ b) = Ret (int m, pre @ replicate (m - length pre) 0 @ drop (m - length pre) b)"
  using assms
proof (induction "m - length pre" arbitrary: pre b)
  case 0
  then show ?case by (subst fill_name.simps) auto
next
  case (Suc k)
  obtain y b' where b: "b = y # b'" using Suc.hyps(2) Suc.prems(3) by (cases b) auto
  have lt: "length pre < n" "length pre < 32" using Suc.hyps(2) Suc.prems(2) by (simp_all add: min_def split: if_splits)
  have k: "m - length pre = Suc (m - length (pre @ [0]))" using Suc.hyps(2) by simp
  have "fill_name (length (pre @ [0])) (int n) ((pre @ [0]) @ b') =
      Ret (int m, (pre @ [0]) @ replicate (m - length (pre @ [0])) 0 @ drop (m - length (pre @ [0])) b')"
    using Suc.hyps(2) Suc.prems b by (intro Suc.hyps(1)) auto
  moreover have "fill_name (length pre) (int n) (pre @ b) = fill_name (length (pre @ [0])) (int n) ((pre @ [0]) @ b')"
    using lt b by (subst fill_name.simps) simp
  ultimately show ?case unfolding k b by simp
qed

lemma copy_name_run:
  assumes "0 \<notin> set nm" "length pre < m" "m = min n 32" "m \<le> length (pre @ b)" "k = m - length pre"
  shows "copy_name (nm @ 0 # r) (length pre) (int n) (pre @ b) = Ret (int m, pre @ take k (nm @ replicate k 0) @ drop k b)"
  using assms
proof (induction nm arbitrary: pre b k)
  case Nil
  then show ?case using fill_name_run[of pre m n b] by simp
next
  case (Cons x nm)
  obtain y b' where b: "b = y # b'" using Cons.prems by (cases b) auto
  show ?case
  proof (cases "Suc (length pre) = m")
    case True
    then have "k = 1" using Cons.prems by simp
    with True Cons.prems b show ?thesis by (auto simp: min_def split: if_splits)
  next
    case False
    then obtain k' where k': "k = Suc k'" "k' = m - length (pre @ [x])" "k' \<noteq> 0" using Cons.prems(2,5) by (cases k) auto
    have lt: "length (pre @ [x]) < m" using False Cons.prems(2) by simp
    have "copy_name (nm @ 0 # r) (length (pre @ [x])) (int n) ((pre @ [x]) @ b') =
        Ret (int m, (pre @ [x]) @ take k' (nm @ replicate k' 0) @ drop k' b')"
      using Cons.prems(1,4) b k'(2) by (intro Cons.IH lt Cons.prems(3)) simp_all
    moreover have "k' \<le> k" using k'(1) by simp
    then have "take k' (nm @ replicate k 0) = take k' (nm @ replicate k' 0)" by (auto simp: min_def)
    moreover have "Suc (length pre) \<noteq> n" "Suc (length pre) \<noteq> 32" using False Cons.prems(2,3) by auto
    ultimately show ?thesis using Cons.prems(1) b k'(1) by simp
  qed
qed

section \<open>Properties\<close>

text \<open>
  C23: the emulated \<open>execute\<close> runs the program of the current directory named by what precedes the first blank of the command, with
  that and the words behind the blank as arguments, and the value it returns is the exit status, \<open>-1\<close> for a program that could not be
  run, and 256 for one ended by another signal; a command of more than 1023 characters is refused. This is for commands without newlines, of any
  number of words. Blanks at the start of the command are not skipped: the name is then the empty one, \<open>./\<close>, and the first word an argument.
\<close>

theorem emulate_execute_words:
  assumes "terminated command" "t = cstr command" "10 \<notin> set t" "length buf = 1026"
    and "path = [46, 47] @ takeWhile (\<lambda>c. c \<noteq> 32) t" "argv = words_in (tl (dropWhile (\<lambda>c. c \<noteq> 32) t))"
    and "lx_wait lx (lx_spawn lx path (path # argv) (host s)) = (st, h)"
  shows "emu_execute lx status buf command s =
    (if 1023 < length t then Ret (-1, s)
     else Ret (exit_value (case st of None \<Rightarrow> status | Some v \<Rightarrow> v), s\<lparr>host := h\<rparr>))"
proof (cases "1023 < length t")
  case True
  then show ?thesis using assms(1,2) by (simp add: emu_execute_def ece391_strlen_eq)
next
  case False
  then have len: "length t \<le> 1023" by simp
  have t: "0 \<notin> set t" using assms(2) cstr_no_NUL by simp
  obtain r where c: "command = t @ 0 # r" using assms(1,2) terminated_decomp by metis
  obtain x y b0 where b: "buf = x # y # b0" "length b0 = 1024" using assms(4) by (cases buf; cases "tl buf") auto
  define B where "B = [46, 47] @ t @ 0 # drop (Suc (length t)) b0"
  have cp: "copy_string command 2 (46 # 47 # b0) = Ret B"
    using copy_string_run[OF t, of "[46, 47]" b0 r] len b(2) c by (simp add: numeral_2_eq_2 B_def)
  obtain scan args b1 where p: "word_end B 2 = Ret scan"
    "(if B ! scan \<noteq> 0 then parse_args [0] (B[scan := 0]) (Suc scan) else Ret ([0], B)) = Ret (args, b1)"
    "length args < 1024" "map (\<lambda>k. cstr (drop k b1)) args = emu_argv t" "cstr b1 = hd (emu_argv t)"
    using emu_parse_run[OF t assms(3) len, of "drop (Suc (length t)) b0"] unfolding B_def strings_at_def by blast
  have v: "emu_argv t = path # argv" using assms(5,6) by (simp add: emu_argv_words)
  have sl: "ece391_strlen command = Ret (length t)" using assms(1,2) by (simp add: ece391_strlen_eq)
  show ?thesis
    using False assms(7) v b(1) p(3) unfolding emu_execute_def sl obind.simps
    by (simp add: cp p(1,2,4,5) split del: if_split)
qed

text \<open>A system on which every program exits with status 3; its state is the list of the programs run.\<close>

definition demo_linux :: "((u8 list \<times> u8 list list) list, nat) linux" where
  "demo_linux = \<lparr>lx_spawn = (\<lambda>p a h. h @ [(p, a)]), lx_wait = (\<lambda>h. (Some (Exited 3), h)), lx_opendir = (\<lambda>_ h. (Some 0, h)),
     lx_readdir = (\<lambda>d h. (Some [97, 98, 0, 7], h)), lx_closedir = (\<lambda>_ h. h), lx_open = (\<lambda>_ _ h. (5, h)), lx_close = (\<lambda>_ h. h),
     lx_mmap = (\<lambda>_ h. (None, h)), lx_perror = (\<lambda>_ h. h), lx_sys_open = (\<lambda>_ h. (3, h)), lx_sys_read = (\<lambda>_ b _ h. (0, b, h)),
     lx_sys_write = (\<lambda>_ _ _ h. (0, h)), lx_sys_close = (\<lambda>_ h. (0, h))\<rparr>"

theorem emulate_execute_words_witness:
  "emu_execute demo_linux (Exited 0) (replicate 1026 1) [108, 32, 97, 32, 32, 98, 0] (emu_init []) =
     Ret (3, emu_init [([46, 47, 108], [[46, 47, 108], [97], [98]])])"
proof -
  define buf :: "u8 list" where "buf = replicate 1026 1"
  have t: "cstr [108, 32, 97, 32, 32, 98, 0 :: u8] = [108, 32, 97, 32, 32, 98]" "terminated [108, 32, 97, 32, 32, 98, 0 :: u8]"
    by (simp_all add: cstr_def terminated_def)
  have v: "words_in [97, 32, 32, 98 :: u8] = [[97], [98]]" by (simp add: words_in_def)
  show ?thesis
    using emulate_execute_words[OF t(2) refl _ _ refl refl, of buf demo_linux "emu_init []" "Some (Exited 3)" "[([46, 47, 108], [[46, 47, 108], [97], [98]])]" "Exited 0"]
    by (simp add: t v demo_linux_def emu_init_def exit_value_def buf_def del: replicate.simps)
qed

text \<open>
  C24: the emulated \<open>getargs\<close> gives a program the words behind the first blank of its command, with single blanks in between, whatever
  blanks there were between and after them, when the buffer has room for them and a NUL; splitting the text gives the same words again. When they
  fill the buffer exactly, the NUL of the last one is written behind it. A command that begins with a blank has its first word among them.
\<close>

theorem emulate_getargs_words:
  assumes "0 \<notin> set t" "ws = words_in (tl (dropWhile (\<lambda>c. c \<noteq> 32) t))" "n \<le> length buf"
  shows "words_in (unwords ws) = ws \<and>
    (length (unwords ws) < n \<longrightarrow>
       emu_getargs (map (\<lambda>w. w @ [0]) (emu_argv t)) buf (int n) = Ret (0, unwords ws @ 0 # drop (Suc (length (unwords ws))) buf)) \<and>
    (ws \<noteq> [] \<and> length (unwords ws) = n \<and> n = length buf \<longrightarrow> emu_getargs (map (\<lambda>w. w @ [0]) (emu_argv t)) buf (int n) = Undef)"
proof -
  have ws: "ws = tl (emu_argv t)" using assms(2) by (simp add: emu_argv_words)
  have w: "w \<noteq> [] \<and> 32 \<notin> set w \<and> 0 \<notin> set w" if "w \<in> set ws" for w
  proof -
    have "w \<in> set (split_on 32 t)" "w \<noteq> []" using that ws by (auto simp: emu_argv_def dest: list.set_sel(2)[rotated])
    with split_on_chars[of w 32 t] assms(1) show ?thesis by auto
  qed
  have argv: "tl (map (\<lambda>w. w @ [0]) (emu_argv t)) = map (\<lambda>w. w @ [0]) ws" using ws by (simp add: map_tl)
  have g: "emu_getargs (map (\<lambda>w. w @ [0]) (emu_argv t)) buf (int n) = args_loop (map (\<lambda>w. w @ [0]) ws) 0 (int n) buf"
    unfolding emu_getargs_def argv by simp
  have nul: "\<forall>w\<in>set ws. 0 \<notin> set w" using w by blast
  show ?thesis unfolding g
  proof (intro conjI impI)
    show "words_in (unwords ws) = ws" using w by (intro words_in_unwords) blast
  next
    assume "length (unwords ws) < n"
    from args_loop_run[OF nul this assms(3), of "[]"]
    show "args_loop (map (\<lambda>w. w @ [0]) ws) 0 (int n) buf = Ret (0, unwords ws @ 0 # drop (Suc (length (unwords ws))) buf)"
      by simp
  next
    assume "ws \<noteq> [] \<and> length (unwords ws) = n \<and> n = length buf"
    then have "ws \<noteq> []" "length (unwords ws) = n" "length buf = n" by simp_all
    from args_loop_overrun[OF nul this, of "[]"] show "args_loop (map (\<lambda>w. w @ [0]) ws) 0 (int n) buf = Undef"
      by simp
  qed
qed

theorem emulate_getargs_words_witness:
  "emu_getargs (map (\<lambda>w. w @ [0]) (emu_argv [108, 32, 97, 32, 32, 98])) [1, 1, 1, 1, 1] 5 = Ret (0, [97, 32, 98, 0, 1]) \<and>
   emu_getargs (map (\<lambda>w. w @ [0]) (emu_argv [108, 32, 97, 32, 32, 98])) [1, 1, 1] 3 = Undef"
proof -
  define t :: "u8 list" where "t = [108, 32, 97, 32, 32, 98]"
  have v: "[[97], [98]] = words_in (tl (dropWhile (\<lambda>c. c \<noteq> 32) t))" by (simp add: words_in_def t_def)
  show ?thesis
    using emulate_getargs_words[OF _ v, of 5 "[1, 1, 1, 1, 1]"] emulate_getargs_words[OF _ v, of 3 "[1, 1, 1]"] by (simp add: t_def)
qed

text \<open>
  C22: for a command of a name and one argument the emulation agrees with the kernel: \<open>getargs\<close> in the program the kernel starts and
  the emulated one in the program Linux starts return the same value and leave the same bytes in the buffer, for every size of it but the one that the
  argument fills without its NUL.
\<close>

theorem emulation_agrees:
  assumes "\<forall>c\<in>set nm. word_char c" "nm \<noteq> []" "length nm < 32" "\<forall>c\<in>set ar. word_char c" "ar \<noteq> []" "length ar < 128"
    and "command = nm @ replicate (Suc j) 32 @ ar @ [0]" "executable env command a d cur new s" "execute env (Some command) s = Ret (tr, s')"
    and "n \<le> length buf" "n \<noteq> length ar"
  shows "emu_getargs (map (\<lambda>w. w @ [0]) (emu_argv (cstr command))) buf (int n) = getargs buf (int n) s'"
proof -
  have nul: "0 \<notin> set nm" "0 \<notin> set ar" "32 \<notin> set nm" "32 \<notin> set ar" using assms(1,4) by (auto simp: word_char_def)
  have "parse_command command = Ret (Some (nm @ replicate (32 - length nm) 0, ar @ replicate (128 - length ar) 0))"
    using parse_command_words[OF assms(1-4,6), of 0 j] assms(7) by simp
  then have a: "cstr a = ar" using assms(6,8) nul(2) by (cases "128 - length ar") (auto simp: executable_def cstr_split)
  have "cstr command = nm @ 32 # replicate j 32 @ ar" using cstr_split[of "nm @ replicate (Suc j) 32 @ ar" "[]"] nul assms(7) by simp
  then have v: "emu_argv (cstr command) = [[46, 47] @ nm, ar]" using nul assms(5) by (simp add: emu_argv_first words_in_word)
  have "emu_getargs (map (\<lambda>w. w @ [0]) (emu_argv (cstr command))) buf (int n) = args_loop (map (\<lambda>w. w @ [0]) [ar]) 0 (int n) buf"
    by (simp add: v emu_getargs_def)
  also have "\<dots> = (if length ar < n then Ret (0, ar @ 0 # drop (Suc (length ar)) buf) else Ret (-1, buf))"
    using args_loop_run[of "[ar]" n buf "[]"] nul(2) assms(10,11) by (auto simp: ece391_strlen_eq terminated_split cstr_split)
  also have "\<dots> = getargs buf (int n) s'" using getargs_started[OF assms(8,9), of "int n" buf] a assms(10) by auto
  finally show ?thesis .
qed

theorem emulation_agrees_witness:
  "\<exists>s'. execute demo_env (Some demo_command) demo_kernel = Ret (Enter_user 0x08048018, s') \<and>
     emu_getargs (map (\<lambda>w. w @ [0]) (emu_argv (cstr demo_command))) [1, 1, 1, 9] 4 = getargs [1, 1, 1, 9] 4 s'"
proof -
  from execute_started[OF demo_executable] obtain s1 where
    s1: "execute demo_env (Some demo_command) demo_kernel = Ret (Enter_user 0x08048018, s1)"
    by (auto simp: demo_entry_0 same_image_inode[OF demo_kernel_image] demo_elf)
  with emulation_agrees[OF _ _ _ _ _ _ _ demo_executable s1, of "[102]" "[45, 120]" 0 4 "[1, 1, 1, 9]"] show ?thesis
    by (auto simp: word_char_def demo_command_def)
qed

text \<open>
  The emulated directory: \<open>open\<close> of \<open>.\<close> returns a descriptor from which every \<open>read\<close> gives the next name, cut or filled up with NULs to
  the length asked for, 32 at most, and returns that length and not the name's; it can not be written to, and \<open>close\<close> ends it.
\<close>

lemma emulate_directory:
  assumes "lx_opendir lx (lit ''.'') (host s) = (Some d, h1)" "lx_open lx (lit ''/dev/null'') False h1 = (k, h2)"
    and "lx_readdir lx d h2 = (Some (nm @ 0 # r), h3)" "0 \<notin> set nm" "0 < n" "m = min n 32" "m \<le> length buf"
  shows "\<exists>s1 s2. emu_open lx (lit ''.'') s = Ret (k, s1) \<and>
    emu_read lx k buf (int n) s1 = Ret (int m, take m (nm @ replicate m 0) @ drop m buf, s2) \<and>
    emu_write lx k b i s2 = Ret (-1, s2) \<and> (\<exists>s3. emu_close lx k s2 = Ret (0, s3) \<and> dir s3 = None)"
proof -
  have "copy_name (nm @ 0 # r) 0 (int n) buf = Ret (int m, take m (nm @ replicate m 0) @ drop m buf)"
    using copy_name_run[of nm "[]" m n buf m r] assms(4-7) by simp
  moreover have "ece391_strcmp (lit ''.'') (lit ''.'') = Ret 0" by (simp add: lit_def)
  ultimately show ?thesis using assms(1-3) by (simp add: emu_open_def emu_read_def emu_write_def emu_close_def Let_def)
qed

lemma emulate_directory_example:
  "\<exists>s1 s2. emu_open demo_linux (lit ''.'') (emu_init []) = Ret (5, s1) \<and> emu_read demo_linux 5 [1, 1, 1, 1] 4 s1 = Ret (4, [97, 98, 0, 0], s2)"
proof -
  have "(\<exists>s1 s2. emu_open demo_linux (lit ''.'') (emu_init []) = Ret (5, s1) \<and>
    emu_read demo_linux 5 [1, 1, 1, 1] (int 4) s1 = Ret (int 4, take 4 ([97, 98] @ replicate 4 0) @ drop 4 [1, 1, 1, 1], s2) \<and>
    emu_write demo_linux 5 [] 0 s2 = Ret (-1, s2) \<and> (\<exists>s3. emu_close demo_linux 5 s2 = Ret (0, s3) \<and> dir s3 = None))"
    by (rule emulate_directory[of _ _ 0 "[]" _ "[]" _ "[7]" "[]"]) (simp_all add: demo_linux_def emu_init_def)
  then show ?thesis by (simp add: eval_nat_numeral) blast
qed

end
