(* ===== verification/Sigtest.thy ===== *)
theory Sigtest
  imports Runs
begin

text \<open>
  \<open>ece391sigtest.c\<close>: the program writes through a null pointer, once with and once without signal handlers installed. What a store of the
  program does is an argument: it goes through, perhaps after a handler has changed where to, or the program does not get to its next
  instruction. On this kernel, which has no signals, the page fault handler prints a message and spins.
\<close>

section \<open>Definitions\<close>

text \<open>The static variables, \<open>badbuf\<close> as an address.\<close>

record sig_vars =
  charbuf :: u8
  badbuf :: u32

definition sig_start :: sig_vars where
  "sig_start = \<lparr>charbuf = 0, badbuf = 0\<rparr>"

datatype ('a, 's) progress = Resumed 'a | Stopped "'s user"

text \<open>The addresses of the handlers and of \<open>charbuf\<close>, and the registers that system calls find set to nothing in particular.\<close>

record sig_layout =
  segfault_addr :: u32
  alarm_addr :: u32
  charbuf_addr :: u32
  old_ptr :: "u32 \<Rightarrow> u8 list option"
  old_edx :: u32

abbreviation "SEGFAULT \<equiv> (1 :: u32)"
abbreviation "ALARM \<equiv> (3 :: u32)"
abbreviation "SYS_SET_HANDLER \<equiv> (9 :: u32)"

definition ece391_set_handler :: "'s calls \<Rightarrow> sig_layout \<Rightarrow> u32 \<Rightarrow> u32 \<Rightarrow> 's user \<Rightarrow> (int \<times> 's user) outcome" where
  "ece391_set_handler c la signum handler u =
     obind (sys_number c SYS_SET_HANDLER (old_ptr la, signum, handler, old_edx la) (fst u)) (\<lambda>(r, s). Ret (r, s, snd u))"

definition put_signum :: "'s calls \<Rightarrow> int \<Rightarrow> 's user \<Rightarrow> 's user outcome" where
  "put_signum c signum u =
     ece391_fdputs c 1 (lit (if signum = 0 then ''0\<newline>'' else if signum = 1 then ''1\<newline>'' else if signum = 2 then ''2\<newline>''
       else if signum = 3 then ''3\<newline>'' else ''invalid\<newline>'')) u"

text \<open>
  The handler for bad addresses. \<open>frame\<close> holds the words of the stack from \<open>signum\<close> on; the saved \<open>eax\<close> is the eighth of them, so that the store is
  tried again at the address of \<open>charbuf\<close>.
\<close>

definition segfault_sighandler :: "'s calls \<Rightarrow> sig_layout \<Rightarrow> u8 \<Rightarrow> int \<Rightarrow> u32 list \<Rightarrow> sig_vars \<Rightarrow> 's user \<Rightarrow> (u32 list \<times> sig_vars \<times> 's user) outcome" where
  "segfault_sighandler c la buf signum frame v u =
     obind (ece391_fdputs c 1 (lit ''Segfault signal handler called, signum: '') u) (\<lambda>u1.
     obind (put_signum c signum u1) (\<lambda>u2.
     obind (ece391_fdputs c 1 (lit ''Press enter to continue...\<newline>'') u2) (\<lambda>u3.
     obind (ece391_read c 0 [buf] 1 u3) (\<lambda>(r, b, u4).
     obind (buf_set frame 7 (charbuf_addr la)) (\<lambda>frame1.
     obind (ece391_fdputs c 1 (lit ''Signal handler returning\<newline>'') u4) (\<lambda>u5.
     Ret (frame1, v\<lparr>badbuf := charbuf_addr la\<rparr>, u5)))))))"

definition alarm_sighandler :: "'s calls \<Rightarrow> int \<Rightarrow> 's user \<Rightarrow> 's user outcome" where
  "alarm_sighandler c signum u =
     obind (ece391_fdputs c 1 (lit ''Alarm signal handler called, signum: '') u) (\<lambda>u1. put_signum c signum u1)"

definition sig_install :: "'s calls \<Rightarrow> sig_layout \<Rightarrow> u8 \<Rightarrow> 's user \<Rightarrow> 's user outcome" where
  "sig_install c la arg u =
     (if arg = of_char CHR ''1''
      then obind (ece391_fdputs c 1 (lit ''Installing signal handlers\<newline>'') u) (\<lambda>u1.
           obind (ece391_set_handler c la SEGFAULT (segfault_addr la) u1) (\<lambda>(r, u2).
           obind (ece391_set_handler c la ALARM (alarm_addr la) u2) (\<lambda>(r, u3). Ret u3)))
      else Ret u)"

definition sig_greet :: "'s calls \<Rightarrow> int \<Rightarrow> u8 list \<Rightarrow> sig_vars \<Rightarrow> 's user \<Rightarrow> (int \<times> 's user) outcome" where
  "sig_greet c cnt buf v u =
     (if cnt < 0 then Undef
      else obind (buf_set buf (nat cnt) 0) (\<lambda>buf1.
           obind (ece391_fdputs c 1 (lit ''Hello, '') u) (\<lambda>u1.
           obind (ece391_fdputs c 1 buf1 u1) (\<lambda>u2.
           obind (ece391_fdputs c 1 (lit (if charbuf v = 1 then ''success\<newline>'' else ''failure\<newline>'')) u2) (\<lambda>u3. Ret (0, u3))))))"

definition sigtest_main :: "'s calls \<Rightarrow> (u32 \<Rightarrow> u8 \<Rightarrow> sig_vars \<Rightarrow> 's user \<Rightarrow> (sig_vars \<times> 's user, 's) progress outcome) \<Rightarrow> sig_layout \<Rightarrow>
    u8 list \<Rightarrow> sig_vars \<Rightarrow> 's user \<Rightarrow> (int \<times> 's user, 's) progress outcome" where
  "sigtest_main c store la buf v u =
     obind (ece391_getargs c buf 1024 u) (\<lambda>(r, buf1, u1).
     if r \<noteq> 0 then obind (fail c ''could not read argument\<newline>'' 3 u1) (\<lambda>x. Ret (Resumed x))
     else obind (buf_get buf1 0) (\<lambda>arg.
          obind (sig_install c la arg u1) (\<lambda>u2.
          obind (ece391_fdputs c 1 (lit ''Hi, what's your name? '') u2) (\<lambda>u3.
          obind (ece391_read c 0 buf1 1023 u3) (\<lambda>(cnt, buf2, u4).
          if cnt = -1 then obind (fail c ''Can't read name from keyboard.\<newline>'' 3 u4) (\<lambda>x. Ret (Resumed x))
          else obind (store (badbuf v) 1 v u4) (\<lambda>w.
               case w of Stopped u5 \<Rightarrow> Ret (Stopped u5)
               | Resumed (v1, u5) \<Rightarrow> obind (sig_greet c cnt buf2 v1 u5) (\<lambda>x. Ret (Resumed x))))))))"

text \<open>
  A store by a program on this kernel: to where the page tables send it, or, when they do not, to the handler of vector 14, which does not return.
\<close>

definition kernel_store :: "(nat \<Rightarrow> u32) \<Rightarrow> sig_layout \<Rightarrow> u32 \<Rightarrow> u8 \<Rightarrow> sig_vars \<Rightarrow> 'a kernel_scheme user \<Rightarrow>
    (sig_vars \<times> 'a kernel_scheme user, 'a kernel_scheme) progress outcome" where
  "kernel_store pt_addr la addr x v u =
     obind (find_programid (fst u)) (\<lambda>pid.
     case translate pt_addr (fst u) (nat pid) True True addr of
       None \<Rightarrow> obind (exception_handler addr 14 (fst u)) (\<lambda>s. Ret (Stopped (s, snd u)))
     | Some a \<Rightarrow> Ret (Resumed (if addr = charbuf_addr la then v\<lparr>charbuf := x\<rparr> else v, poke a x (fst u), snd u)))"

section \<open>The program up to its store\<close>

definition sig_says :: "u8 \<Rightarrow> (int \<times> u8 list) list" where
  "sig_says arg = (if arg = 49 then [(1, map of_char ''Installing signal handlers\<newline>'')] else [])"

context tty
begin

lemma sig_install_says:
  assumes "ready s" "\<And>s x. ready s \<Longrightarrow> sys_number c SYS_SET_HANDLER x s = Ret (-1, s)"
  shows "\<exists>s'. sig_install c la arg (s, log) = Ret (s', log @ sig_says arg) \<and> ready s'"
  using wait.puts_lit[OF assms(1), of "''Installing signal handlers\<newline>''" log] assms
  by (auto simp: sig_install_def sig_says_def ece391_set_handler_def)

lemma sigtest_until_store:
  assumes "ready s" "\<And>s x. ready s \<Longrightarrow> sys_number c SYS_SET_HANDLER x s = Ret (-1, s)"
    and "sys_getargs c b 1024 s = Ret (0, b1, s)" "129 \<le> length b1"
  shows "\<exists>s1. opened s1 \<and> sigtest_main c store la b v (s, log) =
    obind (store (badbuf v) 1 v (s1, log @ sig_says (b1 ! 0) @ [(1, map of_char ''Hi, what's your name? '')])) (\<lambda>w.
      case w of Stopped u5 \<Rightarrow> Ret (Stopped u5)
      | Resumed (v1, u5) \<Rightarrow> obind (sig_greet c (int (length l) + 1) (l @ 10 # 0 # drop (length l + 2) b1) v1 u5) (\<lambda>x. Ret (Resumed x)))"
proof -
  obtain s2 where s2: "sig_install c la (b1 ! 0) (s, log) = Ret (s2, log @ sig_says (b1 ! 0))" "ready s2"
    using sig_install_says[OF assms(1,2)] by blast
  obtain s3 where s3: "ece391_fdputs c 1 (lit ''Hi, what's your name? '') (s2, log @ sig_says (b1 ! 0)) =
      Ret (s3, (log @ sig_says (b1 ! 0)) @ [(1, map of_char ''Hi, what's your name? '')])" "ready s3"
    using wait.puts_lit[OF s2(2), of "''Hi, what's your name? ''" "log @ sig_says (b1 ! 0)"] by auto
  define b2 where "b2 = l @ 10 # 0 # drop (length l + 2) b1"
  obtain s4 where "ece391_read c 0 b1 1023 (s3, log @ sig_says (b1 ! 0) @ [(1, map of_char ''Hi, what's your name? '')]) =
      Ret (int (length l) + 1, b2, s4, log @ sig_says (b1 ! 0) @ [(1, map of_char ''Hi, what's your name? '')])" "opened s4"
    using read_logged[OF s3(2) assms(4)] unfolding b2_def by blast
  moreover have "buf_get b1 0 = Ret (b1 ! 0)" using assms(4) by (auto simp: buf_get_def)
  ultimately show ?thesis using s2 s3 assms(3) 
    unfolding b2_def[symmetric] by (intro exI[of _ s4]) (simp add: sigtest_main_def ece391_getargs_def)
qed

text \<open>With a store that goes through, the program ends with a report on \<open>charbuf\<close>.\<close>

lemma sig_greet_reports:
  assumes "opened s"
  shows "\<exists>s'. sig_greet c (int (length l) + 1) (l @ 10 # 0 # r) v (s, log) =
    Ret (0, s', log @ [(1, map of_char ''Hello, ''), (1, l @ [10]), (1, map of_char (if charbuf v = 1 then ''success\<newline>'' else ''failure\<newline>''))])"
proof -
  obtain s1 where s1: "ece391_fdputs c 1 (lit ''Hello, '') (s, log) = Ret (s1, log @ [(1, map of_char ''Hello, '')])" "opened s1"
    using out.puts_lit[OF assms, of "''Hello, ''" log] by auto
  obtain s2 where s2: "ece391_fdputs c 1 ((l @ [10]) @ 0 # r) (s1, log @ [(1, map of_char ''Hello, '')]) =
      Ret (s2, (log @ [(1, map of_char ''Hello, '')]) @ [(1, l @ [10])])" "opened s2"
    using out.puts[OF s1(2) ended_line(2)] unfolding ended_line(3) by blast
  note p = out.puts_lit[OF s2(2), of "if charbuf v = 1 then ''success\<newline>'' else ''failure\<newline>''" "log @ [(1, map of_char ''Hello, ''), (1, l @ [10])]"]
  show ?thesis using s1(1) s2(1) p ended_line(1)[of r] by (auto simp: sig_greet_def)
qed

end

section \<open>On the kernel\<close>

lemma page_fault_returns: "\<exists>s'. page_fault cr2 s = Ret s'"
proof -
  have "printf (lit ''page fault \<newline>'') [] (clear s) = Ret (12, fold putc (map of_char ''page fault \<newline>'') (clear s))"
    using printf_plain[of "lit ''page fault \<newline>''" "[]" "clear s"] by (simp add: terminated_def lit_def cstr_def)
  moreover obtain n t where "printf (lit ''addr:%x\<newline>'') [Val cr2] (fold putc (map of_char ''page fault \<newline>'') (clear s)) =
      Ret (n, putc 10 (fold putc (map of_char ''addr:'' @ t) (fold putc (map of_char ''page fault \<newline>'') (clear s))))"
    using printf_addr by blast
  ultimately show ?thesis by (simp only: page_fault_def obind.simps snd_conv) blast
qed

text \<open>The terminal as before, with what programs see of the kernel's tables fixed.\<close>

interpretation viewed_tty: tty "kernel_calls (typing env past past_shift scs) child" "\<lambda>s. tty_open s \<and> prog_view s = view"
  "\<lambda>s. tty_ready past sh cp scs s \<and> prog_view s = view" "typed_text sh cp scs"
  for env :: "'a env" and past past_shift scs child sh cp view
proof unfold_locales
  fix s :: "'a kernel_scheme" and b n
  assume a: "tty_ready past sh cp scs s \<and> prog_view s = view" "terminated b"
  then show "\<exists>s'. sys_write (kernel_calls (typing env past past_shift scs) child) 1 b n s = Ret (int (length (cstr b)), s') \<and>
      tty_ready past sh cp scs s' \<and> prog_view s' = view"
    using write_call_tty[of s b "typing env past past_shift scs" n] by (fastforce simp: kernel_calls_def tty_ready_def)
next
  fix s :: "'a kernel_scheme" and b n
  assume a: "tty_open s \<and> prog_view s = view" "terminated b"
  then show "\<exists>s'. sys_write (kernel_calls (typing env past past_shift scs) child) 1 b n s = Ret (int (length (cstr b)), s') \<and>
      tty_open s' \<and> prog_view s' = view"
    using write_call_tty[of s b "typing env past past_shift scs" n] by (fastforce simp: kernel_calls_def)
next
  fix s :: "'a kernel_scheme" and b :: "u8 list" and n
  assume a: "tty_ready past sh cp scs s \<and> prog_view s = view" "129 \<le> length b"
  then show "\<exists>s'. sys_read (kernel_calls (typing env past past_shift scs) child) 0 b n s =
      Ret (int (length (typed_text sh cp scs)) + 1, typed_text sh cp scs @ 10 # 0 # drop (length (typed_text sh cp scs) + 2) b, s') \<and>
      tty_open s' \<and> prog_view s' = view"
    using read_call_tty[of past sh cp scs s b env past_shift "word_of_int n"] by (auto simp: kernel_calls_def bytes_of_def)
qed (simp_all add: typed_text_chars)

lemma kernel_no_handlers: "sys_number (kernel_calls env child) SYS_SET_HANDLER x s = Ret (-1, s)"
  by (cases x) (simp add: kernel_calls_def syscall_wrapper_def)

lemma null_unmapped:
  assumes "placed pt_addr" "tables_ok pt_addr s" "1 \<le> t" "t \<le> 6"
  shows "translate pt_addr s t True w 0 = None"
  using translate_user[OF assms, of w 0] by (auto simp: in_program_def in_video_def dir_index_def table_index_def)

section \<open>Properties\<close>

text \<open>
  C25: on this kernel \<open>sigtest\<close> ends in the page fault handler, with the address 0: it asks for the name, waits for the line and does not get any further, whether it
  was told to install its handlers or not, since \<open>set_handler\<close> is refused and a null pointer is mapped for no program.
\<close>

theorem sigtest_stops:
  assumes "tty_ready past sh cp scs s" "running s p" "placed pt_addr" "tables_ok pt_addr s"
    and "terminated (argument (pcbs s p))" "a = cstr (argument (pcbs s p))" "length a < 128" "length buf = 1024"
  shows "\<exists>s1 s2. sigtest_main (kernel_calls (typing env past past_shift scs) child) (kernel_store pt_addr la) la buf sig_start (s, log) =
      Ret (Stopped (s2, log @ sig_says (hd (a @ [0])) @ [(1, map of_char ''Hi, what's your name? '')])) \<and>
    exception_handler 0 14 s1 = Ret s2 \<and> prog_view s1 = prog_view s"
proof -
  let ?c = "kernel_calls (typing env past past_shift scs) child" and ?b = "a @ 0 # drop (Suc (length a)) buf"
  have "getargs buf 1024 s = Ret (0, ?b)"
    using assms(2,5-8) strcpy_fits[OF assms(5), of buf] by (simp add: getargs_def strlen_eq)
  then have g: "sys_getargs ?c buf 1024 s = Ret (0, ?b, s)" by (simp add: kernel_calls_def)
  have b: "129 \<le> length ?b" "?b ! 0 = hd (a @ [0])" using assms(7,8) by (cases a; simp)+
  note run = viewed_tty.sigtest_until_store[OF conjI[OF assms(1) refl] kernel_no_handlers g b(1), of "kernel_store pt_addr la" la sig_start log]
  then obtain s1 where s1: "prog_view s1 = prog_view s" and m: "sigtest_main ?c (kernel_store pt_addr la) la buf sig_start (s, log) =
      obind (kernel_store pt_addr la (badbuf sig_start) 1 sig_start (s1, log @ sig_says (?b ! 0) @ [(1, map of_char ''Hi, what's your name? '')])) (\<lambda>w.
        case w of Stopped u5 \<Rightarrow> Ret (Stopped u5)
        | Resumed (v1, u5) \<Rightarrow> obind (sig_greet ?c (int (length (typed_text sh cp scs)) + 1)
            (typed_text sh cp scs @ 10 # 0 # drop (length (typed_text sh cp scs) + 2) ?b) v1 u5) (\<lambda>x. Ret (Resumed x)))"
    by blast
  have r: "running s1 p" "tables_ok pt_addr s1" using s1 assms(2,4) by (auto simp: prog_view_def running_def tables_ok_def)
  have "translate pt_addr s1 p True True 0 = None"
    using null_unmapped[OF assms(3) r(2)] r(1) by (simp add: running_def)
  moreover obtain s2 where s2: "exception_handler 0 14 s1 = Ret s2" using page_fault_returns[of 0 s1] by (auto simp: exception_handler_def)
  ultimately have "kernel_store pt_addr la (badbuf sig_start) 1 sig_start (s1, lg) = Ret (Stopped (s2, lg))" for lg
    using r(1) by (simp add: kernel_store_def sig_start_def)
  then show ?thesis using m s1 s2 b(2) by auto
qed

text \<open>The demonstration kernel with its page tables, and a program with the argument 1.\<close>

definition demo_sig :: kernel where
  "demo_sig = (paging_initialize demo_tables demo_kernel)\<lparr>pcbs := (\<lambda>_. demo_pcb\<lparr>argument := 49 # replicate 127 0\<rparr>), cr3 := Page_directory 1\<rparr>"

definition demo_sig_layout :: sig_layout where
  "demo_sig_layout = \<lparr>segfault_addr = 0x8048100, alarm_addr = 0x8048200, charbuf_addr = 0x8049000, old_ptr = (\<lambda>_. None), old_edx = 0\<rparr>"

lemma demo_sig_ready: "tty_ready (\<lambda>_. 0) False False [0x0B, 0x8B] demo_sig" "running demo_sig 1" "tables_ok demo_tables demo_sig"
proof -
  have f: "mods demo_sig = mods demo_kernel" "term_wf demo_sig = term_wf demo_kernel" "find_terminal k demo_sig = find_terminal k demo_kernel"
      "old_terminal demo_sig = old_terminal demo_kernel" "running demo_sig n = running demo_kernel n" for k n
    by (simp_all add: demo_sig_def paging_initialize_def mods_def term_wf_def find_terminal_def running_def)
  have "fd (pcbs demo_sig 1) = fd (pcbs demo_kernel 1)" by (simp add: demo_sig_def)
  then have "tty_open demo_sig" using demo_tty_open demo_running f by (auto simp: tty_open_def demo_sig_def)
  then show "tty_ready (\<lambda>_. 0) False False [0x0B, 0x8B] demo_sig"
    by (simp add: tty_ready_def f demo_kernel_kbd line_code_def mods_after.simps(2))
  show "running demo_sig 1" using f demo_running by simp
  show "tables_ok demo_tables demo_sig" using paging_initialize_ok[of demo_tables demo_kernel] by (simp add: demo_sig_def tables_ok_def)
qed

theorem sigtest_stops_witness:
  "\<exists>s2. sigtest_main (kernel_calls (typing demo_env (\<lambda>_. 0) (\<lambda>_. 0) [0x0B, 0x8B]) (\<lambda>_ _. Undef)) (kernel_store demo_tables demo_sig_layout) demo_sig_layout
      (replicate 1024 1) sig_start (demo_sig, []) =
     Ret (Stopped (s2, [(1, map of_char ''Installing signal handlers\<newline>''), (1, map of_char ''Hi, what's your name? '')]))"
proof -
  have a: "terminated (argument (pcbs demo_sig 1))" "cstr (argument (pcbs demo_sig 1)) = [49]"
    by (simp_all add: demo_sig_def terminated_def cstr_def)
  show ?thesis
    using sigtest_stops[OF demo_sig_ready(1,2) demo_placed demo_sig_ready(3) a(1) a(2)[symmetric], of "replicate 1024 1" demo_env "\<lambda>_. 0" "\<lambda>_ _. Undef" demo_sig_layout "[]"]
    by (auto simp: sig_says_def)
qed

end
