(* ===== verification/Ports.thy ===== *)
theory Ports
  imports Prelude
begin

unbundle bit_operations_syntax

text \<open>
  The rest of \<open>lib.h\<close>: port accesses of two and four bytes, which are accesses to consecutive byte ports, and
  saving and restoring the flags around a section without interrupts. The kernel has these macros and does not use them.
\<close>

section \<open>Wide port accesses\<close>

definition inw :: "device \<Rightarrow> u16 \<Rightarrow> 'a machine_scheme \<Rightarrow> u32 \<times> 'a machine_scheme" where
  "inw dev p s = (let (b0, s1) = inb dev p s; (b1, s2) = inb dev (p + 1) s1 in (ucast b0 OR push_bit 8 (ucast b1), s2))"

definition inl :: "device \<Rightarrow> u16 \<Rightarrow> 'a machine_scheme \<Rightarrow> u32 \<times> 'a machine_scheme" where
  "inl dev p s = (let (w0, s1) = inw dev p s; (w1, s2) = inw dev (p + 2) s1 in (w0 OR push_bit 16 w1, s2))"

definition outw :: "u16 \<Rightarrow> u16 \<Rightarrow> 'a machine_scheme \<Rightarrow> 'a machine_scheme" where
  "outw d p s = outb (ucast (drop_bit 8 d)) (p + 1) (outb (ucast d) p s)"

definition outl :: "u32 \<Rightarrow> u16 \<Rightarrow> 'a machine_scheme \<Rightarrow> 'a machine_scheme" where
  "outl d p s = outw (ucast (drop_bit 16 d)) (p + 2) (outw (ucast d) p s)"

text \<open>Two jumps to the next instruction, for the time they take.\<close>

definition io_wait :: "'a machine_scheme \<Rightarrow> 'a machine_scheme" where
  "io_wait s = s"

section \<open>The interrupt flag\<close>

text \<open>Whether interrupts are enabled, from the log; the boot code starts with \<open>cli\<close>.\<close>

fun interrupts_on :: "io_event list \<Rightarrow> bool" where
  "interrupts_on [] = False"
| "interrupts_on (Cli # es) = False"
| "interrupts_on (Sti # es) = True"
| "interrupts_on (_ # es) = interrupts_on es"

text \<open>The flags register: bit 9 is the interrupt flag, the others are an argument.\<close>

definition eflags :: "u32 \<Rightarrow> 'a machine_scheme \<Rightarrow> u32" where
  "eflags others s = (if interrupts_on (io s) then set_bit 9 others else unset_bit 9 others)"

definition cli_and_save :: "u32 \<Rightarrow> 'a machine_scheme \<Rightarrow> u32 \<times> 'a machine_scheme" where
  "cli_and_save others s = (eflags others s, cli s)"

definition restore_flags :: "u32 \<Rightarrow> 'a machine_scheme \<Rightarrow> 'a machine_scheme" where
  "restore_flags flags s = (if bit flags 9 then sti s else cli s)"

section \<open>Properties\<close>

text \<open>A device whose ports keep what was written to them.\<close>

fun port_value :: "io_event list \<Rightarrow> u16 \<Rightarrow> u8" where
  "port_value [] p = 0"
| "port_value (Out q d # es) p = (if q = p then d else port_value es p)"
| "port_value (_ # es) p = port_value es p"

lemma bytes_of_word: "ucast (ucast w :: u8) OR push_bit 8 (ucast (ucast (drop_bit 8 w) :: u8)) = (ucast w :: u32)" for w :: u16
  by (rule bit_word_eqI) (auto simp: bit_simps dest: bit_imp_le_length)

lemma words_of_long: "ucast (ucast d :: u16) OR push_bit 16 (ucast (ucast (drop_bit 16 d) :: u16)) = d" for d :: u32
  by (rule bit_word_eqI) (auto simp: bit_simps dest: bit_imp_le_length)

lemma outw_inw: "fst (inw port_value p (outw d p s)) = ucast d"
  by (simp add: inw_def outw_def outb_def inb_def bytes_of_word)

lemma outl_inl: "fst (inl port_value p (outl d p s)) = d"
proof -
  have ne: "p + 1 \<noteq> p" "p + 2 \<noteq> p" "p + 2 \<noteq> p + 1" "p + 3 \<noteq> p" "p + 3 \<noteq> p + 1" "p + 3 \<noteq> p + 2" "p + 2 + 1 = p + 3" by simp_all
  show ?thesis using ne by (simp add: inl_def outl_def inw_def outw_def outb_def inb_def bytes_of_word words_of_long del: push_bit_or)
qed

text \<open>
  The section between \<open>cli_and_save\<close> and \<open>restore_flags\<close> starts with interrupts disabled and, whatever it does in between, leaves
  the interrupt flag as it was.
\<close>

lemma cli_save_restores:
  assumes "cli_and_save others s = (flags, s1)"
  shows "\<not> interrupts_on (io s1)" "interrupts_on (io (restore_flags flags s')) = interrupts_on (io s)"
  using assms by (auto simp: cli_and_save_def restore_flags_def eflags_def cli_def sti_def bit_simps split: if_splits)

end
