(* ===== verification/Wrappers.thy ===== *)
theory Wrappers
  imports Idt
begin

unbundle bit_operations_syntax

text \<open>
  The entry code of \<open>idt_linkage.S\<close> instruction by instruction: what an interrupt pushes, what the wrappers save and restore, and how
  the arguments and the value of a system call travel between the registers of the program and the stack of the kernel. Stacks are
  accessed in words of four bytes and are functions from addresses. The C functions that the wrappers call are those of the other theories,
  made into functions of the registers by the calling convention.
\<close>

section \<open>Registers and stack\<close>

record cpu =
  EAX :: u32
  EBX :: u32
  ECX :: u32
  EDX :: u32
  ESI :: u32
  EDI :: u32
  EBP :: u32
  ESP :: u32
  EIP :: u32
  EFLAGS :: u32
  CS :: u32
  SS :: u32
  STACK :: "u32 \<Rightarrow> u32"

definition pushl :: "u32 \<Rightarrow> cpu \<Rightarrow> cpu" where
  "pushl v c = c\<lparr>ESP := ESP c - 4, STACK := (STACK c)(ESP c - 4 := v)\<rparr>"

definition popl :: "cpu \<Rightarrow> u32 \<times> cpu" where
  "popl c = (STACK c (ESP c), c\<lparr>ESP := ESP c + 4\<rparr>)"

definition pusha :: "cpu \<Rightarrow> cpu" where
  "pusha c = pushl (EDI c) (pushl (ESI c) (pushl (EBP c) (pushl (ESP c) (pushl (EBX c) (pushl (EDX c) (pushl (ECX c) (pushl (EAX c) c)))))))"

definition popa :: "cpu \<Rightarrow> cpu" where
  "popa c =
     (let (v, c) = popl c; c = c\<lparr>EDI := v\<rparr>; (v, c) = popl c; c = c\<lparr>ESI := v\<rparr>; (v, c) = popl c; c = c\<lparr>EBP := v\<rparr>; (v, c) = popl c;
          (v, c) = popl c; c = c\<lparr>EBX := v\<rparr>; (v, c) = popl c; c = c\<lparr>EDX := v\<rparr>; (v, c) = popl c; c = c\<lparr>ECX := v\<rparr>; (v, c) = popl c
      in c\<lparr>EAX := v\<rparr>)"

text \<open>
  An interrupt through a gate to the kernel. From a program it switches to the stack of the task state segment and saves the program's stack
  pointer first; an interrupt gate clears the interrupt flag, a trap gate does not. \<open>iret\<close> is the way back; the stack pointer is restored on a return to a program only.
\<close>

record gate_target =
  gate_eip :: u32
  gate_esp0 :: u32
  gate_ss0 :: u32
  gate_trap :: bool

definition interrupt :: "gate_target \<Rightarrow> cpu \<Rightarrow> cpu" where
  "interrupt g c =
     (let d = (if CS c AND 3 = 0 then c else pushl (ESP c) (pushl (SS c) (c\<lparr>ESP := gate_esp0 g, SS := gate_ss0 g\<rparr>)))
      in (pushl (EIP c) (pushl (CS c) (pushl (EFLAGS c) d)))\<lparr>CS := ucast KERNEL_CS, EIP := gate_eip g,
           EFLAGS := (if gate_trap g then EFLAGS c else unset_bit 9 (EFLAGS c))\<rparr>)"

definition iret :: "cpu \<Rightarrow> cpu" where
  "iret c =
     (let (ip, c1) = popl c; (seg, c2) = popl c1; (fl, c3) = popl c2; d = c3\<lparr>EIP := ip, CS := seg, EFLAGS := fl\<rparr>
      in if seg AND 3 = CS c AND 3 then d
         else let (sp, d1) = popl d; (sseg, d2) = popl d1 in d2\<lparr>ESP := sp, SS := sseg\<rparr>)"

section \<open>The calling convention\<close>

text \<open>
  A C function finds its return address at the stack pointer and its arguments above it. \<open>None\<close> is a function that does not return to its
  caller. The instruction \<open>call\<close> pushes the return address, and \<open>ret\<close> takes it off.
\<close>

type_synonym 's c_function = "cpu \<Rightarrow> 's \<Rightarrow> (cpu \<times> 's) option"

definition arg :: "nat \<Rightarrow> cpu \<Rightarrow> u32" where
  "arg i c = STACK c (ESP c + 4 * of_nat (Suc i))"

definition call :: "u32 \<Rightarrow> 's c_function \<Rightarrow> 's c_function" where
  "call ret f c s = (case f (pushl ret c) s of None \<Rightarrow> None | Some (d, s1) \<Rightarrow> Some (snd (popl d), s1))"

text \<open>
  What a compiled function may leave behind: values in the registers that callers save, and anything in the words of its own frame and
  of its arguments. Those of its callers, as far as they matter here, are the next 32.
\<close>

record leftover =
  left_eax :: u32
  left_ecx :: u32
  left_edx :: u32
  left_eflags :: u32
  left_words :: "u32 \<Rightarrow> u32"

definition c_return :: "leftover \<Rightarrow> nat \<Rightarrow> u32 \<Rightarrow> cpu \<Rightarrow> cpu" where
  "c_return j k v c = c\<lparr>EAX := v, ECX := left_ecx j, EDX := left_edx j, EFLAGS := left_eflags j,
     STACK := (\<lambda>a. if \<exists>i\<in>set [Suc k..<32]. a = ESP c + 4 * of_nat i then STACK c a else left_words j a)\<rparr>"

text \<open>The interrupt handler and the system calls as functions of the registers.\<close>

definition irq_function :: "leftover \<Rightarrow> 'a env \<Rightarrow> (u8 \<Rightarrow> u8) \<Rightarrow> (u8 \<Rightarrow> u8) \<Rightarrow> 'a kernel_scheme c_function" where
  "irq_function j env past past_shift c s =
     (case irq_handler env past past_shift (unat (arg 0 c)) s of
        Ret (Irq_return, s1) \<Rightarrow> Some (c_return j 1 (left_eax j) c, s1)
      | _ \<Rightarrow> None)"

definition sys_function :: "leftover \<Rightarrow> 'a env \<Rightarrow> (u32 \<Rightarrow> u8 list option) \<Rightarrow> nat \<Rightarrow> 'a kernel_scheme c_function" where
  "sys_function j env ptr n c s =
     (case (syscall_array env ptr (arg 0 c) (arg 1 c) (arg 2 c) ! n) s of
        Ret (Returned v buf, s1) \<Rightarrow> Some (c_return j 3 (word_of_int v) c, s1)
      | _ \<Rightarrow> None)"

section \<open>The wrappers\<close>

definition irq_entry :: "u32 \<Rightarrow> u32 \<Rightarrow> 's c_function \<Rightarrow> 's c_function" where
  "irq_entry ret n f c s =
     (case call ret f (pushl n (pusha c)) s of
        None \<Rightarrow> None
      | Some (d, s1) \<Rightarrow> (let (v, d) = popl d in Some (iret (popa (d\<lparr>EAX := v\<rparr>)), s1)))"

definition irq0_entry :: "u32 \<Rightarrow> 'a kernel_scheme c_function \<Rightarrow> 'a kernel_scheme c_function" where
  "irq0_entry ret f c s = irq_entry ret 0 f c s"

definition irq1_entry :: "u32 \<Rightarrow> 'a kernel_scheme c_function \<Rightarrow> 'a kernel_scheme c_function" where
  "irq1_entry ret f c s = irq_entry ret 1 f c (s\<lparr>esp_0 := ESP c, ebp_0 := EBP c\<rparr>)"

definition irq8_entry :: "u32 \<Rightarrow> 'a kernel_scheme c_function \<Rightarrow> 'a kernel_scheme c_function" where
  "irq8_entry ret f c s = irq_entry ret 8 f c s"

text \<open>\<open>returnValue\<close> keeps the value of the call while \<open>popa\<close> restores all registers; nothing else reads it.\<close>

definition syscall_entry :: "u32 \<Rightarrow> (nat \<Rightarrow> 's c_function) \<Rightarrow> 's c_function" where
  "syscall_entry ret f c s =
     (let c1 = pushl (EBX c) (pushl (ECX c) (pushl (EDX c) (pusha c)))
      in if sint (EAX c) < 1 \<or> sint (EAX c) > 8
         then let (v, d) = popl c1; d = d\<lparr>EBX := v\<rparr>; (v, d) = popl d; d = d\<lparr>ECX := v\<rparr>; (v, d) = popl d; d = popa (d\<lparr>EDX := v\<rparr>)
              in Some (iret (d\<lparr>EAX := -1\<rparr>), s)
         else case call ret (f (nat (sint (EAX c)))) c1 s of
                None \<Rightarrow> None
              | Some (d, s1) \<Rightarrow>
                  let (v, d) = popl d; d = d\<lparr>EBX := v\<rparr>; (v, d) = popl d; d = d\<lparr>ECX := v\<rparr>; (v, d) = popl d; d = d\<lparr>EDX := v\<rparr>;
                      returnValue = EAX d; d = popa d
                  in Some (iret (d\<lparr>EAX := returnValue\<rparr>), s1))"

text \<open>The function that continues an interrupted task from its saved pointers: the return address stands below its arguments.\<close>

definition int_ret_helper :: "cpu \<Rightarrow> cpu" where
  "int_ret_helper c = (let c1 = c\<lparr>EBP := STACK c (ESP c + 4)\<rparr> in iret (c1\<lparr>ESP := STACK c1 (ESP c1 + 8)\<rparr>))"

definition exception_entry :: "u32 \<Rightarrow> 's c_function \<Rightarrow> 's c_function" where
  "exception_entry ret f c s =
     (case call ret f (pusha c) s of None \<Rightarrow> None | Some (d, s1) \<Rightarrow> Some (iret (popa d), s1))"

section \<open>What the instructions do to the registers\<close>

lemma pushl_fields [simp]: "ESP (pushl v c) = ESP c - 4" "EAX (pushl v c) = EAX c" "EBX (pushl v c) = EBX c" "ECX (pushl v c) = ECX c"
    "EDX (pushl v c) = EDX c" "ESI (pushl v c) = ESI c" "EDI (pushl v c) = EDI c" "EBP (pushl v c) = EBP c" "CS (pushl v c) = CS c"
    "SS (pushl v c) = SS c"
  by (simp_all add: pushl_def)

lemma interrupt_fields [simp]: "EAX (interrupt g c) = EAX c" "EBX (interrupt g c) = EBX c" "ECX (interrupt g c) = ECX c"
    "EDX (interrupt g c) = EDX c" "ESI (interrupt g c) = ESI c" "EDI (interrupt g c) = EDI c" "EBP (interrupt g c) = EBP c"
    "CS (interrupt g c) = ucast KERNEL_CS"
  by (simp_all add: interrupt_def Let_def)

lemma pusha_fields [simp]: "ESP (pusha c) = ESP c - 32" "EAX (pusha c) = EAX c" "CS (pusha c) = CS c" "SS (pusha c) = SS c"
  by (simp_all add: pusha_def)

lemma popa_words: "popa c = c\<lparr>EDI := STACK c (ESP c), ESI := STACK c (4 + ESP c), EBP := STACK c (8 + ESP c), EBX := STACK c (16 + ESP c),
    EDX := STACK c (20 + ESP c), ECX := STACK c (24 + ESP c), EAX := STACK c (28 + ESP c), ESP := 32 + ESP c\<rparr>"
  by (simp add: popa_def popl_def Let_def ac_simps)

lemma pusha_words: "STACK (pusha c) (ESP c - 32) = EDI c" "STACK (pusha c) (ESP c - 28) = ESI c" "STACK (pusha c) (ESP c - 24) = EBP c"
    "STACK (pusha c) (ESP c - 16) = EBX c" "STACK (pusha c) (ESP c - 12) = EDX c" "STACK (pusha c) (ESP c - 8) = ECX c"
    "STACK (pusha c) (ESP c - 4) = EAX c" "STACK (pusha c) (ESP c) = STACK c (ESP c)" "STACK (pusha c) (4 + ESP c) = STACK c (4 + ESP c)"
    "STACK (pusha c) (8 + ESP c) = STACK c (8 + ESP c)" "STACK (pusha c) (12 + ESP c) = STACK c (12 + ESP c)"
    "STACK (pusha c) (16 + ESP c) = STACK c (16 + ESP c)"
  by (simp_all add: pusha_def pushl_def)

lemma interrupt_words: "STACK (interrupt g c) (ESP (interrupt g c)) = EIP c" "STACK (interrupt g c) (4 + ESP (interrupt g c)) = CS c"
    "STACK (interrupt g c) (8 + ESP (interrupt g c)) = EFLAGS c"
    "CS c AND 3 \<noteq> 0 \<Longrightarrow> STACK (interrupt g c) (12 + ESP (interrupt g c)) = ESP c"
    "CS c AND 3 \<noteq> 0 \<Longrightarrow> STACK (interrupt g c) (16 + ESP (interrupt g c)) = SS c"
    "CS c AND 3 = 0 \<Longrightarrow> 12 + ESP (interrupt g c) = ESP c" "CS c AND 3 = 0 \<Longrightarrow> SS (interrupt g c) = SS c"
  by (simp_all add: interrupt_def pushl_def Let_def)

text \<open>The 13 words from \<open>pusha\<close> up to the pushed program counter and stack pointer, at offsets from the end.\<close>

lemma frame_words:
  assumes "e = pusha (interrupt g c)"
  shows "STACK e (ESP e) = EDI c" "STACK e (4 + ESP e) = ESI c" "STACK e (8 + ESP e) = EBP c" "STACK e (16 + ESP e) = EBX c"
    "STACK e (20 + ESP e) = EDX c" "STACK e (24 + ESP e) = ECX c" "STACK e (28 + ESP e) = EAX c" "STACK e (32 + ESP e) = EIP c"
    "STACK e (36 + ESP e) = CS c" "STACK e (40 + ESP e) = EFLAGS c"
    "CS c AND 3 \<noteq> 0 \<Longrightarrow> STACK e (44 + ESP e) = ESP c \<and> STACK e (48 + ESP e) = SS c"
    "CS c AND 3 = 0 \<Longrightarrow> 44 + ESP e = ESP c \<and> SS e = SS c"
  using pusha_words[of "interrupt g c"] interrupt_words[where g = g and c = c] by (simp_all add: assms)

lemma frame_restored:
  assumes priv: "CS c AND 3 = 0 \<or> CS c AND 3 = 3" and e: "e = pusha (interrupt g c)" and d: "ESP d = ESP e" "CS d = CS e" "SS d = SS e"
    and w: "\<And>i. i < 13 \<Longrightarrow> STACK d (ESP e + 4 * of_nat i) = STACK e (ESP e + 4 * of_nat i)"
  shows "iret (popa d) = c\<lparr>STACK := STACK d\<rparr>"
    and "iret ((popa d)\<lparr>EAX := v\<rparr>) = c\<lparr>EAX := v, STACK := STACK d\<rparr>"
proof -
  note f = frame_words[OF e]
  have cs: "CS e AND 3 = 0" by (simp add: e)
  have r: "STACK d (ESP e) = EDI c" "STACK d (4 + ESP e) = ESI c" "STACK d (8 + ESP e) = EBP c" "STACK d (16 + ESP e) = EBX c"
    "STACK d (20 + ESP e) = EDX c" "STACK d (24 + ESP e) = ECX c" "STACK d (28 + ESP e) = EAX c" "STACK d (32 + ESP e) = EIP c"
    "STACK d (36 + ESP e) = CS c" "STACK d (40 + ESP e) = EFLAGS c"
    "CS c AND 3 \<noteq> 0 \<Longrightarrow> STACK d (44 + ESP e) = ESP c \<and> STACK d (48 + ESP e) = SS c"
    using f w[of 0] w[of 1] w[of 2] w[of 4] w[of 5] w[of 6] w[of 7] w[of 8] w[of 9] w[of 10] w[of 11] w[of 12] by (simp_all add: add.commute[of "ESP e"])
  have p: "popa d = d\<lparr>EDI := EDI c, ESI := ESI c, EBP := EBP c, EBX := EBX c, EDX := EDX c, ECX := ECX c, EAX := EAX c,
      ESP := 32 + ESP e\<rparr>"
    by (simp add: popa_words d(1) r)
  note r' = r f(12)
  show "iret (popa d) = c\<lparr>STACK := STACK d\<rparr>"
    using priv by (elim disjE) (simp_all add: p iret_def popl_def d cs r')
  show "iret ((popa d)\<lparr>EAX := v\<rparr>) = c\<lparr>EAX := v, STACK := STACK d\<rparr>"
    using priv by (elim disjE) (simp_all add: p iret_def popl_def d cs r')
qed

lemma words_below:
  assumes "i < 13"
  shows "STACK (pushl v e) (ESP e + 4 * of_nat i) = STACK e (ESP e + 4 * of_nat i)"
    "STACK (pushl u (pushl v e)) (ESP e + 4 * of_nat i) = STACK e (ESP e + 4 * of_nat i)"
    "STACK (pushl w (pushl u (pushl v e))) (ESP e + 4 * of_nat i) = STACK e (ESP e + 4 * of_nat i)"
    "STACK (pushl x (pushl w (pushl u (pushl v e)))) (ESP e + 4 * of_nat i) = STACK e (ESP e + 4 * of_nat i)"
proof -
  have "(4 * of_nat i :: u32) < 52"
  proof -
    have "(of_nat i :: u32) < 13" using assms by (simp add: word_less_nat_alt unat_of_nat)
    then show ?thesis by (simp add: word_less_nat_alt unat_word_ariths)
  qed
  then have ne: "4 * of_nat i \<noteq> - (4 :: u32)" "4 * of_nat i \<noteq> - (8 :: u32)" "4 * of_nat i \<noteq> - (12 :: u32)" "4 * of_nat i \<noteq> - (16 :: u32)"
    by auto
  show "STACK (pushl v e) (ESP e + 4 * of_nat i) = STACK e (ESP e + 4 * of_nat i)"
    "STACK (pushl u (pushl v e)) (ESP e + 4 * of_nat i) = STACK e (ESP e + 4 * of_nat i)"
    "STACK (pushl w (pushl u (pushl v e))) (ESP e + 4 * of_nat i) = STACK e (ESP e + 4 * of_nat i)"
    "STACK (pushl x (pushl w (pushl u (pushl v e)))) (ESP e + 4 * of_nat i) = STACK e (ESP e + 4 * of_nat i)"
    using ne by (simp_all add: pushl_def diff_conv_add_uminus del: add_uminus_conv_diff)
qed

section \<open>The contract of a called function\<close>

locale cdecl =
  fixes f :: "'s c_function" and k :: nat
  assumes keeps: "f c s = Some (d, s1) \<Longrightarrow> EBX d = EBX c \<and> ESI d = ESI c \<and> EDI d = EDI c \<and> EBP d = EBP c \<and> ESP d = ESP c \<and>
      CS d = CS c \<and> SS d = SS c"
    and above: "f c s = Some (d, s1) \<Longrightarrow> k < i \<Longrightarrow> i < 32 \<Longrightarrow> STACK d (ESP c + 4 * of_nat i) = STACK c (ESP c + 4 * of_nat i)"
begin

text \<open>When the words between the return address and a saved frame are its arguments, the frame survives the call.\<close>

lemma frame_kept:
  assumes "f c s = Some (d, s1)" "ESP e = ESP c + 4 * of_nat (Suc k)" "k \<le> 3" "i < 13"
  shows "STACK d (ESP e + 4 * of_nat i) = STACK c (ESP e + 4 * of_nat i)"
  using above[OF assms(1), of "Suc k + i"] assms(2-4) by (simp add: algebra_simps)

lemma irq_entry_returns:
  assumes k: "k = 1" and priv: "CS c AND 3 = 0 \<or> CS c AND 3 = 3"
    and f: "f (pushl ret (pushl n (pusha (interrupt g c)))) s = Some (d, s1)"
  shows "irq_entry ret n f (interrupt g c) s = Some (c\<lparr>STACK := STACK d\<rparr>, s1)"
proof -
  define e where "e = pusha (interrupt g c)"
  note f1 = f[folded e_def]
  have esp: "8 + ESP d = ESP e" "CS d = CS e" "SS d = SS e" using keeps[OF f1] by simp_all
  have w: "STACK d (ESP e + 4 * of_nat i) = STACK e (ESP e + 4 * of_nat i)" if "i < 13" for i
    using frame_kept[OF f1, of e i] k that words_below(2)[where i = i and e = e] by simp
  have "call ret f (pushl n e) s = Some (d\<lparr>ESP := ESP d + 4\<rparr>, s1)" using f1 by (simp add: call_def popl_def)
  then have "irq_entry ret n f (interrupt g c) s = Some (iret (popa (d\<lparr>ESP := ESP e, EAX := STACK d (ESP d + 4)\<rparr>)), s1)"
    by (simp add: irq_entry_def e_def[symmetric] popl_def esp(1)[symmetric])
  then show ?thesis using frame_restored(1)[OF priv e_def, of "d\<lparr>ESP := ESP e, EAX := STACK d (ESP d + 4)\<rparr>"] w esp(2,3) by simp
qed

lemma syscall_entry_returns:
  assumes k: "k = 3" and priv: "CS c AND 3 = 0 \<or> CS c AND 3 = 3" and nr: "1 \<le> sint (EAX c)" "sint (EAX c) \<le> 8"
    and tbl: "tbl (nat (sint (EAX c))) = f"
    and f: "f (pushl ret (pushl (EBX c) (pushl (ECX c) (pushl (EDX c) (pusha (interrupt g c)))))) s = Some (d, s1)"
  shows "syscall_entry ret tbl (interrupt g c) s = Some (c\<lparr>EAX := EAX d, STACK := STACK d\<rparr>, s1)"
proof -
  define e where "e = pusha (interrupt g c)"
  define c1 where "c1 = pushl (EBX c) (pushl (ECX c) (pushl (EDX c) e))"
  have f1: "f (pushl ret c1) s = Some (d, s1)" using f by (simp add: c1_def e_def)
  have esp: "16 + ESP d = ESP e" "CS d = CS e" "SS d = SS e" using keeps[OF f1] by (simp_all add: c1_def)
  have w: "STACK d (ESP e + 4 * of_nat i) = STACK e (ESP e + 4 * of_nat i)" if "i < 13" for i
    using frame_kept[OF f1, of e i] k that words_below(4)[where i = i and e = e] by (simp add: c1_def)
  have "call ret f c1 s = Some (d\<lparr>ESP := ESP d + 4\<rparr>, s1)" using f1 by (simp add: call_def popl_def)
  then have "syscall_entry ret tbl (interrupt g c) s = Some (iret ((popa (d\<lparr>EBX := STACK d (ESP d + 4), ECX := STACK d (8 + ESP d),
      ESP := ESP e, EDX := STACK d (12 + ESP d)\<rparr>))\<lparr>EAX := EAX d\<rparr>), s1)"
    using nr tbl by (simp add: syscall_entry_def e_def[symmetric] c1_def[symmetric] popl_def Let_def esp(1)[symmetric])
  then show ?thesis
    using frame_restored(2)[OF priv e_def, of "d\<lparr>EBX := STACK d (ESP d + 4), ECX := STACK d (8 + ESP d), ESP := ESP e, EDX := STACK d (12 + ESP d)\<rparr>"] w esp(2,3)
    by simp
qed

text \<open>
  Some exceptions push an error code, which the linkage does not take off: a handler that returned would send \<open>iret\<close> to the error code.
\<close>

lemma exception_returns_to_code:
  assumes f: "f (pushl ret (pusha (pushl code c))) s = Some (d, s1)" and k: "k = 0"
  shows "\<exists>c'. exception_entry ret f (pushl code c) s = Some (c', s1) \<and> EIP c' = code"
proof -
  have e: "ESP c = ESP d + 40" using keeps[OF f] by simp
  have "STACK d (ESP c - 4) = code"
    using frame_kept[OF f, of "pusha (pushl code c)" 8] k by (simp add: pusha_def pushl_def)
  then have "STACK d (36 + ESP d) = code" by (simp add: e)
  moreover have "EIP (iret b) = STACK b (ESP b)" for b by (simp add: iret_def popl_def Let_def)
  ultimately show ?thesis using f by (simp add: exception_entry_def call_def popl_def popa_words e)
qed

end

section \<open>The kernel's functions\<close>

lemma c_return_fields [simp]: "EBX (c_return j k v c) = EBX c" "ESI (c_return j k v c) = ESI c" "EDI (c_return j k v c) = EDI c"
    "EBP (c_return j k v c) = EBP c" "ESP (c_return j k v c) = ESP c" "CS (c_return j k v c) = CS c" "SS (c_return j k v c) = SS c"
    "EAX (c_return j k v c) = v"
  by (simp_all add: c_return_def)

lemma c_return_above: "k < i \<Longrightarrow> i < 32 \<Longrightarrow> STACK (c_return j k v c) (ESP c + 4 * of_nat i) = STACK c (ESP c + 4 * of_nat i)"
  using bexI[of "\<lambda>m. ESP c + 4 * of_nat i = ESP c + 4 * of_nat m" i "set [Suc k..<32]"] by (simp add: c_return_def)

interpretation irq_cdecl: cdecl "irq_function j env past past_shift" 1
  by unfold_locales (auto simp: irq_function_def c_return_above simp del: One_nat_def split: outcome.splits prod.splits irq_exit.splits)

interpretation sys_cdecl: cdecl "sys_function j env ptr n" 3
  by unfold_locales (auto simp: sys_function_def c_return_above split: outcome.splits prod.splits call_exit.splits)

section \<open>Properties\<close>

text \<open>A program, the kernel's gate and what a function leaves behind, as examples.\<close>

definition demo_cpu :: cpu where
  "demo_cpu = \<lparr>EAX = 9, EBX = 1, ECX = 2, EDX = 3, ESI = 4, EDI = 5, EBP = 6, ESP = 0x83FFF00, EIP = 0x8048000, EFLAGS = 0x202, CS = 0x23, SS = 0x2B,
     STACK = (\<lambda>_. 7)\<rparr>"

definition demo_gate :: gate_target where
  "demo_gate = \<lparr>gate_eip = 0x401000, gate_esp0 = 0x7FDFFC, gate_ss0 = 0x18, gate_trap = False\<rparr>"

definition demo_left :: leftover where
  "demo_left = \<lparr>left_eax = 11, left_ecx = 12, left_edx = 13, left_eflags = 14, left_words = (\<lambda>_. 15)\<rparr>"

text \<open>
  C28: an interrupt is invisible to what it interrupts. When the handler of the timer, the keyboard or the clock returns, each wrapper
  has the registers, the stack pointer, the program counter and the flags as they were, whether a program or the kernel was interrupted and whatever
  the handler left in the registers and below; and the kernel's state is the one that the wrapper's handler gives, the keyboard's
  with the stack pointers of the moment of the interrupt.
\<close>

theorem interrupts_transparent:
  assumes "CS c AND 3 = 0 \<or> CS c AND 3 = 3" "c0 = interrupt g c" "f = irq_function j env past past_shift"
  shows "(irq0_wrapper env past past_shift s = Ret (Irq_return, s1) \<longrightarrow>
      (\<exists>st. irq0_entry ret f c0 s = Some (c\<lparr>STACK := st\<rparr>, s1))) \<and>
    (irq1_wrapper env past past_shift (ESP c0) (EBP c0) s = Ret (Irq_return, s1) \<longrightarrow>
      (\<exists>st. irq1_entry ret f c0 s = Some (c\<lparr>STACK := st\<rparr>, s1))) \<and>
    (irq8_wrapper env past past_shift s = Ret (Irq_return, s1) \<longrightarrow>
      (\<exists>st. irq8_entry ret f c0 s = Some (c\<lparr>STACK := st\<rparr>, s1)))"
proof -
  have "\<exists>st. irq_entry ret n f c0 t = Some (c\<lparr>STACK := st\<rparr>, s1)"
    if "irq_handler env past past_shift (unat n) t = Ret (Irq_return, s1)" for n t
  proof -
    let ?a = "pushl ret (pushl n (pusha c0))"
    have "arg 0 ?a = n" by (simp add: arg_def pushl_def)
    then have "f ?a t = Some (c_return j 1 (left_eax j) ?a, s1)" using that by (simp add: assms(3) irq_function_def)
    then show ?thesis using irq_cdecl.irq_entry_returns[OF refl assms(1)] assms(2,3) by blast
  qed
  from this[of 0 s] this[of 1 "s\<lparr>esp_0 := ESP c0, ebp_0 := EBP c0\<rparr>"] this[of 8 s] show ?thesis
    by (simp add: irq0_wrapper_def irq1_wrapper_def irq8_wrapper_def irq0_entry_def irq1_entry_def irq8_entry_def)
qed

theorem interrupts_transparent_witness:
  "\<exists>s1 st. irq8_wrapper demo_env (\<lambda>_. 0) (\<lambda>_. 0) demo_kernel = Ret (Irq_return, s1) \<and>
     irq8_entry 0x401010 (irq_function demo_left demo_env (\<lambda>_. 0) (\<lambda>_. 0)) (interrupt demo_gate demo_cpu) demo_kernel = Some (demo_cpu\<lparr>STACK := st\<rparr>, s1)"
proof -
  obtain s1 where s1: "irq8_wrapper demo_env (\<lambda>_. 0) (\<lambda>_. 0) demo_kernel = Ret (Irq_return, s1)"
    by (simp add: irq8_wrapper_def irq_handler_def irq_functions_def irq8_def)
  have "CS demo_cpu AND 3 = 3" by (simp add: demo_cpu_def)
  with interrupts_transparent[where past = "\<lambda>_. 0" and past_shift = "\<lambda>_. 0" and c = demo_cpu and g = demo_gate and j = demo_left and env = demo_env and ret = "0x401010", OF _ refl refl] s1 show ?thesis by blast
qed

text \<open>
  C27: the entry for system calls on the registers does what the call does on the kernel's state: the function gets \<open>ebx\<close>, \<open>ecx\<close> and \<open>edx\<close> of the program as
  its arguments, its value comes back in \<open>eax\<close>, \<open>-1\<close> for a number out of range, and everything else of the program's
  registers is as it was, although the function may overwrite its arguments and three registers.
\<close>

theorem system_call_registers:
  assumes "CS c AND 3 = 0 \<or> CS c AND 3 = 3" "syscall_wrapper env ptr (EAX c) (EBX c) (ECX c) (EDX c) s = Ret (Returned v buf, s1)"
  shows "\<exists>st. syscall_entry ret (sys_function j env ptr) (interrupt g c) s = Some (c\<lparr>EAX := word_of_int v, STACK := st\<rparr>, s1)"
proof (cases "sint (EAX c) < 1 \<or> sint (EAX c) > 8")
  case True
  define e where "e = pusha (interrupt g c)"
  define d where "d = pushl (EBX c) (pushl (ECX c) (pushl (EDX c) e))"
  have w: "STACK d (ESP e + 4 * of_nat i) = STACK e (ESP e + 4 * of_nat i)" if "i < 13" for i
    using words_below(3)[OF that, where e = e] by (simp add: d_def)
  have esp: "12 + ESP d = ESP e" "CS d = CS e" "SS d = SS e" by (simp_all add: d_def)
  have "syscall_entry ret (sys_function j env ptr) (interrupt g c) s = Some (iret ((popa (d\<lparr>EBX := STACK d (ESP d), ECX := STACK d (ESP d + 4),
      ESP := ESP e, EDX := STACK d (8 + ESP d)\<rparr>))\<lparr>EAX := -1\<rparr>), s)"
    using True by (auto simp: syscall_entry_def e_def[symmetric] d_def[symmetric] popl_def Let_def esp(1)[symmetric])
  then show ?thesis
    using frame_restored(2)[OF assms(1) e_def, of "d\<lparr>EBX := STACK d (ESP d), ECX := STACK d (ESP d + 4), ESP := ESP e, EDX := STACK d (8 + ESP d)\<rparr>"]
      w esp(2,3) assms(2) True by (auto simp: syscall_wrapper_def)
next
  case False
  let ?n = "nat (sint (EAX c))" and ?a = "pushl ret (pushl (EBX c) (pushl (ECX c) (pushl (EDX c) (pusha (interrupt g c)))))"
  have "arg 0 ?a = EBX c" "arg 1 ?a = ECX c" "arg 2 ?a = EDX c" by (simp_all add: arg_def pushl_def)
  then have "sys_function j env ptr ?n ?a s = Some (c_return j 3 (word_of_int v) ?a, s1)"
    using assms(2) False by (simp add: syscall_wrapper_def sys_function_def)
  from sys_cdecl.syscall_entry_returns[where tbl = "sys_function j env ptr", OF refl assms(1) _ _ refl this] False show ?thesis by auto
qed

theorem system_call_registers_witness:
  "\<exists>st. syscall_entry 0x401020 (sys_function demo_left demo_env (\<lambda>_. None)) (interrupt demo_gate (demo_cpu\<lparr>EAX := 6\<rparr>)) demo_kernel =
     Some (demo_cpu\<lparr>EAX := -1, STACK := st\<rparr>, demo_kernel)"
proof -
  have "CS demo_cpu AND 3 = 3" "EBX demo_cpu = 1" by (simp_all add: demo_cpu_def)
  moreover have "syscall_wrapper demo_env (\<lambda>_. None) 6 1 ecx edx demo_kernel = Ret (Returned (-1) None, demo_kernel)" for ecx edx
    by (simp add: syscall_wrapper_def syscall_array_def returned_def close_call_def)
  ultimately show ?thesis
    using system_call_registers[where c = "demo_cpu\<lparr>EAX := 6\<rparr>" and env = demo_env and ptr = "\<lambda>_. None" and s = demo_kernel and v = "-1"
      and buf = None and g = demo_gate and j = demo_left and ret = "0x401020"] by simp
qed

text \<open>
  The way back into a task that was interrupted by the keyboard: with the two pointers its wrapper stored, and while the words that the interrupt
  pushed are still there, the task goes on where it was and with its own stack; of the general registers only \<open>ebp\<close> is its own, the others are those of
  the task that was left.
\<close>

lemma int_ret_resumes:
  assumes priv: "CS c AND 3 = 0 \<or> CS c AND 3 = 3" and c0: "c0 = interrupt g c"
    and args: "arg 0 b = EBP c0" "arg 1 b = ESP c0" "CS b AND 3 = 0" "SS b = SS c0"
    and w: "\<And>i. i < 5 \<Longrightarrow> STACK b (ESP c0 + 4 * of_nat i) = STACK c0 (ESP c0 + 4 * of_nat i)"
  shows "int_ret_helper b = c\<lparr>EAX := EAX b, EBX := EBX b, ECX := ECX b, EDX := EDX b, ESI := ESI b, EDI := EDI b, STACK := STACK b\<rparr>"
proof -
  note iw = interrupt_words[where g = g and c = c, folded c0]
  have a: "STACK b (ESP b + 4) = EBP c" "STACK b (ESP b + 8) = ESP c0" using args by (simp_all add: arg_def c0)
  have r: "STACK b (ESP c0) = EIP c" "STACK b (ESP c0 + 4) = CS c" "STACK b (8 + ESP c0) = EFLAGS c"
    "CS c AND 3 \<noteq> 0 \<Longrightarrow> STACK b (12 + ESP c0) = ESP c \<and> STACK b (16 + ESP c0) = SS c"
    using iw(1-5) w[of 0] w[of 1] w[of 2] w[of 3] w[of 4] by (simp_all add: add.commute[of "ESP c0"])
  have "int_ret_helper b = iret (b\<lparr>EBP := EBP c, ESP := ESP c0\<rparr>)" by (simp add: int_ret_helper_def a)
  also have "\<dots> = c\<lparr>EAX := EAX b, EBX := EBX b, ECX := ECX b, EDX := EDX b, ESI := ESI b, EDI := EDI b, STACK := STACK b\<rparr>"
    using priv by (elim disjE) (simp_all add: iret_def popl_def r iw(6,7) args(3,4))
  finally show ?thesis .
qed

end
