(* ===== verification/Spec2Isabelle.thy ===== *)
theory Spec2Isabelle
  imports Descriptors Syserr Grep Fish Emulate Sigtest Ports Wrappers
begin

text \<open>
  Verification of a small 32-bit x86 operating system: the kernel under \<open>src/student-distrib\<close> and
  the user programs under \<open>src/syscalls\<close> and \<open>src/fish\<close>.

  The parts. \<open>kernel.c\<close> starts the machine: it reads the multiboot information, sets up the
  descriptor tables, the interrupt controllers, the file system, paging and the terminals, and executes the
  first shell. Programs call the kernel through vector 0x80; \<open>systemcall.c\<close> keeps a process control
  block per program, loads programs from the file system of \<open>file_system.c\<close>, gives each its own 4 MB frame by the
  page directories of \<open>paging.c\<close>, and dispatches \<open>read\<close> and \<open>write\<close> to the drivers through
  jump tables: \<open>terminal.c\<close> (keyboard and three terminals), \<open>rtc.c\<close> (clock), and the file system.
  \<open>idt.c\<close> and \<open>i8259.c\<close> bring interrupts to their handlers, \<open>scheduler.c\<close> has the run queue and the
  task switch, \<open>lib.c\<close> the console and the string and memory routines all of them use.

  The state. Each component extends the record of the one below: \<open>console\<close> (memory, port log, cursor),
  \<open>fs\<close>, \<open>pic\<close>, \<open>rtc\<close>, \<open>paging\<close>, \<open>sched\<close>, \<open>kbd\<close>, \<open>kernel\<close>, and \<open>boot\<close>. Every operation is a
  function on the records it needs, so that a driver's operation is used unchanged on the kernel's state. A
  result is an \<open>outcome\<close>: \<open>Ret\<close>, \<open>Hang\<close> for the code's own endless loops after a message, and \<open>Undef\<close>
  where the C program leaves its objects or follows a pointer to nowhere. Memory is a function from 32-bit
  addresses to bytes; ports are a log of events, and what a device answers is a function of the log.

  The theories.

    \<^item> \<open>Prelude\<close>: outcomes, buffers, strings in buffers, address ranges, and their automation; the lines and the words of a text.
    \<^item> \<open>Lib_String\<close>, \<open>Lib_Mem\<close> (\<open>lib.c\<close>): string routines with exact results in terms of \<open>cstr\<close>; \<open>itoa\<close> denotes its
      argument; \<open>memset\<close>, \<open>memcpy\<close>, \<open>memmove\<close> at the level of the string instructions equal
      plain fills and copies, overlap included.
    \<^item> \<open>Console\<close> (\<open>lib.c\<close>): \<open>putc\<close>, \<open>puts\<close>, \<open>printf\<close>, scrolling, saving and restoring the screen; which cells change.
    \<^item> \<open>File_System\<close> (\<open>file_system.c\<close>): lookup by name and index, \<open>read_data\<close> against the bytes of the file, directory
      listing as a source of names.
    \<^item> \<open>I8259\<close>, \<open>Rtc\<close> (\<open>i8259.c\<close>, \<open>rtc.c\<close>): masks, end of interrupt, timer divisor, clock rate and waiting for a tick.
    \<^item> \<open>Paging\<close> (\<open>paging.c\<close>): the directories and the translation they give: programs are isolated from each
      other and from the kernel but for the video page.
    \<^item> \<open>Slots\<close>: the contract of a pool of numbered slots, used for file descriptors and program slots.
    \<^item> \<open>Scheduler\<close> (\<open>scheduler.c\<close>): the run queue as a bag, and the task switch, which resumes a task where it left.
    \<^item> \<open>Terminal\<close>, \<open>Keyboard\<close> (\<open>terminal.c\<close>, and the handlers of \<open>i8259.c\<close>): line editing, \<open>terminal_read\<close> as the
      refinement of a pure editor of key sequences, from the scan codes on; \<open>terminal_write\<close> stays on the
      screen; switching to another terminal and back.
    \<^item> \<open>Syscall\<close>, \<open>Tasks\<close> (\<open>systemcall.c\<close>): the eight system calls; descriptors; reading a file to its end;
      \<open>execute\<close> and \<open>halt\<close> on every branch, that they are inverse, and the step relation of the system calls
      with the invariant that the programs form a stack.
    \<^item> \<open>Wellformed\<close>: what every system call keeps of the kernel's tables: their shape, the operations of open descriptors, and the standard
      descriptors of running programs.
    \<^item> \<open>Idt\<close> (\<open>idt.c\<close>, \<open>idt_linkage.S\<close>): the gates, which vectors user code may raise, the exception screens, and
      the entry of system calls.
    \<^item> \<open>Wrappers\<close> (\<open>idt_linkage.S\<close>): the entry code instruction by instruction; interrupts leave the registers as they were, and a
      system call changes \<open>eax\<close> to the value the kernel's model gives.
    \<^item> \<open>Boot\<close> (\<open>kernel.c\<close>): \<open>entry\<close> from the boot loader to the first shell.
    \<^item> \<open>Descriptors\<close> (\<open>x86_desc.h\<close>, \<open>x86_desc.S\<close>): the global descriptor table and the task state segment as bits and bytes, and
      what the selectors of the code select in them after the set-up.
    \<^item> \<open>Ports\<close> (\<open>lib.h\<close>): wide port accesses, and saving and restoring the interrupt flag.
    \<^item> \<open>Programs\<close>, \<open>Runs\<close> (\<open>src/syscalls\<close>): the user programs as functions of the system calls they make, and what the
      shell, \<open>hello\<close> and \<open>counter\<close> do on this kernel.
    \<^item> \<open>Apart\<close>: which bytes of memory \<open>terminal_write\<close> reaches and which the file system depends on; with the two apart,
      \<open>cat\<close> copies a file and \<open>ls\<close> lists the directory.
    \<^item> \<open>Grep\<close> (\<open>ece391grep.c\<close>): searching a file in pieces finds the lines with the search string, each once.
    \<^item> \<open>Syserr\<close> (\<open>ece391syserr.c\<close>): the test program for wrong system calls; this kernel passes its tests.
    \<^item> \<open>Sigtest\<close> (\<open>ece391sigtest.c\<close>): the test program for signals; on this kernel, which has none, it ends in the page fault handler.
    \<^item> \<open>Emulate\<close> (\<open>ece391emulate.c\<close>): the system calls on Linux, which is a parameter: how a command becomes a vector of
      arguments and back, and where this agrees with the kernel's \<open>execute\<close> and \<open>getargs\<close>.
    \<^item> \<open>Blink\<close> (\<open>src/fish/blink.S\<close>, and the allocator of \<open>fish.c\<close>): the linked list of blinking characters as the
      refinement of a sequence of structures without pointers, and how location 0 breaks it.
    \<^item> \<open>Fish\<close> (\<open>fish.c\<close>): the program on the system calls and the list; it shows the frames of its two files and ends.
    \<^item> this theory: the states of the whole system from boot on, and the invariant of its programs.

  Interfaces. The contracts between components are locales: \<open>item_source\<close> (something read item by item until it is
  exhausted: directory and file), \<open>slot_pool\<close> (file descriptors and programs), \<open>byte_window\<close> (a region of memory
  written byte by byte), \<open>key_view\<close>, \<open>line_view\<close> and \<open>call_view\<close> (what keyboard input, and calls that only move data, leave alone), \<open>tty_out\<close> and \<open>tty\<close> (the terminal as programs see
  it), \<open>item_out\<close> and \<open>text_out\<close> (items, and text, read from a file while lines are written to the terminal), \<open>checked_calls\<close> (system calls that refuse wrong arguments), \<open>text_files\<close> (files
  read byte by byte), \<open>ticking\<close> (a clock) and \<open>cdecl\<close> (what a C function leaves of its caller's registers and stack). Each is
  interpreted on the kernel's own operations and the properties use the facts of the interpretation.

  Loops, bounds and fuel. Loops over arrays and strings are total functions with a measure. A loop that waits takes what
  comes in while it waits as a list and returns \<open>None\<close> when the list is used up; the properties show
  that it returns. The loops of \<open>boot_info\<close> over the memory map and the modules have fuel, below 10000, a bound on
  the number of entries of a multiboot information block that fits below the kernel. The loops of the programs
  without an end of their own have fuel, too: \<open>None\<close> is a program that still runs. The loops of \<open>fish\<close> and its
  list are partial functions, \<open>None\<close> when they never end, and are shown to end. The line buffer has
  128 bytes, a command 128, a file name 32, as in the code.

  Not modelled. The processor's caches of translations: the kernel's own memory is addressed physically, which is faithful
  as long as the terminal of the running program is the one shown; the pointer a program gives to \<open>vidmap\<close> goes through the page tables, and
  the other buffers of programs are arguments and results of the calls; the timer's interrupt line is never enabled
  by the code, so that no other program runs in between. The assembly that \<open>execute\<close>, \<open>halt\<close>
  and the terminal switch have inline is modelled by the pointers it stores and loads; \<open>boot.S\<close>, which loads the segment registers and calls \<open>entry\<close>, is
  not modelled; the values of uninitialised stack bytes are arguments. The video memory that \<open>fish\<close> writes to is a
  part of its own state and not of the kernel's memory, since the program has it mapped. The function \<open>test_file_system\<close>, whose body is
  a comment, and the macros of \<open>debug.h\<close>, which are empty unless \<open>DEBUG\<close> is defined. The loop of \<open>pingpong\<close> over the columns and that of \<open>grep\<close>
  over the directory are modelled and have no properties of their own.
\<close>

section \<open>The whole system\<close>

text \<open>
  The states of the system: those in which \<open>entry\<close> calls \<open>execute\<close> for the first shell, and those that
  follow by this call and by the system calls programs make through vector 0x80, with keys of one terminal
  arriving while a program waits for a line.
\<close>

inductive system_state :: "'a boot_scheme \<Rightarrow> bool" where
  system_boot: "power_on s \<Longrightarrow> cursor_within 25 s \<Longrightarrow> fuel < 10000 \<Longrightarrow> bootable fuel addr (clear s) \<Longrightarrow>
    boot_info fuel MULTIBOOT_BOOTLOADER_MAGIC addr (junk_temp lo) s = Ret (Some temp, s1) \<Longrightarrow>
    boot_setup lo dev temp s1 = Ret s2 \<Longrightarrow> system_state s2"
| system_shell: "system_state s \<Longrightarrow> execute env (Some (lit ''shell'')) s = Ret (t, s') \<Longrightarrow> system_state s'"
| system_call: "system_state s \<Longrightarrow> env_irqs env = map key_irq ks \<Longrightarrow>
    syscall_wrapper env ptr eax ebx ecx edx s = Ret (x, s') \<Longrightarrow> system_state s'"

lemma syscall_wrapper_step:
  assumes w: "syscall_wrapper env ptr eax ebx ecx edx s = Ret (x, s')" and k: "env_irqs env = map key_irq ks"
  shows "s' = s \<or> syscall_step s s'"
proof (cases "sint eax < 1 \<or> 8 < sint eax")
  case True
  with w show ?thesis by (simp add: syscall_wrapper_def)
next
  case False
  define n where "n = nat (sint eax)"
  then have "n = 1 \<or> n = 2 \<or> n = 3 \<or> n = 4 \<or> n = 5 \<or> n = 6 \<or> n = 7 \<or> n = 8" using False by linarith
  moreover have "(syscall_array env ptr ebx ecx edx ! n) s = Ret (x, s')" using w False by (simp add: syscall_wrapper_def n_def)
  ultimately show ?thesis
    by (elim disjE) (auto simp: syscall_array_def returned_def transferred_def outcome_simps split: option.splits prod.splits
        intro: syscall_step.intros step_read[OF k])
qed

lemma system_reachable: "system_state s \<Longrightarrow> reachable s"
proof (induction rule: system_state.induct)
  case (system_boot s fuel addr lo temp s1 dev s2)
  then have "since 100000 (clear s) s1"
    using boot_info_ok[OF refl system_boot(2), of addr fuel "junk_temp lo"] by (auto simp: bootable_def)
  then have "power_on s1" using printed_power_on clear_power_on system_boot(1) by (metis since_def)
  from boot_setup_ready[OF this, of lo dev temp] system_boot show ?case by (auto simp: ready_def intro: reach_boot)
next
  case (system_shell s env t s')
  then show ?case by (blast intro: reach_step step_execute)
next
  case (system_call s env ks ptr eax ebx ecx edx x s')
  then show ?case using syscall_wrapper_step reach_step by blast
qed



end
